(* ===== verification/Go_Prelude.thy ===== *)
theory Go_Prelude
  imports Main "HOL-Library.Sublist" "HOL-Library.Multiset" "HOL-Library.Char_ord" "HOL-Library.List_Lexorder"
begin

text \<open>
  What the components share: Go's results (a value, an error, a panic), its fixed-width integers,
  its maps and the order in which a \<^verbatim>\<open>range\<close> loop walks them, and the functions of the packages
  \<^verbatim>\<open>strconv\<close>, \<^verbatim>\<open>strings\<close>, \<^verbatim>\<open>net\<close>, \<^verbatim>\<open>fmt\<close> and \<^verbatim>\<open>slices\<close> that the sources call
  (\<^verbatim>\<open>golang.org/x/exp/slices\<close>, at the version pinned in \<^verbatim>\<open>go.mod\<close>, forwards to the standard
  \<^verbatim>\<open>slices\<close>). A Go string is a sequence of bytes, and so is \<^typ>\<open>string\<close>.
\<close>

section \<open>Collections of rules\<close>

named_theorems go_defs \<open>definitions of the Go library functions\<close>
named_theorems go_data \<open>definitions of the constants of the sources\<close>

section \<open>Errors, panics and integers\<close>

datatype num_err = ErrSyntax | ErrRange

datatype grpc_code = FailedPrecondition | OtherCode

text \<open>
  The errors the code creates itself keep their text; the errors of a package outside the
  repository are \<open>ExternalError\<close>s, whose text the code only logs or passes on.
\<close>

datatype go_error =
    ErrorString string
  | NumError string num_err
  | StatusError grpc_code go_error
  | EOF
  | ExternalError string

datatype 'a outcome = Ret 'a | Panic

text \<open>
  \<^verbatim>\<open>int\<close> has 64 bits and \<^verbatim>\<open>int32\<close> has 32, both signed; \<open>wrap64\<close> and \<open>wrap32\<close> bring an
  arithmetic result into range and \<open>to_uint32\<close> is the conversion to \<^verbatim>\<open>uint32\<close>.
\<close>

type_synonym int32 = int

definition wrap32 :: "int \<Rightarrow> int32" where
  "wrap32 i = (i + 2 ^ 31) mod 2 ^ 32 - 2 ^ 31"

definition wrap64 :: "int \<Rightarrow> int" where
  "wrap64 i = (i + 2 ^ 63) mod 2 ^ 64 - 2 ^ 63"

definition to_uint32 :: "int \<Rightarrow> int" where
  "to_uint32 i = i mod 2 ^ 32"

definition in_int32 :: "int \<Rightarrow> bool" where
  "in_int32 i \<longleftrightarrow> - (2 ^ 31) \<le> i \<and> i < 2 ^ 31"

section \<open>Maps and range loops\<close>

text \<open>
  The iteration order of a Go map is not specified. A \<^verbatim>\<open>range\<close> loop takes the sequence of
  pairs it is given as an argument, and \<open>range_of kvs m\<close> says that \<open>kvs\<close> is one of the sequences
  the loop over \<open>m\<close> may see: every entry of \<open>m\<close> once, nothing else. A statement about the loop
  quantifies over all of them.
\<close>

definition range_of :: "('k \<times> 'v) list \<Rightarrow> ('k \<rightharpoonup> 'v) \<Rightarrow> bool" where
  "range_of kvs m \<longleftrightarrow> distinct (map fst kvs) \<and> map_of kvs = m"

section \<open>strconv\<close>

definition is_digit :: "char \<Rightarrow> bool" where
  "is_digit c \<longleftrightarrow> 48 \<le> (of_char c :: nat) \<and> (of_char c :: nat) \<le> 57"

definition digit_val :: "char \<Rightarrow> nat" where
  "digit_val c = of_char c - 48"

definition digit_char :: "nat \<Rightarrow> char" where
  "digit_char d = ''0123456789'' ! d"

text \<open>\<open>parse_digits\<close> is the loop of \<^verbatim>\<open>strconv.ParseUint\<close> in base 10 with 64 bits.\<close>

fun parse_digits :: "string \<Rightarrow> nat \<Rightarrow> string \<Rightarrow> go_error + nat" where
  "parse_digits num n [] = Inr n"
| "parse_digits num n (c # cs) =
     (if \<not> is_digit c then Inl (NumError num ErrSyntax)
      else let n' = 10 * n + digit_val c in
        if 2 ^ 64 \<le> n' then Inl (NumError num ErrRange) else parse_digits num n' cs)"

definition strconv_Atoi :: "string \<Rightarrow> go_error + int" where
  "strconv_Atoi s =
     (case s of
        [] \<Rightarrow> Inl (NumError s ErrSyntax)
      | c # cs \<Rightarrow>
          (let neg = (c = CHR ''-'');
               ds = (if c = CHR ''-'' \<or> c = CHR ''+'' then cs else s)
           in if ds = [] then Inl (NumError s ErrSyntax)
              else case parse_digits s 0 ds of
                     Inl e \<Rightarrow> Inl e
                   | Inr un \<Rightarrow>
                       if \<not> neg \<and> 2 ^ 63 \<le> un then Inl (NumError s ErrRange)
                       else if neg \<and> 2 ^ 63 < un then Inl (NumError s ErrRange)
                       else Inr (if neg then - int un else int un)))"

fun itoa_nat :: "nat \<Rightarrow> string" where
  "itoa_nat n = (if n < 10 then [digit_char n] else itoa_nat (n div 10) @ [digit_char (n mod 10)])"

declare itoa_nat.simps [simp del]

definition strconv_Itoa :: "int \<Rightarrow> string" where
  "strconv_Itoa i = (if i < 0 then CHR ''-'' # itoa_nat (nat (- i)) else itoa_nat (nat i))"

section \<open>strings, net and fmt\<close>

text \<open>\<^verbatim>\<open>strings.Split\<close> with a separator of one byte.\<close>

fun strings_Split :: "string \<Rightarrow> char \<Rightarrow> string list" where
  "strings_Split [] sep = [[]]"
| "strings_Split (c # cs) sep =
     (if c = sep then [] # strings_Split cs sep
      else case strings_Split cs sep of
             [] \<Rightarrow> [[c]]
           | w # ws \<Rightarrow> (c # w) # ws)"

text \<open>\<^verbatim>\<open>strings.LastIndex\<close> and \<^verbatim>\<open>strings.IndexRune\<close> of one byte; -1 when it does not occur.\<close>

fun strings_Index :: "string \<Rightarrow> char \<Rightarrow> int" where
  "strings_Index [] c = - 1"
| "strings_Index (x # xs) c =
     (if x = c then 0
      else let i = strings_Index xs c in if i = - 1 then - 1 else i + 1)"

fun strings_LastIndex :: "string \<Rightarrow> char \<Rightarrow> int" where
  "strings_LastIndex [] c = - 1"
| "strings_LastIndex (x # xs) c =
     (let i = strings_LastIndex xs c in
      if i \<noteq> - 1 then i + 1 else if x = c then 0 else - 1)"

definition strings_HasPrefix :: "string \<Rightarrow> string \<Rightarrow> bool" where
  "strings_HasPrefix s p \<longleftrightarrow> take (length p) s = p"

definition strings_HasSuffix :: "string \<Rightarrow> string \<Rightarrow> bool" where
  "strings_HasSuffix s p \<longleftrightarrow> length p \<le> length s \<and> drop (length s - length p) s = p"

definition net_JoinHostPort :: "string \<Rightarrow> string \<Rightarrow> string" where
  "net_JoinHostPort host port =
     (if CHR '':'' \<in> set host then ''['' @ host @ '']:'' @ port else host @ '':'' @ port)"

section \<open>slices\<close>

definition slices_Sort :: "int list \<Rightarrow> int list" where
  "slices_Sort s = sort s"

definition slices_Compact :: "'a list \<Rightarrow> 'a list" where
  "slices_Compact s = remdups_adj s"

fun slices_Index :: "'a list \<Rightarrow> 'a \<Rightarrow> int" where
  "slices_Index [] v = - 1"
| "slices_Index (x # xs) v =
     (if x = v then 0 else let i = slices_Index xs v in if i = - 1 then - 1 else i + 1)"

text \<open>\<^verbatim>\<open>slices.Delete(s, i, j)\<close> panics unless \<open>i \<le> j \<le> len(s)\<close>; here for \<open>0 \<le> i\<close>.\<close>

definition slices_Delete :: "'a list \<Rightarrow> nat \<Rightarrow> nat \<Rightarrow> 'a list outcome" where
  "slices_Delete s i j = (if i \<le> j \<and> j \<le> length s then Ret (take i s @ drop j s) else Panic)"

definition slices_Contains :: "'a list \<Rightarrow> 'a \<Rightarrow> bool" where
  "slices_Contains s v \<longleftrightarrow> v \<in> set s"

section \<open>Runs of a labelled step relation\<close>

text \<open>
  Components with concurrent parts are labelled step relations. A run is the sequence of labels it
  took, extended at its end.
\<close>

inductive run :: "('s \<Rightarrow> 'e \<Rightarrow> 's \<Rightarrow> bool) \<Rightarrow> 's \<Rightarrow> 'e list \<Rightarrow> 's \<Rightarrow> bool" for step s where
  run_nil [simp, intro!]: "run step s [] s"
| run_snoc: "run step s tr t \<Longrightarrow> step t e u \<Longrightarrow> run step s (tr @ [e]) u"

text \<open>The contract of an invariant: every step keeps it, hence every run does.\<close>

locale step_invariant =
  fixes step :: "'s \<Rightarrow> 'e \<Rightarrow> 's \<Rightarrow> bool" and inv :: "'s \<Rightarrow> bool"
  assumes step_inv: "inv s \<Longrightarrow> step s e t \<Longrightarrow> inv t"
begin

lemma run_inv: "run step s tr t \<Longrightarrow> inv s \<Longrightarrow> inv t"
  by (induction rule: run.induct) (auto intro: step_inv)

end

text \<open>
  The contract of an executor: a function that computes one of the steps a label allows. Its runs
  evaluate, and they are runs of the relation.
\<close>

fun exec_all :: "('s \<Rightarrow> 'e \<Rightarrow> 's option) \<Rightarrow> 's \<Rightarrow> 'e list \<Rightarrow> 's option" where
  "exec_all exec s [] = Some s"
| "exec_all exec s (e # es) = (case exec s e of None \<Rightarrow> None | Some t \<Rightarrow> exec_all exec t es)"

lemma run_single: "step s e t \<Longrightarrow> run step s [e] t"
  using run_snoc [OF run_nil] by fastforce

lemma run_trans: "run step t tr' u \<Longrightarrow> run step s tr t \<Longrightarrow> run step s (tr @ tr') u"
proof (induction rule: run.induct)
  case (run_snoc tr' u e v)
  then show ?case
    by (metis append.assoc run.run_snoc)
qed simp

lemma run_Cons: "step s e t \<Longrightarrow> run step t tr u \<Longrightarrow> run step s (e # tr) u"
  using run_trans [OF _ run_single] by fastforce

locale step_executor =
  fixes step :: "'s \<Rightarrow> 'e \<Rightarrow> 's \<Rightarrow> bool" and exec :: "'s \<Rightarrow> 'e \<Rightarrow> 's option"
  assumes exec_step: "exec s e = Some t \<Longrightarrow> step s e t"
begin

lemma exec_all_run: "exec_all exec s es = Some t \<Longrightarrow> run step s es t"
  by (induction es arbitrary: s) (auto intro: run_Cons exec_step split: option.splits)

end

section \<open>Rules for the library functions\<close>

subsection \<open>Integers\<close>

lemma wrap32_id [simp]: "in_int32 i \<Longrightarrow> wrap32 i = i"
  by (simp add: wrap32_def in_int32_def)

lemma in_int32_wrap32 [simp]: "in_int32 (wrap32 i)"
proof -
  have "0 \<le> (i + 2 ^ 31) mod 2 ^ 32" and "(i + 2 ^ 31) mod 2 ^ 32 < 2 ^ 32"
    by simp_all
  then show ?thesis
    by (simp add: wrap32_def in_int32_def)
qed

lemma to_uint32_id [simp]: "0 \<le> i \<Longrightarrow> i < 2 ^ 32 \<Longrightarrow> to_uint32 i = i"
  by (simp add: to_uint32_def)

subsection \<open>Decimal numbers\<close>

lemma less_10_cases: "(d::nat) < 10 \<Longrightarrow> d \<in> {0, 1, 2, 3, 4, 5, 6, 7, 8, 9}"
  by auto

lemma digit_char [simp]:
  assumes "d < 10"
  shows "is_digit (digit_char d)" and "digit_val (digit_char d) = d"
  using less_10_cases [OF assms]
  by (auto simp: digit_char_def is_digit_def digit_val_def)

lemma is_digit_sign:
  assumes "is_digit c"
  shows "c \<noteq> CHR ''-''" and "c \<noteq> CHR ''+''" and "c \<noteq> CHR '':''"
  using assms by (auto simp: is_digit_def)

lemma itoa_nat_digits: "c \<in> set (itoa_nat n) \<Longrightarrow> is_digit c"
  by (induction n rule: itoa_nat.induct, subst (asm) (2) itoa_nat.simps) (auto split: if_splits)

lemma itoa_nat_nonempty [simp]: "itoa_nat n \<noteq> []"
  by (subst itoa_nat.simps) simp

lemma itoa_nat_no_sign [simp]: "CHR ''-'' \<notin> set (itoa_nat n)" "CHR '':'' \<notin> set (itoa_nat n)"
  using itoa_nat_digits is_digit_sign by blast+

lemma itoa_nat_value: "foldl (\<lambda>m c. 10 * m + digit_val c) 0 (itoa_nat n) = n"
proof (induction n rule: itoa_nat.induct)
  case (1 n)
  then show ?case
    by (cases "n < 10"; subst itoa_nat.simps) (simp_all add: mult_div_mod_eq)
qed

lemma itoa_nat_inject [simp]: "itoa_nat m = itoa_nat n \<longleftrightarrow> m = n"
  by (metis itoa_nat_value)

lemma strconv_Itoa_inject [simp]: "strconv_Itoa i = strconv_Itoa j \<longleftrightarrow> i = j"
proof
  assume eq: "strconv_Itoa i = strconv_Itoa j"
  have neg: "itoa_nat m \<noteq> CHR ''-'' # cs" for m cs
    using itoa_nat_no_sign(1) [of m] by (metis list.set_intros(1))
  from eq show "i = j"
    by (auto simp: strconv_Itoa_def neg [symmetric] neg split: if_splits)
qed simp

lemma parse_digits_append:
  "parse_digits num n (xs @ ys) =
     (case parse_digits num n xs of Inl e \<Rightarrow> Inl e | Inr m \<Rightarrow> parse_digits num m ys)"
  by (induction num n xs rule: parse_digits.induct) (auto simp: Let_def)

lemma parse_digits_itoa: "n < 2 ^ 64 \<Longrightarrow> parse_digits num 0 (itoa_nat n) = Inr n"
proof (induction n rule: itoa_nat.induct)
  case (1 n)
  show ?case
  proof (cases "n < 10")
    case True
    then show ?thesis by (subst itoa_nat.simps) simp
  next
    case False
    with 1 have "parse_digits num 0 (itoa_nat (n div 10)) = Inr (n div 10)" by simp
    with False 1(2) show ?thesis
      by (subst itoa_nat.simps) (simp add: parse_digits_append mult_div_mod_eq)
  qed
qed

lemma Atoi_itoa_nat: "n < 2 ^ 63 \<Longrightarrow> strconv_Atoi (itoa_nat n) = Inr (int n)"
proof -
  assume n: "n < 2 ^ 63"
  obtain c cs where cs: "itoa_nat n = c # cs"
    by (cases "itoa_nat n") auto
  then have "c \<noteq> CHR ''-''" "c \<noteq> CHR ''+''"
    using itoa_nat_digits [of c n] is_digit_sign by auto
  with n cs parse_digits_itoa [of n "itoa_nat n"] show ?thesis
    by (simp add: strconv_Atoi_def)
qed

lemma Atoi_Itoa: "- (2 ^ 63) \<le> i \<Longrightarrow> i < 2 ^ 63 \<Longrightarrow> strconv_Atoi (strconv_Itoa i) = Inr i"
proof -
  assume lo: "- (2 ^ 63) \<le> i" and hi: "i < 2 ^ 63"
  show ?thesis
  proof (cases "i < 0")
    case True
    with lo parse_digits_itoa [of "nat (- i)" "CHR ''-'' # itoa_nat (nat (- i))"] show ?thesis
      by (simp add: strconv_Itoa_def strconv_Atoi_def)
  next
    case False
    with hi Atoi_itoa_nat [of "nat i"] show ?thesis by (simp add: strconv_Itoa_def)
  qed
qed

lemma Atoi_nonneg: "strconv_Atoi s = Inr i \<Longrightarrow> CHR ''-'' \<notin> set s \<Longrightarrow> 0 \<le> i"
  by (auto simp: strconv_Atoi_def Let_def split: list.splits if_splits sum.splits)

subsection \<open>Strings\<close>

lemma Split_nonempty [simp]: "strings_Split s sep \<noteq> []"
  by (cases s) (auto split: list.splits)

lemma Split_no_sep: "w \<in> set (strings_Split s sep) \<Longrightarrow> sep \<notin> set w"
  by (induction s sep arbitrary: w rule: strings_Split.induct) (fastforce split: list.splits if_splits)+

lemma Split_id: "sep \<notin> set s \<Longrightarrow> strings_Split s sep = [s]"
  by (induction s sep rule: strings_Split.induct) auto

lemma Split_append: "strings_Split (s @ sep # t) sep = strings_Split s sep @ strings_Split t sep"
  by (induction s sep rule: strings_Split.induct) (auto split: list.splits)

lemma last_Split_append: "sep \<notin> set t \<Longrightarrow> last (strings_Split (s @ sep # t) sep) = t"
  by (simp add: Split_append Split_id)

lemma last_Split_no_sep: "sep \<notin> set (last (strings_Split s sep))"
  by (rule Split_no_sep [OF last_in_set]) simp

lemma strings_LastIndex_bounds: "- 1 \<le> strings_LastIndex s c \<and> strings_LastIndex s c < int (length s)"
  by (induction s c rule: strings_LastIndex.induct) (auto simp: Let_def)

lemma strings_LastIndex_none [simp]: "strings_LastIndex s c = - 1 \<longleftrightarrow> c \<notin> set s"
proof (induction s c rule: strings_LastIndex.induct)
  case (2 x xs c)
  with strings_LastIndex_bounds [of xs c] show ?case by (auto simp: Let_def)
qed simp

lemma strings_LastIndex_append: "c \<notin> set t \<Longrightarrow> strings_LastIndex (s @ c # t) c = int (length s)"
proof (induction s)
  case Nil
  then show ?case by (simp add: Let_def)
next
  case (Cons x s)
  then show ?case by (simp add: Let_def)
qed

lemma strings_HasPrefix_append [simp]: "strings_HasPrefix (p @ s) p"
  by (simp add: strings_HasPrefix_def)

subsection \<open>Slices and ranges\<close>

lemma set_Compact_Sort [simp]: "set (slices_Compact (slices_Sort s)) = set s"
  by (simp add: slices_Compact_def slices_Sort_def)

lemma Compact_Sort_Nil [simp]: "slices_Compact (slices_Sort s) = [] \<longleftrightarrow> s = []"
  by (metis set_Compact_Sort set_empty)

lemma distinct_remdups_adj_sorted: "sorted (xs :: 'a :: linorder list) \<Longrightarrow> distinct (remdups_adj xs)"
  by (induction xs rule: remdups_adj.induct) (auto simp: order.antisym)

lemma sorted_distinct_Compact_Sort:
  "sorted (slices_Compact (slices_Sort s)) \<and> distinct (slices_Compact (slices_Sort s))"
  by (simp add: slices_Compact_def slices_Sort_def distinct_remdups_adj_sorted)

lemma slices_Index_bounds: "- 1 \<le> slices_Index s v \<and> slices_Index s v < int (length s)"
  by (induction s v rule: slices_Index.induct) (auto simp: Let_def)

lemma slices_Index_none [simp]: "slices_Index s v = - 1 \<longleftrightarrow> v \<notin> set s"
proof (induction s v rule: slices_Index.induct)
  case (2 x xs v)
  with slices_Index_bounds [of xs v] show ?case by (auto simp: Let_def)
qed simp

lemma slices_Index_mem [simp]: "- 1 < slices_Index s v \<longleftrightarrow> v \<in> set s"
  using slices_Index_bounds [of s v] slices_Index_none [of s v] by linarith

lemma Delete_Index_remove1:
  "v \<in> set s \<Longrightarrow>
     slices_Delete s (nat (slices_Index s v)) (nat (slices_Index s v) + 1) = Ret (remove1 v s)"
proof (induction s v rule: slices_Index.induct)
  case (2 x xs v)
  show ?case
  proof (cases "x = v")
    case False
    with 2 have v: "v \<in> set xs" by simp
    with slices_Index_bounds [of xs v] have i: "0 \<le> slices_Index xs v"
      using slices_Index_none [of xs v] by linarith
    with slices_Index_bounds [of xs v] 2(1) [OF False v] False v show ?thesis
      by (auto simp: slices_Delete_def Let_def nat_add_distrib split: if_splits)
  qed (simp add: slices_Delete_def)
qed simp

lemma range_of_mem: "range_of kvs m \<Longrightarrow> (k, v) \<in> set kvs \<longleftrightarrow> m k = Some v"
  by (auto simp: range_of_def)

lemma range_of_empty [simp]: "range_of kvs Map.empty \<longleftrightarrow> kvs = []"
  by (auto simp: range_of_def)

end
