(* ===== verification/Json_Text.thy ===== *)
theory Json_Text
  imports Go_Prelude
begin

text \<open>
  The output side of \<^verbatim>\<open>encoding/json\<close> as \<^verbatim>\<open>pkg/config/deployment.go\<close> uses it: quoting of a Go
  string (bytes that are not valid UTF-8 become the replacement character, and the characters that
  are unsafe in HTML are escaped) and \<^verbatim>\<open>json.MarshalIndent\<close> with an empty prefix and an indent of
  four blanks.
\<close>

section \<open>UTF-8\<close>

definition byte_in :: "nat \<Rightarrow> nat \<Rightarrow> char \<Rightarrow> bool" where
  "byte_in lo hi c \<longleftrightarrow> lo \<le> (of_char c :: nat) \<and> (of_char c :: nat) \<le> hi"

abbreviation cont :: "char \<Rightarrow> bool" where
  "cont \<equiv> byte_in 128 191"

text \<open>The first two bytes of a character of three and of four bytes.\<close>

definition lead3 :: "char \<Rightarrow> char \<Rightarrow> bool" where
  "lead3 a b \<longleftrightarrow> byte_in 224 224 a \<and> byte_in 160 191 b \<or> byte_in 225 236 a \<and> cont b \<or>
     byte_in 237 237 a \<and> byte_in 128 159 b \<or> byte_in 238 239 a \<and> cont b"

definition lead4 :: "char \<Rightarrow> char \<Rightarrow> bool" where
  "lead4 a b \<longleftrightarrow> byte_in 240 240 a \<and> byte_in 144 191 b \<or> byte_in 241 243 a \<and> cont b \<or>
     byte_in 244 244 a \<and> byte_in 128 143 b"

text \<open>The number of bytes of the character at the head of a string, 0 when it is not valid UTF-8.\<close>

definition utf8_len :: "string \<Rightarrow> nat" where
  "utf8_len s =
     (let a = s ! 0; b = s ! 1; c = s ! 2; d = s ! 3; n = length s in
      if n = 0 then 0
      else if byte_in 0 127 a then 1
      else if 2 \<le> n \<and> byte_in 194 223 a \<and> cont b then 2
      else if 3 \<le> n \<and> lead3 a b \<and> cont c then 3
      else if 4 \<le> n \<and> lead4 a b \<and> cont c \<and> cont d then 4
      else 0)"

fun utf8_valid :: "string \<Rightarrow> bool" where
  "utf8_valid [] = True"
| "utf8_valid (a # s) = (utf8_len (a # s) \<noteq> 0 \<and> utf8_valid (drop (utf8_len (a # s) - 1) s))"

section \<open>Quoting\<close>

definition hex_digit :: "nat \<Rightarrow> char" where
  "hex_digit d = ''0123456789abcdef'' ! d"

text \<open>Quotation mark and backslash.\<close>

abbreviation dq :: char where "dq \<equiv> CHR 0x22"
abbreviation bsl :: char where "bsl \<equiv> CHR 0x5C"
abbreviation nl :: char where "nl \<equiv> CHR 0x0A"

definition quote_ascii :: "char \<Rightarrow> string" where
  "quote_ascii b =
     (if b = bsl \<or> b = dq then [bsl, b]
      else if b = CHR 0x08 then [bsl, CHR ''b'']
      else if b = CHR 0x0C then [bsl, CHR ''f'']
      else if b = CHR 0x0A then [bsl, CHR ''n'']
      else if b = CHR 0x0D then [bsl, CHR ''r'']
      else if b = CHR 0x09 then [bsl, CHR ''t'']
      else if (of_char b :: nat) < 32 \<or> b \<in> {CHR ''<'', CHR ''>'', CHR ''&''}
        then [bsl, CHR ''u'', CHR ''0'', CHR ''0'', hex_digit (of_char b div 16), hex_digit (of_char b mod 16)]
      else [b])"

text \<open>The line separators U+2028 and U+2029 are escaped, every other character is copied.\<close>

definition quote_rune :: "string \<Rightarrow> string" where
  "quote_rune r =
     (if r = [CHR 0xE2, CHR 0x80, CHR 0xA8] then bsl # ''u2028''
      else if r = [CHR 0xE2, CHR 0x80, CHR 0xA9] then bsl # ''u2029''
      else r)"

fun quote_body :: "string \<Rightarrow> string" where
  "quote_body [] = []"
| "quote_body (b # s) =
     (if byte_in 0 127 b then quote_ascii b @ quote_body s
      else let n = utf8_len (b # s) in
        if n = 0 then bsl # ''ufffd'' @ quote_body s
        else quote_rune (take n (b # s)) @ quote_body (drop (n - 1) s))"

definition json_quote :: "string \<Rightarrow> string" where
  "json_quote s = dq # quote_body s @ [dq]"

section \<open>Indented output\<close>

datatype json = JNull | JBool bool | JNum string | JStr string | JArr "json list" | JObj "(string \<times> json) list"

definition json_margin :: "nat \<Rightarrow> string" where
  "json_margin d = replicate (4 * d) CHR '' ''"

fun join :: "string \<Rightarrow> string list \<Rightarrow> string" where
  "join sep [] = []"
| "join sep [x] = x"
| "join sep (x # y # xs) = x @ sep @ join sep (y # xs)"

fun json_indent :: "nat \<Rightarrow> json \<Rightarrow> string" where
  "json_indent d JNull = ''null''"
| "json_indent d (JBool b) = (if b then ''true'' else ''false'')"
| "json_indent d (JNum s) = s"
| "json_indent d (JStr s) = json_quote s"
| "json_indent d (JArr []) = ''[]''"
| "json_indent d (JArr (x # xs)) =
     ''['' @ [nl] @ join ('','' @ [nl]) (map (\<lambda>y. json_margin (Suc d) @ json_indent (Suc d) y) (x # xs))
       @ [nl] @ json_margin d @ '']''"
| "json_indent d (JObj []) = ''{}''"
| "json_indent d (JObj (x # xs)) =
     ''{'' @ [nl] @ join ('','' @ [nl])
       (map (\<lambda>p. json_margin (Suc d) @ json_quote (fst p) @ '': '' @ json_indent (Suc d) (snd p)) (x # xs))
       @ [nl] @ json_margin d @ ''}''"

end
