(* ===== verification/Deployment.thy ===== *)
theory Deployment
  imports Json_Text
begin

text \<open>
  Deployment configurations, \<^verbatim>\<open>pkg/config/deployment.go\<close>: the node states, the configuration of a
  node, the map from hostnames to node configurations and its JSON form. \<open>Images\<close> is a Go slice;
  \<open>None\<close> is the nil slice, which JSON writes as \<^verbatim>\<open>null\<close>.
\<close>

section \<open>Model\<close>

type_synonym NodeState = string

definition NodeStateStarting :: NodeState where [go_data]: "NodeStateStarting = ''starting''"
definition NodeStateRunning :: NodeState where [go_data]: "NodeStateRunning = ''running''"
definition NodeStateStopping :: NodeState where [go_data]: "NodeStateStopping = ''stopping''"
definition NodeStateStopped :: NodeState where [go_data]: "NodeStateStopped = ''stopped''"

record NodeConfig =
  State :: NodeState
  Images :: "string list option"

type_synonym DeploymentConfig = "string \<rightharpoonup> NodeConfig"

definition image_list :: "NodeConfig \<Rightarrow> string list" where
  "image_list n = (case Images n of None \<Rightarrow> [] | Some is \<Rightarrow> is)"

definition json_of_NodeConfig :: "NodeConfig \<Rightarrow> json" where
  "json_of_NodeConfig n =
     JObj [(''state'', JStr (State n)),
           (''container'', case Images n of None \<Rightarrow> JNull | Some is \<Rightarrow> JArr (map JStr is))]"

text \<open>
  \<^verbatim>\<open>json.MarshalIndent\<close> walks the map in its iteration order \<open>kvs\<close> and sorts the entries by key; \<open>None\<close> is the nil map.
  It fails for no value of this type.
\<close>

definition DeploymentConfig_JSON :: "(string \<times> NodeConfig) list option \<Rightarrow> go_error + string" where
  "DeploymentConfig_JSON d =
     Inr (json_indent 0
       (case d of
          None \<Rightarrow> JNull
        | Some kvs \<Rightarrow> JObj (map (\<lambda>(h, n). (h, json_of_NodeConfig n)) (sort_key fst kvs))))"

definition DeploymentConfigForStartingNode :: "string \<Rightarrow> DeploymentConfig" where
  "DeploymentConfigForStartingNode hostname =
     [hostname \<mapsto> \<lparr>State = NodeStateStarting, Images = Some []\<rparr>]"

definition DeploymentConfigForStoppedNode :: "string \<Rightarrow> DeploymentConfig" where
  "DeploymentConfigForStoppedNode hostname =
     [hostname \<mapsto> \<lparr>State = NodeStateStopped, Images = Some []\<rparr>]"

section \<open>Rules\<close>

lemma sorted_key_unique:
  assumes "distinct (map fst xs)" "distinct (map fst ys)" "set xs = set ys"
  shows "sort_key fst (xs :: ('k :: linorder \<times> 'v) list) = sort_key fst ys"
proof -
  have "mset xs = mset ys"
    using assms by (metis distinct_map set_eq_iff_mset_eq_distinct)
  moreover have "inj_on fst (set xs)"
    using assms(1) by (simp add: distinct_map)
  ultimately show ?thesis
    by (intro sort_key_inj_key_eq) simp_all
qed

end
