(* ===== verification/Registry.thy ===== *)
theory Registry
  imports Deployment
begin

text \<open>
  The node registry and the service registry of the control plane, \<^verbatim>\<open>pkg/registry\<close>. Each handler is a
  function from the state it reads, the request and (for a stream) the sequence of results that its
  \<^verbatim>\<open>Recv\<close> calls return, to the new state, the messages it writes and what it returns. A stream
  that has delivered only part of its messages leaves the handler waiting: the result of a node channel is then \<open>None\<close>, and
  \<open>Some None\<close> is the nil error. The handler of a service channel can also wait in a send; its result is a \<open>handler_state\<close>.
\<close>

section \<open>Node registry\<close>

record NodeAddr =
  Host :: string
  Port :: int

definition NodeAddr_Network :: "NodeAddr option \<Rightarrow> string" where
  "NodeAddr_Network a = ''tcp''"

definition NodeAddr_String :: "NodeAddr option \<Rightarrow> string" where
  "NodeAddr_String a =
     (case a of None \<Rightarrow> ''<nil>'' | Some n \<Rightarrow> net_JoinHostPort (Host n) (strconv_Itoa (Port n)))"

text \<open>\<^verbatim>\<open>strings.Split\<close> never returns an empty slice, so its last element exists.\<close>

definition GetNodeIdx :: "string \<Rightarrow> go_error + int" where
  "GetNodeIdx nodeID = (let s = strings_Split nodeID CHR ''-'' in strconv_Atoi (s ! (length s - 1)))"

record NodeRegistryServer =
  nodes :: "NodeAddr list"

record RegisterRequest =
  Address :: string
  ReqPort :: int32

record RegisterResponse =
  Id :: string

record DeploymentConfiguration =
  Json :: string
  StateType :: int32

definition STATE_TYPE_DESIRED :: int32 where [go_data]: "STATE_TYPE_DESIRED = 0"
definition STATE_TYPE_ACTUAL :: int32 where [go_data]: "STATE_TYPE_ACTUAL = 1"

definition errorMsgMissingHeader :: string where
  "errorMsgMissingHeader = ''CARISMA node ID header missing''"

definition errorInvalidNodeID :: string where
  "errorInvalidNodeID = ''presented node ID unknown''"

definition NewNodeRegistryServer :: NodeRegistryServer where
  "NewNodeRegistryServer = \<lparr>nodes = []\<rparr>"

text \<open>The second component is the address that the handler then sends to the xDS server.\<close>

definition Register :: "NodeRegistryServer \<Rightarrow> RegisterRequest \<Rightarrow> NodeRegistryServer \<times> NodeAddr \<times> RegisterResponse" where
  "Register s addr =
     (let s' = s\<lparr>nodes := nodes s @ [\<lparr>Host = Address addr, Port = ReqPort addr\<rparr>]\<rparr>;
          newNodeIdx = length (nodes s') - 1;
          newNode = nodes s' ! newNodeIdx
      in (s', newNode, \<lparr>Id = ''node-'' @ strconv_Itoa (int newNodeIdx)\<rparr>))"

definition ValidateNodeID :: "NodeRegistryServer \<Rightarrow> string \<Rightarrow> go_error + int" where
  "ValidateNodeID s nodeID =
     (case GetNodeIdx nodeID of
        Inl err \<Rightarrow> Inl err
      | Inr nodeIdx \<Rightarrow>
          if nodeIdx < 0 \<or> nodeIdx > int (length (nodes s)) - 1 then Inl (ErrorString errorInvalidNodeID)
          else Inr nodeIdx)"

text \<open>
  The metadata of a stream's context, if there is any, and in it the values of the header
  \<^verbatim>\<open>x-carisma-node-id\<close>.
\<close>

type_synonym stream_metadata = "string list option"

datatype 'm recv = RecvMsg 'm | RecvErr go_error

definition OpenChannel_check :: "NodeRegistryServer \<Rightarrow> stream_metadata \<Rightarrow> go_error + string" where
  "OpenChannel_check s md =
     (case md of
        None \<Rightarrow> Inl (StatusError FailedPrecondition (ErrorString errorMsgMissingHeader))
      | Some nodeID \<Rightarrow>
          if length nodeID < 1 then Inl (StatusError FailedPrecondition (ErrorString errorMsgMissingHeader))
          else (case ValidateNodeID s (nodeID ! 0) of
                  Inl err \<Rightarrow> Inl (StatusError FailedPrecondition err)
                | Inr nodeIdx \<Rightarrow> Inr (Host (nodes s ! nat nodeIdx))))"

text \<open>The range of a configuration that has one entry, for \<open>h\<close>.\<close>

definition only_entry :: "string \<Rightarrow> DeploymentConfig \<Rightarrow> (string \<times> NodeConfig) list" where
  "only_entry h d = [(h, the (d h))]"

text \<open>
  Both notifications are written when \<^verbatim>\<open>JSON()\<close> returns an error, and then with its empty result.
\<close>

definition OpenChannel_notify :: "go_error + string \<Rightarrow> DeploymentConfiguration list" where
  "OpenChannel_notify j =
     (case j of
        Inl err \<Rightarrow> [\<lparr>Json = [], StateType = STATE_TYPE_ACTUAL\<rparr>]
      | Inr _ \<Rightarrow> [])"

fun OpenChannel_loop :: "string \<Rightarrow> DeploymentConfiguration recv list \<Rightarrow>
    DeploymentConfiguration list \<times> go_error option option" where
  "OpenChannel_loop nodeHostname [] = ([], None)"
| "OpenChannel_loop nodeHostname (RecvErr err # evs) =
     (OpenChannel_notify (DeploymentConfig_JSON (Some (only_entry nodeHostname (DeploymentConfigForStoppedNode nodeHostname)))),
      Some (if err = EOF then None else Some err))"
| "OpenChannel_loop nodeHostname (RecvMsg msgDplmCfg # evs) =
     (let (ws, r) = OpenChannel_loop nodeHostname evs in (msgDplmCfg # ws, r))"

text \<open>The first component is what the handler writes to the broker, in order.\<close>

definition NodeRegistry_OpenChannel :: "NodeRegistryServer \<Rightarrow> stream_metadata \<Rightarrow>
    DeploymentConfiguration recv list \<Rightarrow> DeploymentConfiguration list \<times> go_error option option" where
  "NodeRegistry_OpenChannel s md evs =
     (case OpenChannel_check s md of
        Inl err \<Rightarrow> ([], Some (Some err))
      | Inr nodeHostname \<Rightarrow>
          (let ini = OpenChannel_notify
                 (DeploymentConfig_JSON (Some (only_entry nodeHostname (DeploymentConfigForStartingNode nodeHostname))));
               (ws, r) = OpenChannel_loop nodeHostname evs
           in (ini @ ws, r)))"

section \<open>Service registry\<close>

type_synonym ServiceConfigSnapshot = "string \<rightharpoonup> (string \<rightharpoonup> int32 list)"

text \<open>Reading \<^verbatim>\<open>services[nodeID][bundleID]\<close>: a missing map or key reads as the nil slice.\<close>

definition ports_of :: "ServiceConfigSnapshot \<Rightarrow> string \<Rightarrow> string \<Rightarrow> int32 list" where
  "ports_of sv nodeID bundleID =
     (case sv nodeID of
        None \<Rightarrow> []
      | Some m \<Rightarrow> (case m bundleID of None \<Rightarrow> [] | Some ps \<Rightarrow> ps))"

text \<open>Assigning to it: panics when the inner map is nil.\<close>

definition set_ports :: "ServiceConfigSnapshot \<Rightarrow> string \<Rightarrow> string \<Rightarrow> int32 list \<Rightarrow> ServiceConfigSnapshot outcome" where
  "set_ports sv nodeID bundleID ps =
     (case sv nodeID of None \<Rightarrow> Panic | Some m \<Rightarrow> Ret (sv(nodeID \<mapsto> m(bundleID \<mapsto> ps))))"

definition bind_outcome :: "'a outcome \<Rightarrow> ('a \<Rightarrow> 'b outcome) \<Rightarrow> 'b outcome" where
  "bind_outcome r f = (case r of Panic \<Rightarrow> Panic | Ret x \<Rightarrow> f x)"

text \<open>What \<^verbatim>\<open>registerService\<close> does while it holds the mutex.\<close>

definition registerService_locked :: "ServiceConfigSnapshot \<Rightarrow> string \<Rightarrow> string \<Rightarrow> int32 \<Rightarrow> ServiceConfigSnapshot outcome" where
  "registerService_locked sv nodeID bundleID port =
     (let sv = (case sv nodeID of None \<Rightarrow> sv(nodeID \<mapsto> Map.empty) | Some _ \<Rightarrow> sv) in
      bind_outcome (set_ports sv nodeID bundleID (ports_of sv nodeID bundleID @ [port])) (\<lambda>sv.
      bind_outcome (set_ports sv nodeID bundleID (slices_Sort (ports_of sv nodeID bundleID))) (\<lambda>sv.
      set_ports sv nodeID bundleID (slices_Compact (ports_of sv nodeID bundleID)))))"

text \<open>Deleting from a nil map does nothing.\<close>

definition delete_bundle :: "ServiceConfigSnapshot \<Rightarrow> string \<Rightarrow> string \<Rightarrow> ServiceConfigSnapshot" where
  "delete_bundle sv nodeID bundleID =
     (case sv nodeID of None \<Rightarrow> sv | Some m \<Rightarrow> sv(nodeID \<mapsto> m(bundleID := None)))"

definition unregisterService_locked :: "ServiceConfigSnapshot \<Rightarrow> string \<Rightarrow> string \<Rightarrow> int32 \<Rightarrow> ServiceConfigSnapshot outcome" where
  "unregisterService_locked sv nodeID bundleID port =
     (let idxPort = slices_Index (ports_of sv nodeID bundleID) port in
      bind_outcome
        (if idxPort > - 1
         then bind_outcome (slices_Delete (ports_of sv nodeID bundleID) (nat idxPort) (nat (idxPort + 1)))
                (set_ports sv nodeID bundleID)
         else Ret sv)
        (\<lambda>sv. Ret (if length (ports_of sv nodeID bundleID) = 0 then delete_bundle sv nodeID bundleID else sv)))"

text \<open>
  The update channel is unbuffered: a send completes only when the xDS server's goroutine takes the update. How
  many updates it still takes is part of the environment; when it takes none any more the sender waits for ever,
  with the mutex released and the services already changed. What is sent is a reference to the services; the
  model keeps what they were at that moment.
\<close>

record 'd update_channel =
  takes :: nat
  updatesSent :: "'d list"

definition send_update :: "'d update_channel \<Rightarrow> 'd \<Rightarrow> 'd update_channel option" where
  "send_update ch d = (if takes ch = 0 then None else Some \<lparr>takes = takes ch - 1, updatesSent = updatesSent ch @ [d]\<rparr>)"

definition registerService :: "ServiceConfigSnapshot update_channel \<Rightarrow> ServiceConfigSnapshot \<Rightarrow> string \<Rightarrow> string \<Rightarrow> int32 \<Rightarrow>
    (ServiceConfigSnapshot \<times> ServiceConfigSnapshot update_channel option) outcome" where
  "registerService ch sv nodeID bundleID port =
     bind_outcome (registerService_locked sv nodeID bundleID port) (\<lambda>sv. Ret (sv, send_update ch sv))"

definition unregisterService :: "ServiceConfigSnapshot update_channel \<Rightarrow> ServiceConfigSnapshot \<Rightarrow> string \<Rightarrow> string \<Rightarrow> int32 \<Rightarrow>
    (ServiceConfigSnapshot \<times> ServiceConfigSnapshot update_channel option) outcome" where
  "unregisterService ch sv nodeID bundleID port =
     bind_outcome (unregisterService_locked sv nodeID bundleID port) (\<lambda>sv. Ret (sv, send_update ch sv))"

record ServiceAnnouncement =
  BundleId :: string
  LocalPort :: int32
  RegistrationState :: int32

definition REGISTRATION_STATE_REGISTERED :: int32 where [go_data]: "REGISTRATION_STATE_REGISTERED = 0"
definition REGISTRATION_STATE_UNREGISTERED :: int32 where [go_data]: "REGISTRATION_STATE_UNREGISTERED = 1"

text \<open>
  The loop over the announcements, for any directory with these two operations; \<open>closeErr\<close> is what
  closing the stream returns. With the results of its \<^verbatim>\<open>Recv\<close> calls the handler has returned, waits for the next
  message, or waits in the send of an update that nobody takes; then it receives nothing more.
\<close>

datatype handler_state = HandlerReturned "go_error option" | AwaitsMessage | BlockedInSend

type_synonym 'd announce_op =
  "'d update_channel \<Rightarrow> 'd \<Rightarrow> string \<Rightarrow> string \<Rightarrow> int32 \<Rightarrow> ('d \<times> 'd update_channel option) outcome"

fun announce_loop :: "'d announce_op \<Rightarrow> 'd announce_op \<Rightarrow> go_error option \<Rightarrow> string \<Rightarrow> 'd update_channel \<Rightarrow> 'd \<Rightarrow>
    ServiceAnnouncement recv list \<Rightarrow> ('d \<times> 'd update_channel \<times> handler_state) outcome" where
  "announce_loop reg unreg closeErr nodeID ch d [] = Ret (d, ch, AwaitsMessage)"
| "announce_loop reg unreg closeErr nodeID ch d (RecvErr err # evs) =
     Ret (d, ch, HandlerReturned (if err = EOF then closeErr else Some err))"
| "announce_loop reg unreg closeErr nodeID ch d (RecvMsg a # evs) =
     bind_outcome
       (if RegistrationState a = REGISTRATION_STATE_REGISTERED
        then reg ch d nodeID (BundleId a) (LocalPort a) else unreg ch d nodeID (BundleId a) (LocalPort a))
       (\<lambda>(d', ch'). case ch' of
          None \<Rightarrow> Ret (d', ch, BlockedInSend)
        | Some ch' \<Rightarrow> announce_loop reg unreg closeErr nodeID ch' d' evs)"

text \<open>\<^verbatim>\<open>nodeID[0]\<close> is evaluated before the length of \<^verbatim>\<open>nodeID\<close> is checked.\<close>

definition ServiceRegistry_OpenChannel :: "NodeRegistryServer \<Rightarrow> go_error option \<Rightarrow> ServiceConfigSnapshot update_channel \<Rightarrow>
    ServiceConfigSnapshot \<Rightarrow> stream_metadata \<Rightarrow> ServiceAnnouncement recv list \<Rightarrow>
    (ServiceConfigSnapshot \<times> ServiceConfigSnapshot update_channel \<times> handler_state) outcome" where
  "ServiceRegistry_OpenChannel nr closeErr ch sv md evs =
     (case md of
        None \<Rightarrow> Ret (sv, ch, HandlerReturned (Some (StatusError FailedPrecondition (ErrorString errorMsgMissingHeader))))
      | Some nodeID \<Rightarrow>
          (case nodeID of
             [] \<Rightarrow> Panic
           | n # _ \<Rightarrow>
               (case ValidateNodeID nr n of
                  Inl err \<Rightarrow> Ret (sv, ch, HandlerReturned (Some (StatusError FailedPrecondition (ErrorString errorMsgMissingHeader))))
                | Inr _ \<Rightarrow> announce_loop registerService unregisterService closeErr n ch sv evs)))"

definition NewServiceRegistry :: ServiceConfigSnapshot where
  "NewServiceRegistry = Map.empty"

section \<open>Specifications\<close>

text \<open>What a service registry holds, as a set, and its invariant: every list of ports is ascending
  without repetition, and no list is empty.\<close>

definition entries :: "ServiceConfigSnapshot \<Rightarrow> (string \<times> string \<times> int32) set" where
  "entries sv = {(n, b, p). p \<in> set (ports_of sv n b)}"

definition services_wf :: "ServiceConfigSnapshot \<Rightarrow> bool" where
  "services_wf sv \<longleftrightarrow>
     (\<forall>n b. sorted (ports_of sv n b) \<and> distinct (ports_of sv n b)) \<and>
     (\<forall>n m b. sv n = Some m \<longrightarrow> m b \<noteq> Some [])"

text \<open>The announcements that arrive before the stream ends, and their effect on a set of entries.\<close>

fun messages :: "'m recv list \<Rightarrow> 'm list" where
  "messages (RecvMsg m # evs) = m # messages evs"
| "messages _ = []"

definition announce :: "string \<Rightarrow> (string \<times> string \<times> int32) set \<Rightarrow> ServiceAnnouncement \<Rightarrow> (string \<times> string \<times> int32) set" where
  "announce nodeID E a =
     (if RegistrationState a = REGISTRATION_STATE_REGISTERED
      then insert (nodeID, BundleId a, LocalPort a) E else E - {(nodeID, BundleId a, LocalPort a)})"

fun register_all :: "NodeRegistryServer \<Rightarrow> RegisterRequest list \<Rightarrow> NodeRegistryServer \<times> string list" where
  "register_all s [] = (s, [])"
| "register_all s (r # rs) =
     (let (s', _, resp) = Register s r; (s'', ids) = register_all s' rs in (s'', Id resp # ids))"

section \<open>Node identifiers\<close>

lemma GetNodeIdx_last: "GetNodeIdx nodeID = strconv_Atoi (last (strings_Split nodeID CHR ''-''))"
  by (simp add: GetNodeIdx_def last_conv_nth Let_def)

lemma GetNodeIdx_nonneg: "GetNodeIdx nodeID = Inr i \<Longrightarrow> 0 \<le> i"
  unfolding GetNodeIdx_last by (rule Atoi_nonneg [OF _ last_Split_no_sep])

lemma GetNodeIdx_append: "n < 2 ^ 63 \<Longrightarrow> GetNodeIdx (p @ CHR ''-'' # itoa_nat n) = Inr (int n)"
  by (simp add: GetNodeIdx_last last_Split_append Atoi_itoa_nat)

lemma ValidateNodeID_Inr:
  "ValidateNodeID s nodeID = Inr i \<longleftrightarrow> GetNodeIdx nodeID = Inr i \<and> i < int (length (nodes s))"
  by (auto simp: ValidateNodeID_def GetNodeIdx_nonneg split: sum.splits if_splits dest: GetNodeIdx_nonneg)

lemma Register_simp:
  "Register s r = (s\<lparr>nodes := nodes s @ [\<lparr>Host = Address r, Port = ReqPort r\<rparr>]\<rparr>, \<lparr>Host = Address r, Port = ReqPort r\<rparr>,
     \<lparr>Id = ''node-'' @ itoa_nat (length (nodes s))\<rparr>)"
  by (simp add: Register_def Let_def strconv_Itoa_def)

lemma register_all_simp:
  "register_all s rs =
     (s\<lparr>nodes := nodes s @ map (\<lambda>r. \<lparr>Host = Address r, Port = ReqPort r\<rparr>) rs\<rparr>,
      map (\<lambda>i. ''node-'' @ itoa_nat i) [length (nodes s)..<length (nodes s) + length rs])"
proof (induction rs arbitrary: s)
  case (Cons r rs)
  have "[length (nodes s)..<length (nodes s) + length (r # rs)] =
      length (nodes s) # [Suc (length (nodes s))..<length (nodes s) + length (r # rs)]"
    by (simp add: upt_conv_Cons del: upt_Suc)
  with Cons show ?case by (simp add: Register_simp del: upt_Suc)
qed simp

section \<open>The set a service registry stands for\<close>

lemma bind_outcome_simps [simp]: "bind_outcome (Ret x) f = f x" "bind_outcome Panic f = Panic"
  by (simp_all add: bind_outcome_def)

lemma messages_RecvMsg [simp]: "messages (map RecvMsg ms) = ms"
  by (induction ms) auto

lemma ports_of_upd [simp]:
  "ports_of (sv(n \<mapsto> m(b \<mapsto> ps))) n' b' =
     (if n' = n then if b' = b then ps else case m b' of None \<Rightarrow> [] | Some qs \<Rightarrow> qs else ports_of sv n' b')"
  by (simp add: ports_of_def)

lemma set_ports_Some: "sv n = Some m \<Longrightarrow> set_ports sv n b ps = Ret (sv(n \<mapsto> m(b \<mapsto> ps)))"
  by (simp add: set_ports_def)

lemma registerService_locked_simp:
  "registerService_locked sv n b p =
     Ret (sv(n \<mapsto> (case sv n of None \<Rightarrow> Map.empty | Some m \<Rightarrow> m)
       (b \<mapsto> slices_Compact (slices_Sort (ports_of sv n b @ [p])))))"
  by (cases "sv n") (auto simp: registerService_locked_def set_ports_def Let_def ports_of_def)

lemma unregisterService_locked_simp:
  "unregisterService_locked sv n b p =
     Ret (case sv n of
            None \<Rightarrow> sv
          | Some m \<Rightarrow> sv(n \<mapsto> m(b := (let ps = remove1 p (ports_of sv n b) in if ps = [] then None else Some ps))))"
proof (cases "p \<in> set (ports_of sv n b)")
  case True
  then obtain m where m: "sv n = Some m"
    by (cases "sv n") (auto simp: ports_of_def)
  from True slices_Index_mem [of "ports_of sv n b" p]
  have i: "0 \<le> slices_Index (ports_of sv n b) p" by linarith
  with True Delete_Index_remove1 [OF True] m show ?thesis
    by (simp add: unregisterService_locked_def Let_def nat_add_distrib set_ports_Some delete_bundle_def)
next
  case False
  then show ?thesis
    by (cases "sv n") (auto simp: unregisterService_locked_def Let_def delete_bundle_def remove1_idem ports_of_def
        fun_upd_idem split: option.splits)
qed

lemma ports_of_register:
  "registerService_locked sv n b p = Ret sv' \<Longrightarrow>
     ports_of sv' n' b' = (if n' = n \<and> b' = b then slices_Compact (slices_Sort (ports_of sv n b @ [p]))
       else ports_of sv n' b')"
  by (cases "sv n") (auto simp: registerService_locked_simp ports_of_def [of sv])

lemma ports_of_unregister:
  "unregisterService_locked sv n b p = Ret sv' \<Longrightarrow>
     ports_of sv' n' b' = (if n' = n \<and> b' = b then remove1 p (ports_of sv n b) else ports_of sv n' b')"
  by (cases "sv n") (auto simp: unregisterService_locked_simp ports_of_def Let_def)

lemma registerService_locked_wf:
  assumes "services_wf sv" and "registerService_locked sv n b p = Ret sv'"
  shows "services_wf sv'"
proof -
  have "\<forall>n m b. sv' n = Some m \<longrightarrow> m b \<noteq> Some []"
    using assms by (auto simp: services_wf_def registerService_locked_simp split: if_splits option.splits)
  moreover have "\<forall>n b. sorted (ports_of sv' n b) \<and> distinct (ports_of sv' n b)"
    using assms sorted_distinct_Compact_Sort by (simp add: services_wf_def ports_of_register)
  ultimately show ?thesis by (simp add: services_wf_def)
qed

lemma unregisterService_locked_wf:
  assumes "services_wf sv" and "unregisterService_locked sv n b p = Ret sv'"
  shows "services_wf sv'"
proof -
  have "\<forall>n m b. sv' n = Some m \<longrightarrow> m b \<noteq> Some []"
    using assms by (auto simp: services_wf_def unregisterService_locked_simp Let_def split: if_splits option.splits)
  moreover have "\<forall>n b. sorted (ports_of sv' n b) \<and> distinct (ports_of sv' n b)"
    using assms by (simp add: services_wf_def ports_of_unregister sorted_remove1)
  ultimately show ?thesis by (simp add: services_wf_def)
qed

lemma mem_entries [simp]: "(n, b, p) \<in> entries sv \<longleftrightarrow> p \<in> set (ports_of sv n b)"
  by (simp add: entries_def)

lemma registerService_locked_entries:
  "registerService_locked sv n b p = Ret sv' \<Longrightarrow> entries sv' = insert (n, b, p) (entries sv)"
  by (auto simp: ports_of_register split: if_splits)

lemma unregisterService_locked_entries:
  "services_wf sv \<Longrightarrow> unregisterService_locked sv n b p = Ret sv' \<Longrightarrow> entries sv' = entries sv - {(n, b, p)}"
  by (auto simp: ports_of_unregister services_wf_def split: if_splits)

text \<open>How a handler stands after \<open>k\<close> updates may be taken from it.\<close>

definition stands :: "go_error option \<Rightarrow> nat \<Rightarrow> ServiceAnnouncement recv list \<Rightarrow> handler_state" where
  "stands closeErr k evs =
     (if k < length (messages evs) then BlockedInSend
      else case drop (length (messages evs)) evs of
        RecvErr err # _ \<Rightarrow> HandlerReturned (if err = EOF then closeErr else Some err)
      | _ \<Rightarrow> AwaitsMessage)"

text \<open>The contents of a directory after each of the first \<open>k\<close> announcements.\<close>

fun contents_after :: "string \<Rightarrow> (string \<times> string \<times> int32) set \<Rightarrow> ServiceAnnouncement list \<Rightarrow> (string \<times> string \<times> int32) set list" where
  "contents_after nodeID E [] = []"
| "contents_after nodeID E (a # as) = announce nodeID E a # contents_after nodeID (announce nodeID E a) as"

text \<open>The contract of a directory of services, and what the announcement loop does with one.\<close>

locale service_directory =
  fixes register :: "'d announce_op"
    and unregister :: "'d announce_op"
    and contents :: "'d \<Rightarrow> (string \<times> string \<times> int32) set"
    and wf :: "'d \<Rightarrow> bool"
  assumes register_sends: "wf d \<Longrightarrow> \<exists>d'. register ch d n b p = Ret (d', send_update ch d') \<and> wf d' \<and> contents d' = insert (n, b, p) (contents d)"
    and unregister_sends: "wf d \<Longrightarrow> \<exists>d'. unregister ch d n b p = Ret (d', send_update ch d') \<and> wf d' \<and> contents d' = contents d - {(n, b, p)}"
begin

lemma announce_loop_correct:
  "wf d \<Longrightarrow> \<exists>d' ch'. announce_loop register unregister closeErr nodeID ch d evs = Ret (d', ch', stands closeErr (takes ch) evs) \<and>
     wf d' \<and> contents d' = foldl (announce nodeID) (contents d) (take (Suc (takes ch)) (messages evs)) \<and>
     map contents (updatesSent ch') = map contents (updatesSent ch) @ contents_after nodeID (contents d) (take (takes ch) (messages evs))"
proof (induction evs arbitrary: ch d)
  case (Cons ev evs)
  show ?case
  proof (cases ev)
    case (RecvMsg a)
    let ?op = "if RegistrationState a = REGISTRATION_STATE_REGISTERED
        then register ch d nodeID (BundleId a) (LocalPort a) else unregister ch d nodeID (BundleId a) (LocalPort a)"
    obtain d' where op: "?op = Ret (d', send_update ch d')" and d': "wf d'" "contents d' = announce nodeID (contents d) a"
      using register_sends [OF Cons.prems, of ch nodeID "BundleId a" "LocalPort a"]
        unregister_sends [OF Cons.prems, of ch nodeID "BundleId a" "LocalPort a"]
      by (cases "RegistrationState a = REGISTRATION_STATE_REGISTERED") (auto simp: announce_def)
    show ?thesis
    proof (cases "takes ch")
      case 0
      with op d' RecvMsg show ?thesis by (simp add: send_update_def stands_def)
    next
      case (Suc k)
      with op d' RecvMsg Cons.IH [OF d'(1), of "\<lparr>takes = k, updatesSent = updatesSent ch @ [d']\<rparr>"] show ?thesis
        by (auto simp: send_update_def stands_def)
    qed
  qed (use Cons.prems in \<open>auto simp: stands_def\<close>)
qed (simp add: stands_def)

end

interpretation srv: service_directory registerService unregisterService entries services_wf
proof
  fix d ch n b p
  assume wf: "services_wf d"
  obtain d1 d2 where "registerService_locked d n b p = Ret d1" "unregisterService_locked d n b p = Ret d2"
    by (simp add: registerService_locked_simp unregisterService_locked_simp)
  note ops = this
  show "\<exists>d'. registerService ch d n b p = Ret (d', send_update ch d') \<and> services_wf d' \<and> entries d' = insert (n, b, p) (entries d)"
    using registerService_locked_wf [OF wf ops(1)] registerService_locked_entries [OF ops(1)]
    by (simp add: registerService_def ops(1))
  show "\<exists>d'. unregisterService ch d n b p = Ret (d', send_update ch d') \<and> services_wf d' \<and> entries d' = entries d - {(n, b, p)}"
    using unregisterService_locked_wf [OF wf ops(2)] unregisterService_locked_entries [OF wf ops(2)]
    by (simp add: unregisterService_def ops(2))
qed

lemma foldl_announce_frame:
  "nodeID' \<noteq> nodeID \<Longrightarrow> (nodeID', b, p) \<in> foldl (announce nodeID) E as \<longleftrightarrow> (nodeID', b, p) \<in> E"
  by (induction as arbitrary: E) (auto simp: announce_def)

section \<open>Properties of the node registry\<close>

text \<open>
  C5. A node that registers gets an identifier under which the registry finds it: now and after any
  number of later registrations, validating the identifier gives the index at which its address is
  stored. (2 to the 63 bounds the indices a Go \<^verbatim>\<open>int\<close> can hold.)
\<close>

theorem registered_node_is_found:
  assumes "Register s r = (s', a, resp)" and "register_all s' rs = (s'', ids)" and "length (nodes s) < 2 ^ 63"
  shows "ValidateNodeID s'' (Id resp) = Inr (int (length (nodes s))) \<and>
    nodes s'' ! length (nodes s) = a \<and> a = \<lparr>Host = Address r, Port = ReqPort r\<rparr>"
  using assms GetNodeIdx_append [OF assms(3), of "''node''"]
  by (auto simp: Register_simp register_all_simp ValidateNodeID_Inr nth_append)

definition example_request :: RegisterRequest where
  "example_request = \<lparr>Address = ''hpc-1'', ReqPort = 8000\<rparr>"

theorem registered_node_is_found_witness:
  "ValidateNodeID (fst (register_all (fst (Register NewNodeRegistryServer example_request)) [example_request])) ''node-0'' = Inr 0"
proof -
  obtain s' a resp where r: "Register NewNodeRegistryServer example_request = (s', a, resp)"
    by (cases "Register NewNodeRegistryServer example_request") auto
  obtain s'' ids where rs: "register_all s' [example_request] = (s'', ids)"
    by (cases "register_all s' [example_request]") auto
  from r have "Id resp = ''node-0''"
    by (simp add: Register_simp NewNodeRegistryServer_def itoa_nat.simps digit_char_def)
      (metis RegisterResponse.select_convs(1))
  with registered_node_is_found [OF r rs] r rs show ?thesis
    by (simp add: NewNodeRegistryServer_def)
qed

text \<open>
  No two registrations are answered with the same identifier.
\<close>

lemma identifiers_are_unique: "distinct (snd (register_all s rs))"
  by (simp add: register_all_simp distinct_map inj_on_def)

text \<open>
  C36. Opening a channel never reads the list of nodes out of range: an identifier that validates gives
  an index within it, so the handler either refuses the stream or finds the node's host name.
\<close>

theorem validated_index_in_range:
  assumes "ValidateNodeID s nodeID = Inr i"
  shows "0 \<le> i \<and> nat i < length (nodes s) \<and>
    OpenChannel_check s (Some (nodeID # ids)) = Inr (Host (nodes s ! nat i))"
proof -
  from assms have "0 \<le> i" "i < int (length (nodes s))"
    by (auto simp: ValidateNodeID_Inr dest: GetNodeIdx_nonneg)
  with assms show ?thesis by (simp add: OpenChannel_check_def nat_less_iff)
qed

definition example_registry :: NodeRegistryServer where
  "example_registry = \<lparr>nodes = [\<lparr>Host = ''hpc-1'', Port = 8000\<rparr>]\<rparr>"

lemma example_registry_valid: "ValidateNodeID example_registry ''node-0'' = Inr 0"
  by (simp add: example_registry_def ValidateNodeID_def GetNodeIdx_def strconv_Atoi_def is_digit_def digit_val_def)

theorem validated_index_in_range_witness:
  "OpenChannel_check example_registry (Some [''node-0'']) = Inr ''hpc-1''"
  using validated_index_in_range [OF example_registry_valid, of "[]"] by (simp add: example_registry_def)

text \<open>
  Validation looks only at the text behind the last hyphen: whatever precedes it, the identifier
  of a registered index is accepted, although the registry has never issued it.
\<close>

lemma validation_ignores_prefix:
  assumes "i < length (nodes s)" and "length (nodes s) \<le> 2 ^ 63"
  shows "ValidateNodeID s (anything @ ''-'' @ itoa_nat i) = Inr (int i)"
  using assms GetNodeIdx_append [of i anything] by (simp add: ValidateNodeID_Inr)

lemma OpenChannel_notify_JSON [simp]: "OpenChannel_notify (DeploymentConfig_JSON kvs) = []"
  by (simp add: OpenChannel_notify_def DeploymentConfig_JSON_def)

lemma OpenChannel_loop_writes: "fst (OpenChannel_loop h evs) = messages evs"
  by (induction h evs rule: OpenChannel_loop.induct) (auto split: prod.splits)

text \<open>
  A node's channel passes on exactly the node's own messages, in order. The configurations that
  should announce a starting and a stopped node are never written: their guard asks for an error that
  encoding such a configuration cannot give.
\<close>

lemma node_channel_writes_only_client_messages:
  assumes "ValidateNodeID s nodeID = Inr i"
  shows "fst (NodeRegistry_OpenChannel s (Some (nodeID # ids)) evs) = messages evs"
  using assms
  by (simp add: NodeRegistry_OpenChannel_def OpenChannel_check_def case_prod_beta Let_def OpenChannel_loop_writes)

section \<open>Properties of the service registry\<close>

text \<open>
  C1. A stream of announcements, with the receiver of the update channel taking a given number of updates. The handler never panics in the
  loop. It applies the announcements in order, up to and including the first one whose update is not taken, and the registry then is well
  formed (ascending ports without repetition, no empty list) and holds exactly the services that these announcements, applied one after the
  other to a set, give. It sends one update for every announcement before that one, each with the services after it. It waits in
  its send when there are more announcements than updates taken; otherwise it returns what the end of the stream asks for, or waits for the
  next message. No other stream announces in the meantime.
\<close>

theorem service_channel_correct:
  assumes "services_wf sv" and "ValidateNodeID nr nodeID = Inr i"
  shows "\<exists>sv' ch'. ServiceRegistry_OpenChannel nr closeErr \<lparr>takes = k, updatesSent = []\<rparr> sv (Some (nodeID # ids)) evs =
      Ret (sv', ch', stands closeErr k evs) \<and> services_wf sv' \<and>
    entries sv' = foldl (announce nodeID) (entries sv) (take (Suc k) (messages evs)) \<and>
    map entries (updatesSent ch') = contents_after nodeID (entries sv) (take k (messages evs))"
  using srv.announce_loop_correct [OF assms(1), of closeErr nodeID "\<lparr>takes = k, updatesSent = []\<rparr>" evs] assms(2)
  by (simp add: ServiceRegistry_OpenChannel_def)

lemma NewServiceRegistry_wf [simp]: "services_wf NewServiceRegistry"
  by (simp add: services_wf_def NewServiceRegistry_def ports_of_def)

lemma entries_New [simp]: "entries NewServiceRegistry = {}"
  by (auto simp: NewServiceRegistry_def ports_of_def)

definition example_stream :: "ServiceAnnouncement recv list" where
  "example_stream = map (\<lambda>p. RecvMsg \<lparr>BundleId = ''app'', LocalPort = p, RegistrationState = REGISTRATION_STATE_REGISTERED\<rparr>) [8080, 8081, 8082]"

lemma example_stream_messages:
  "messages example_stream = map (\<lambda>p. \<lparr>BundleId = ''app'', LocalPort = p, RegistrationState = REGISTRATION_STATE_REGISTERED\<rparr>) [8080, 8081, 8082]"
  by (simp add: example_stream_def)

theorem service_channel_correct_witness:
  "\<exists>sv ch. ServiceRegistry_OpenChannel example_registry None \<lparr>takes = 1, updatesSent = []\<rparr> NewServiceRegistry (Some [''node-0'']) example_stream =
       Ret (sv, ch, BlockedInSend) \<and>
     entries sv = {(''node-0'', ''app'', 8081), (''node-0'', ''app'', 8080)} \<and> map entries (updatesSent ch) = [{(''node-0'', ''app'', 8080)}]"
proof -
  have 1: "stands None 1 example_stream = BlockedInSend"
    by (simp add: stands_def example_stream_messages)
  have 2: "foldl (announce ''node-0'') {} (take (Suc 1) (messages example_stream)) = {(''node-0'', ''app'', 8081), (''node-0'', ''app'', 8080)}"
    by (simp add: example_stream_messages announce_def)
  have 3: "contents_after ''node-0'' {} (take 1 (messages example_stream)) = [{(''node-0'', ''app'', 8080)}]"
    by (simp add: example_stream_messages announce_def)
  from service_channel_correct [OF NewServiceRegistry_wf example_registry_valid, of None 1 "[]" example_stream, unfolded entries_New 1 2 3]
  show ?thesis by (elim exE conjE) (intro exI conjI; assumption)
qed

text \<open>
  Nothing a node announces touches the services of another node.
\<close>

lemma service_channel_frame:
  assumes "services_wf sv" and "ServiceRegistry_OpenChannel nr closeErr ch sv (Some (nodeID # ids)) evs = Ret (sv', r)"
    and "other \<noteq> nodeID"
  shows "ports_of sv' other b = ports_of sv other b"
proof -
  have "services_wf sv' \<and> (\<forall>p. (other, b, p) \<in> entries sv' \<longleftrightarrow> (other, b, p) \<in> entries sv)"
  proof (cases "ValidateNodeID nr nodeID")
    case (Inr i)
    obtain d' ch' where "announce_loop registerService unregisterService closeErr nodeID ch sv evs = Ret (d', ch', stands closeErr (takes ch) evs)"
      "services_wf d'" "entries d' = foldl (announce nodeID) (entries sv) (take (Suc (takes ch)) (messages evs))"
      using srv.announce_loop_correct [OF assms(1), of closeErr nodeID ch evs] by blast
    with assms(2,3) Inr show ?thesis
      by (simp add: ServiceRegistry_OpenChannel_def foldl_announce_frame del: mem_entries)
  qed (use assms in \<open>simp add: ServiceRegistry_OpenChannel_def\<close>)
  with assms(1) show ?thesis
    by (metis mem_entries services_wf_def set_eqI sorted_distinct_set_unique)
qed

text \<open>
  Unregistering what was just registered gives back the services there were, when the port was not
  registered before.
\<close>

lemma unregister_undoes_register:
  assumes "services_wf sv" and "port \<notin> set (ports_of sv nodeID bundleID)"
  shows "\<exists>sv1 sv2. registerService_locked sv nodeID bundleID port = Ret sv1 \<and>
    unregisterService_locked sv1 nodeID bundleID port = Ret sv2 \<and> services_wf sv2 \<and> ports_of sv2 = ports_of sv"
proof -
  obtain sv1 where s1: "registerService_locked sv nodeID bundleID port = Ret sv1"
    by (simp add: registerService_locked_simp)
  then have w1: "services_wf sv1" by (rule registerService_locked_wf [OF assms(1)])
  then obtain sv2 where s2: "unregisterService_locked sv1 nodeID bundleID port = Ret sv2"
    by (simp add: unregisterService_locked_simp)
  then have w2: "services_wf sv2" by (rule unregisterService_locked_wf [OF w1])
  have "entries sv2 = entries sv"
    using assms(2) registerService_locked_entries [OF s1] unregisterService_locked_entries [OF w1 s2] by auto
  then have "set (ports_of sv2 n b) = set (ports_of sv n b)" for n b
    by (metis mem_entries set_eqI)
  then have "ports_of sv2 = ports_of sv"
    using w2 assms(1) by (intro ext) (auto simp: services_wf_def intro: sorted_distinct_set_unique)
  with s1 s2 w2 show ?thesis by blast
qed

text \<open>
  A stream without the node identifier header crashes the control plane: the first value of the
  header is read before anything checks that there is one. With no metadata at all the stream is refused.
\<close>

lemma missing_header_panics:
  "ServiceRegistry_OpenChannel nr closeErr ch sv (Some []) evs = Panic \<and>
   ServiceRegistry_OpenChannel nr closeErr ch sv None evs =
     Ret (sv, ch, HandlerReturned (Some (StatusError FailedPrecondition (ErrorString errorMsgMissingHeader))))"
  by (simp add: ServiceRegistry_OpenChannel_def)

end
