(* ===== verification/Envoy_Types.thy ===== *)
theory Envoy_Types
  imports Go_Prelude
begin

text \<open>
  The Envoy resources the sources build, as \<^verbatim>\<open>go-control-plane\<close> declares them. A message that only
  wraps another (\<^verbatim>\<open>LbEndpoint\<close>, \<^verbatim>\<open>Endpoint\<close>, \<^verbatim>\<open>Address\<close>, the one-of cases) is folded into the message it
  wraps; fields the sources leave unset are left out. The packed messages of \<^verbatim>\<open>anypb\<close> are values of
  a type \<open>'any\<close>, made by a function \<open>anypb_New\<close> from outside the repository.
\<close>

datatype SocketProtocol = TCP
datatype LookupFamily = V4_ONLY
datatype DiscoveryType = STRICT_DNS
datatype Policy = ROUND_ROBIN
datatype Direction = INBOUND | OUTBOUND
datatype Codec = AUTO
datatype ApiType = GRPC
datatype ApiVersion = ApiV2 | ApiV3 | ApiAuto

record SocketAddress =
  Protocol :: SocketProtocol
  SockAddress :: string
  PortValue :: int

record LocalityLbEndpoints =
  LbEndpoints :: "SocketAddress list"

record ClusterLoadAssignment =
  AssignedCluster :: string
  Endpoints :: "LocalityLbEndpoints list"

record 'any Cluster =
  ClusterName :: string
  DnsLookupFamily :: LookupFamily
  ConnectTimeout :: "int option"
  ClusterDiscoveryType :: DiscoveryType
  LbPolicy :: "Policy option"
  TypedExtensionProtocolOptions :: "(string \<times> 'any) list"
  LoadAssignment :: ClusterLoadAssignment

record Route =
  PathPrefix :: string
  GrpcMatch :: bool
  RouteCluster :: string

record VirtualHost =
  VHostName :: string
  Domains :: "string list"
  Routes :: "Route list"

record RouteConfiguration =
  RouteConfigurationName :: string
  VirtualHosts :: "VirtualHost list"

record ApiConfigSource =
  TransportApiVersion :: ApiVersion
  SourceApiType :: ApiType
  SetNodeOnFirstMessageOnly :: bool
  GrpcServices :: "string list"

text \<open>A configuration source is either the aggregated stream or an API source.\<close>

datatype SourceSpecifier = Ads | ApiSource ApiConfigSource

record ConfigSource =
  ResourceApiVersion :: ApiVersion
  ConfigSourceSpecifier :: SourceSpecifier

text \<open>A typed configuration may be the nil pointer, \<open>None\<close>.\<close>

record 'any HttpConnectionManager =
  CodecType :: Codec
  StatPrefix :: string
  RdsConfigSource :: ConfigSource
  RdsRouteConfigName :: string
  HttpFilters :: "(string \<times> 'any option) list"

record 'any Listener =
  ListenerName :: string
  ListenerAddress :: SocketAddress
  TrafficDirection :: Direction
  FilterChains :: "(string \<times> 'any) list list"

datatype 'any any_msg =
    AnyRouter
  | AnyHttpConnectionManager "'any HttpConnectionManager"
  | AnyHttp2ProtocolOptions

record 'any resources =
  ClusterType :: "'any Cluster list"
  RouteType :: "RouteConfiguration list"
  ListenerType :: "'any Listener list"

end
