(* ===== verification/Config.thy ===== *)
theory Config
  imports Envoy_Types
begin

text \<open>
  The configuration of \<^verbatim>\<open>pkg/config/config.go\<close> and \<^verbatim>\<open>envoy.go\<close>: its defaults, the correction for the
  central node and the bootstrap configuration it gives an Envoy proxy.
\<close>

section \<open>Model\<close>

record Config =
  EnableDebugMode :: bool
  EmulateContainerRuntime :: bool
  EnableCentralMode :: bool
  EnableDiscovery :: bool
  CentralNodeHostname :: string
  NodeHostname :: string
  StatusMgrPort :: int
  GRPCPort :: int
  UDPPort :: int
  UDPDelay :: int
  UDPTimeout :: int
  IngressPort :: int
  EgressPort :: int
  AdminPort :: int
  DefaultContainerRegistryDomain :: string

definition XDSClusterName :: string where [go_data]: "XDSClusterName = ''xds-cluster''"
definition envoyClusterName :: string where [go_data]: "envoyClusterName = ''envoy-cluster''"

text \<open>\<open>hostname\<close> is what \<^verbatim>\<open>os.Hostname\<close> returns, the empty string when it fails.\<close>

definition Default :: "string \<Rightarrow> Config" where
  "Default hostname =
     \<lparr>EnableDebugMode = False, EmulateContainerRuntime = False, EnableCentralMode = False,
      EnableDiscovery = False, CentralNodeHostname = ''carisma-central'', NodeHostname = hostname,
      StatusMgrPort = 8010, GRPCPort = 8016, UDPPort = 8829, UDPDelay = 5, UDPTimeout = 60,
      IngressPort = 8000, EgressPort = 9000, AdminPort = 9901,
      DefaultContainerRegistryDomain = ''docker.io''\<rparr>"

definition fix_config :: "Config \<Rightarrow> Config" where
  "fix_config c = (if EnableCentralMode c then c\<lparr>CentralNodeHostname := NodeHostname c\<rparr> else c)"

definition HTTP2ProtocolOptions :: "('any any_msg \<Rightarrow> go_error + 'any) \<Rightarrow> (string \<times> 'any) list outcome" where
  "HTTP2ProtocolOptions anypb_New =
     (case anypb_New AnyHttp2ProtocolOptions of
        Inl err \<Rightarrow> Panic
      | Inr a \<Rightarrow> Ret [(''envoy.extensions.upstreams.http.v3.HttpProtocolOptions'', a)])"

record 'any Bootstrap =
  NodeId :: string
  NodeCluster :: string
  LdsConfig :: ConfigSource
  CdsConfig :: ConfigSource
  AdsApiType :: ApiType
  AdsGrpcServices :: "string list"
  AdsTransportApiVersion :: ApiVersion
  StaticClusters :: "'any Cluster list"
  Admin :: "SocketAddress option"

text \<open>The bootstrap message; \<^verbatim>\<open>protojson.Format\<close>, which turns it into text, is not modelled.\<close>

definition EnvoyBootstrapConfigWithNodeID :: "('any any_msg \<Rightarrow> go_error + 'any) \<Rightarrow> Config \<Rightarrow> string \<Rightarrow> 'any Bootstrap outcome" where
  "EnvoyBootstrapConfigWithNodeID anypb_New c nodeID =
     (case HTTP2ProtocolOptions anypb_New of
        Panic \<Rightarrow> Panic
      | Ret opts \<Rightarrow> Ret
          \<lparr>NodeId = nodeID, NodeCluster = envoyClusterName,
           LdsConfig = \<lparr>ResourceApiVersion = ApiV3, ConfigSourceSpecifier = Ads\<rparr>,
           CdsConfig = \<lparr>ResourceApiVersion = ApiV3, ConfigSourceSpecifier = Ads\<rparr>,
           AdsApiType = GRPC, AdsGrpcServices = [XDSClusterName], AdsTransportApiVersion = ApiV3,
           StaticClusters =
             [\<lparr>ClusterName = XDSClusterName, DnsLookupFamily = V4_ONLY, ConnectTimeout = None,
               ClusterDiscoveryType = STRICT_DNS, LbPolicy = None, TypedExtensionProtocolOptions = opts,
               LoadAssignment =
                 \<lparr>AssignedCluster = XDSClusterName,
                  Endpoints =
                    [\<lparr>LbEndpoints =
                      [\<lparr>Protocol = TCP, SockAddress = CentralNodeHostname c, PortValue = to_uint32 (GRPCPort c)\<rparr>]\<rparr>]\<rparr>\<rparr>],
           Admin =
             (if EnableDebugMode c
              then Some \<lparr>Protocol = TCP, SockAddress = ''0.0.0.0'', PortValue = to_uint32 (AdminPort c)\<rparr>
              else None)\<rparr>)"

end
