(* ===== verification/Xds_Server.thy ===== *)
theory Xds_Server
  imports Registry Config
begin

text \<open>
  The xDS server of the control plane, \<^verbatim>\<open>cmd/carisma-control-plane/app/xds\<close>: the clusters, routes and
  listeners it generates for every node and the snapshots it puts into the cache. The loops over the
  map of services take the sequence they see (\<open>services_range\<close>). The cache, the snapshots and
  the packing of messages come from packages outside the repository and are the fields of \<open>xds_env\<close>.
\<close>

section \<open>Model\<close>

record ('any, 'snap, 'cache) xds_env =
  anypb_New :: "'any any_msg \<Rightarrow> go_error + 'any"
  wellknown_Router :: string
  DefaultAPIVersion :: ApiVersion
  NewSnapshot :: "string \<Rightarrow> 'any resources \<Rightarrow> go_error + 'snap"
  SetSnapshot :: "'cache \<Rightarrow> string \<Rightarrow> 'snap \<Rightarrow> go_error + 'cache"

record 'cache Server =
  snapshotVersion :: int
  cache :: 'cache
  xnodes :: "NodeAddr list"
  xservices :: ServiceConfigSnapshot

text \<open>What the nested loops over the services see: nodes, and for each its bundles with their ports.\<close>

type_synonym services_seq = "(string \<times> (string \<times> int32 list) list) list"

definition services_range :: "services_seq \<Rightarrow> ServiceConfigSnapshot \<Rightarrow> bool" where
  "services_range svr sv \<longleftrightarrow>
     range_of (map (\<lambda>(n, kvs). (n, map_of kvs)) svr) sv \<and> (\<forall>(n, kvs) \<in> set svr. distinct (map fst kvs))"

definition NewServer :: "'cache \<Rightarrow> 'cache Server" where
  "NewServer c = \<lparr>snapshotVersion = - 1, cache = c, xnodes = [], xservices = Map.empty\<rparr>"

definition generateNodeID :: "int \<Rightarrow> string" where
  "generateNodeID i = ''node-'' @ strconv_Itoa i"

definition generateClusterName :: "string \<Rightarrow> bool \<Rightarrow> string" where
  "generateClusterName bundleID isLocal =
     (if isLocal then ''local_'' @ bundleID @ ''_cluster'' else bundleID @ ''_cluster'')"

subsection \<open>Clusters\<close>

fun endpoint_loop :: "string \<Rightarrow> int32 list \<Rightarrow> LocalityLbEndpoints list" where
  "endpoint_loop nodeAddress [] = []"
| "endpoint_loop nodeAddress (port # ports) =
     \<lparr>LbEndpoints = [\<lparr>Protocol = TCP, SockAddress = nodeAddress, PortValue = to_uint32 port\<rparr>]\<rparr>
       # endpoint_loop nodeAddress ports"

definition makeEndpoints :: "'cache Server \<Rightarrow> string \<Rightarrow> string \<Rightarrow> int32 list \<Rightarrow> go_error + LocalityLbEndpoints list" where
  "makeEndpoints x nodeID bundleID ports =
     (case GetNodeIdx nodeID of
        Inl err \<Rightarrow> Inl err
      | Inr nodeIdx \<Rightarrow>
          if nodeIdx \<ge> int (length (xnodes x)) \<or> nodeIdx < int (length (xnodes x))
          then Inl (ErrorString ''invalid node ID'')
          else Inr (endpoint_loop (Host (xnodes x ! nat nodeIdx)) ports))"

text \<open>
  The two loops of \<^verbatim>\<open>makeClusters\<close>. Their state is the list
  of cluster names seen so far and the clusters made.
\<close>

fun bundle_loop :: "'cache Server \<Rightarrow>
    (string \<times> 'any) list outcome \<Rightarrow> string \<Rightarrow> int32 \<Rightarrow> string \<Rightarrow> (string \<times> int32 list) list \<Rightarrow>
    string list \<times> 'any Cluster list \<Rightarrow> (go_error + string list \<times> 'any Cluster list) outcome" where
  "bundle_loop x opts localNodeID ingressPort nodeID [] acc = Ret (Inr acc)"
| "bundle_loop x opts localNodeID ingressPort nodeID ((bundleID, instances) # kvs) (seen, clusters) =
     (let clusterID = (if nodeID = localNodeID then generateClusterName bundleID True else generateClusterName bundleID False);
          ports = (if nodeID = localNodeID then instances else [ingressPort])
      in if slices_Contains seen clusterID
         then bundle_loop x opts localNodeID ingressPort nodeID kvs (seen, clusters)
         else (case makeEndpoints x nodeID bundleID ports of
                 Inl err \<Rightarrow> Ret (Inl err)
               | Inr endpoints \<Rightarrow>
                   (case opts of
                      Panic \<Rightarrow> Panic
                    | Ret o2 \<Rightarrow>
                        bundle_loop x opts localNodeID ingressPort nodeID kvs
                          (seen @ [clusterID],
                           clusters @
                             [\<lparr>ClusterName = clusterID, DnsLookupFamily = V4_ONLY, ConnectTimeout = Some 1,
                               ClusterDiscoveryType = STRICT_DNS, LbPolicy = Some ROUND_ROBIN,
                               TypedExtensionProtocolOptions = o2,
                               LoadAssignment = \<lparr>AssignedCluster = clusterID, Endpoints = endpoints\<rparr>\<rparr>]))))"

fun node_loop :: "'cache Server \<Rightarrow>
    (string \<times> 'any) list outcome \<Rightarrow> string \<Rightarrow> int32 \<Rightarrow> services_seq \<Rightarrow>
    string list \<times> 'any Cluster list \<Rightarrow> (go_error + string list \<times> 'any Cluster list) outcome" where
  "node_loop x opts localNodeID ingressPort [] acc = Ret (Inr acc)"
| "node_loop x opts localNodeID ingressPort ((nodeID, serviceConfig) # svr) acc =
     (case bundle_loop x opts localNodeID ingressPort nodeID serviceConfig acc of
        Panic \<Rightarrow> Panic
      | Ret (Inl err) \<Rightarrow> Ret (Inl err)
      | Ret (Inr acc') \<Rightarrow> node_loop x opts localNodeID ingressPort svr acc')"

definition makeClusters :: "('any, 'snap, 'cache) xds_env \<Rightarrow> 'cache Server \<Rightarrow> services_seq \<Rightarrow> string \<Rightarrow> int32 \<Rightarrow>
    (go_error + 'any Cluster list) outcome" where
  "makeClusters env x svr localNodeID ingressPort =
     (case node_loop x (HTTP2ProtocolOptions (anypb_New env)) localNodeID ingressPort svr ([], []) of
        Panic \<Rightarrow> Panic
      | Ret (Inl err) \<Rightarrow> Ret (Inl err)
      | Ret (Inr (seen, clusters)) \<Rightarrow> Ret (Inr clusters))"

subsection \<open>Routes\<close>

definition gRPCRouteName :: string where [go_data]: "gRPCRouteName = ''grpc_route''"
definition localGRPCRouteName :: string where [go_data]: "localGRPCRouteName = ''local_grpc_route''"
definition gRPCVHostName :: string where [go_data]: "gRPCVHostName = ''grpc_vhost''"
definition localGRPCVHostName :: string where [go_data]: "localGRPCVHostName = ''local_grpc_vhost''"
definition ingressStatPrefix :: string where [go_data]: "ingressStatPrefix = ''ingress_http''"
definition egressStatPrefix :: string where [go_data]: "egressStatPrefix = ''egress_http''"
definition ingressListenerName :: string where [go_data]: "ingressListenerName = ''ingress_listener''"
definition egressListenerName :: string where [go_data]: "egressListenerName = ''egress_listener''"

fun bundle_routes :: "string \<Rightarrow> string \<Rightarrow> (string \<times> int32 list) list \<Rightarrow> Route list \<times> Route list \<Rightarrow> Route list \<times> Route list" where
  "bundle_routes localNodeID nodeID [] acc = acc"
| "bundle_routes localNodeID nodeID ((bundleID, instances) # kvs) (routes, localRoutes) =
     (let clusterID = generateClusterName bundleID (nodeID = localNodeID);
          r = \<lparr>PathPrefix = ''/'' @ bundleID, GrpcMatch = True, RouteCluster = clusterID\<rparr>
      in if nodeID \<noteq> localNodeID
         then bundle_routes localNodeID nodeID kvs (routes @ [r], localRoutes)
         else bundle_routes localNodeID nodeID kvs (routes, localRoutes @ [r]))"

fun node_routes :: "string \<Rightarrow> services_seq \<Rightarrow> Route list \<times> Route list \<Rightarrow> Route list \<times> Route list" where
  "node_routes localNodeID [] acc = acc"
| "node_routes localNodeID ((nodeID, serviceConfig) # svr) acc =
     node_routes localNodeID svr (bundle_routes localNodeID nodeID serviceConfig acc)"

definition makeRoutes :: "services_seq \<Rightarrow> string \<Rightarrow> RouteConfiguration list" where
  "makeRoutes svr localNodeID =
     (let (routes, localRoutes) = node_routes localNodeID svr ([], []) in
      [\<lparr>RouteConfigurationName = gRPCRouteName,
        VirtualHosts = [\<lparr>VHostName = gRPCVHostName, Domains = [''*''], Routes = routes @ localRoutes\<rparr>]\<rparr>,
       \<lparr>RouteConfigurationName = localGRPCRouteName,
        VirtualHosts = [\<lparr>VHostName = localGRPCVHostName, Domains = [''*''], Routes = localRoutes\<rparr>]\<rparr>])"

subsection \<open>Listeners\<close>

definition getConfigSource :: "ApiVersion \<Rightarrow> ConfigSource" where
  "getConfigSource defaultAPIVersion =
     \<lparr>ResourceApiVersion = defaultAPIVersion,
      ConfigSourceSpecifier =
        ApiSource \<lparr>TransportApiVersion = defaultAPIVersion, SourceApiType = GRPC, SetNodeOnFirstMessageOnly = True,
          GrpcServices = [XDSClusterName]\<rparr>\<rparr>"

text \<open>The error of packing the router configuration is dropped; the configuration is then nil.\<close>

definition makeHTTPConnectionManager :: "('any, 'snap, 'cache) xds_env \<Rightarrow> go_error + 'any list" where
  "makeHTTPConnectionManager env =
     (let routerConfig = (case anypb_New env AnyRouter of Inl _ \<Rightarrow> None | Inr a \<Rightarrow> Some a);
          ingress = \<lparr>CodecType = AUTO, StatPrefix = ingressStatPrefix,
            RdsConfigSource = getConfigSource (DefaultAPIVersion env), RdsRouteConfigName = localGRPCRouteName,
            HttpFilters = [(wellknown_Router env, routerConfig)]\<rparr>;
          egress = \<lparr>CodecType = AUTO, StatPrefix = egressStatPrefix,
            RdsConfigSource = getConfigSource (DefaultAPIVersion env), RdsRouteConfigName = gRPCRouteName,
            HttpFilters = [(wellknown_Router env, routerConfig)]\<rparr>
      in case anypb_New env (AnyHttpConnectionManager ingress) of
           Inl err \<Rightarrow> Inl err
         | Inr i \<Rightarrow>
             (case anypb_New env (AnyHttpConnectionManager egress) of
                Inl err \<Rightarrow> Inl err
              | Inr e \<Rightarrow> Inr [i, e]))"

definition makeHTTPListener :: "('any, 'snap, 'cache) xds_env \<Rightarrow> Config \<Rightarrow> go_error + 'any Listener list" where
  "makeHTTPListener env cfg =
     (case makeHTTPConnectionManager env of
        Inl err \<Rightarrow> Inl err
      | Inr httpConnectionManager \<Rightarrow> Inr
          [\<lparr>ListenerName = ingressListenerName,
            ListenerAddress = \<lparr>Protocol = TCP, SockAddress = ''0.0.0.0'', PortValue = to_uint32 (IngressPort cfg)\<rparr>,
            TrafficDirection = INBOUND,
            FilterChains = [[(wellknown_Router env, httpConnectionManager ! 0)]]\<rparr>,
           \<lparr>ListenerName = egressListenerName,
            ListenerAddress = \<lparr>Protocol = TCP, SockAddress = ''0.0.0.0'', PortValue = to_uint32 (EgressPort cfg)\<rparr>,
            TrafficDirection = OUTBOUND,
            FilterChains = [[(wellknown_Router env, httpConnectionManager ! 1)]]\<rparr>])"

subsection \<open>Snapshots\<close>

text \<open>
  The loop over the nodes. \<open>ordC i\<close> and \<open>ordR i\<close> are the sequences that the loops of
  \<^verbatim>\<open>makeClusters\<close> and \<^verbatim>\<open>makeRoutes\<close> see for node \<open>i\<close>. Logging at level panic panics.
\<close>

fun snapshot_loop :: "('any, 'snap, 'cache) xds_env \<Rightarrow> Config \<Rightarrow> (nat \<Rightarrow> services_seq) \<Rightarrow> (nat \<Rightarrow> services_seq) \<Rightarrow>
    nat list \<Rightarrow> 'cache Server \<Rightarrow> ('cache Server \<times> go_error option) outcome" where
  "snapshot_loop env cfg ordC ordR [] x = Ret (x, None)"
| "snapshot_loop env cfg ordC ordR (i # is) x =
     (let nodeID = generateNodeID (int i) in
      case makeHTTPListener env cfg of
        Inl err \<Rightarrow> Ret (x, Some err)
      | Inr httpListener \<Rightarrow>
          (case makeClusters env x (ordC i) nodeID (wrap32 (IngressPort cfg)) of
             Panic \<Rightarrow> Panic
           | Ret (Inl err) \<Rightarrow> Ret (x, Some err)
           | Ret (Inr clusters) \<Rightarrow>
               (case NewSnapshot env (strconv_Itoa (snapshotVersion x) @ ''.0'')
                    \<lparr>ClusterType = clusters, RouteType = makeRoutes (ordR i) nodeID, ListenerType = httpListener\<rparr> of
                  Inl err \<Rightarrow> Ret (x, Some err)
                | Inr snapshot \<Rightarrow>
                    (case SetSnapshot env (cache x) nodeID snapshot of
                       Inl err \<Rightarrow> Panic
                     | Inr c \<Rightarrow> snapshot_loop env cfg ordC ordR is (x\<lparr>cache := c\<rparr>)))))"

definition generateSnapshots :: "('any, 'snap, 'cache) xds_env \<Rightarrow> Config \<Rightarrow> (nat \<Rightarrow> services_seq) \<Rightarrow> (nat \<Rightarrow> services_seq) \<Rightarrow>
    'cache Server \<Rightarrow> ('cache Server \<times> go_error option) outcome" where
  "generateSnapshots env cfg ordC ordR x =
     (let x = x\<lparr>snapshotVersion := wrap64 (snapshotVersion x + 1)\<rparr> in
      snapshot_loop env cfg ordC ordR [0..<length (xnodes x)] x)"

section \<open>Specifications\<close>

text \<open>The pairs of a node and a bundle it offers, in a map of services and in a sequence of it.\<close>

definition bundles :: "ServiceConfigSnapshot \<Rightarrow> (string \<times> string) set" where
  "bundles sv = {(n, b). \<exists>m ps. sv n = Some m \<and> m b = Some ps}"

definition offers :: "services_seq \<Rightarrow> (string \<times> string) set" where
  "offers svr = {(n, b). \<exists>kvs ps. (n, kvs) \<in> set svr \<and> (b, ps) \<in> set kvs}"

definition route_to :: "string \<Rightarrow> string \<times> string \<Rightarrow> Route" where
  "route_to localNodeID nb =
     \<lparr>PathPrefix = ''/'' @ snd nb, GrpcMatch = True, RouteCluster = generateClusterName (snd nb) (fst nb = localNodeID)\<rparr>"

definition all_routes :: "RouteConfiguration \<Rightarrow> Route list" where
  "all_routes rc = concat (map Routes (VirtualHosts rc))"

text \<open>A cache that keeps, for every node, the snapshot that was set last.\<close>

definition keeps_last_snapshot :: "('any, 'snap, string \<rightharpoonup> 'snap) xds_env \<Rightarrow> bool" where
  "keeps_last_snapshot env \<longleftrightarrow> (\<forall>c n s. SetSnapshot env c n s = Inr (c(n \<mapsto> s)))"

section \<open>Sequences of a map of services\<close>

lemma services_range_mem:
  assumes "services_range svr sv"
  shows "(\<exists>kvs. (n, kvs) \<in> set svr \<and> (b, ps) \<in> set kvs) \<longleftrightarrow> (\<exists>m. sv n = Some m \<and> m b = Some ps)"
proof -
  let ?f = "\<lambda>(n, kvs). (n, map_of kvs :: string \<rightharpoonup> int32 list)"
  from assms have r: "range_of (map ?f svr) sv" and d: "\<And>n kvs. (n, kvs) \<in> set svr \<Longrightarrow> distinct (map fst kvs)"
    by (auto simp: services_range_def)
  have m: "sv n = Some m \<longleftrightarrow> (\<exists>kvs. (n, kvs) \<in> set svr \<and> m = map_of kvs)" for m
    using range_of_mem [OF r, of n m] by auto
  show ?thesis
    by (auto simp: m) (metis d map_of_eq_Some_iff)+
qed

lemma offers_bundles: "services_range svr sv \<Longrightarrow> offers svr = bundles sv"
  using services_range_mem [of svr sv] unfolding offers_def bundles_def by blast

lemma offers_simps [simp]:
  "offers [] = {}" "offers ((n, kvs) # svr) = {n} \<times> fst ` set kvs \<union> offers svr"
proof -
  have "b \<in> fst ` set kvs \<longleftrightarrow> (\<exists>ps. (b, ps) \<in> set kvs)" for b
    by force
  then have "(m, b) \<in> offers ((n, kvs) # svr) \<longleftrightarrow> (m, b) \<in> {n} \<times> fst ` set kvs \<union> offers svr" for m b
    unfolding offers_def by (cases "m = n") (simp_all add: conj_disj_distribR ex_disj_distrib)
  then show "offers ((n, kvs) # svr) = {n} \<times> fst ` set kvs \<union> offers svr"
    by (intro set_eqI) (simp only: split_paired_all)
qed (simp add: offers_def)

section \<open>Clusters\<close>

lemma generateClusterName_eq:
  "generateClusterName b l = generateClusterName b' l' \<longleftrightarrow>
     (if l = l' then b = b' else if l then b' = ''local_'' @ b else b = ''local_'' @ b')"
proof -
  have name: "generateClusterName b l = (if l then ''local_'' @ b else b) @ ''_cluster''" for b l
    by (simp add: generateClusterName_def)
  show ?thesis
    unfolding name append_same_eq by (cases l; cases l') auto
qed

text \<open>What an attempt to make endpoints on a node can fail with.\<close>

definition endpoint_error :: "string \<Rightarrow> go_error \<Rightarrow> bool" where
  "endpoint_error nodeID err \<longleftrightarrow>
     (case GetNodeIdx nodeID of Inl e \<Rightarrow> err = e | Inr _ \<Rightarrow> err = ErrorString ''invalid node ID'')"

lemma makeEndpoints_Inl: "\<exists>err. makeEndpoints x nodeID bundleID ports = Inl err \<and> endpoint_error nodeID err"
  by (auto simp: makeEndpoints_def endpoint_error_def split: sum.splits)

lemma bundle_loop_fails: "\<exists>err. bundle_loop x opts l ip n ((b, ps) # kvs) ([], []) = Ret (Inl err) \<and> endpoint_error n err"
  using makeEndpoints_Inl [of x n b "if n = l then ps else [ip]"] by (auto simp: Let_def slices_Contains_def)

lemma node_loop_fails:
  "if offers svr = {} then node_loop x opts l ip svr ([], []) = Ret (Inr ([], []))
   else \<exists>err. node_loop x opts l ip svr ([], []) = Ret (Inl err) \<and> (\<exists>(n, b) \<in> offers svr. endpoint_error n err)"
proof (induction svr)
  case (Cons p svr)
  obtain n kvs where p: "p = (n, kvs)" by (cases p)
  show ?case
  proof (cases kvs)
    case (Cons bp rest)
    obtain b ps where "bp = (b, ps)" by (cases bp)
    with p Cons bundle_loop_fails [of x opts l ip n b ps rest] show ?thesis
      by (auto simp del: bundle_loop.simps)
  qed (use p Cons in auto)
qed simp

lemma makeClusters_result:
  "if offers svr = {} then makeClusters env x svr l ip = Ret (Inr [])
   else \<exists>err. makeClusters env x svr l ip = Ret (Inl err) \<and> (\<exists>(n, b) \<in> offers svr. endpoint_error n err)"
  using node_loop_fails [of svr x "HTTP2ProtocolOptions (anypb_New env)" l ip]
  by (auto simp: makeClusters_def split: if_splits)

section \<open>Routes\<close>

lemma bundle_routes_set:
  "bundle_routes l n kvs (rs, ls) = (rs', ls') \<Longrightarrow>
     (if n = l then set ls' = set ls \<union> route_to l ` ({n} \<times> fst ` set kvs) \<and> rs' = rs
      else set rs' = set rs \<union> route_to l ` ({n} \<times> fst ` set kvs) \<and> ls' = ls)"
  by (induction l n kvs "(rs, ls)" arbitrary: rs ls rule: bundle_routes.induct)
    (auto simp: Let_def route_to_def split: if_splits)

lemma node_routes_set:
  "node_routes l svr (rs, ls) = (rs', ls') \<Longrightarrow>
     set ls' = set ls \<union> route_to l ` {(n, b) \<in> offers svr. n = l} \<and>
     set rs' = set rs \<union> route_to l ` {(n, b) \<in> offers svr. n \<noteq> l}"
proof (induction svr arbitrary: rs ls)
  case (Cons p svr)
  obtain n kvs where p: "p = (n, kvs)" by (cases p)
  obtain rs1 ls1 where b: "bundle_routes l n kvs (rs, ls) = (rs1, ls1)"
    by (cases "bundle_routes l n kvs (rs, ls)")
  with Cons.prems p have "node_routes l svr (rs1, ls1) = (rs', ls')" by simp
  from Cons.IH [OF this] bundle_routes_set [OF b] p show ?case
    by (cases "n = l") (auto simp: image_iff)
qed simp

lemma makeRoutes_set:
  assumes "services_range svr sv"
  shows "map (\<lambda>rc. (RouteConfigurationName rc, set (all_routes rc))) (makeRoutes svr l) =
    [(gRPCRouteName, route_to l ` bundles sv), (localGRPCRouteName, route_to l ` {(n, b) \<in> bundles sv. n = l})]"
proof -
  obtain rs ls where r: "node_routes l svr ([], []) = (rs, ls)"
    by (cases "node_routes l svr ([], [])")
  from node_routes_set [OF r] show ?thesis
    by (auto simp: makeRoutes_def r all_routes_def offers_bundles [OF assms])
qed

section \<open>Snapshots\<close>

lemma node_routes_none: "offers svr = {} \<Longrightarrow> node_routes l svr acc = acc"
  by (induction svr) auto

lemma makeRoutes_none: "offers svr = {} \<Longrightarrow> makeRoutes svr l = makeRoutes [] l"
  by (simp add: makeRoutes_def node_routes_none)

lemma generateNodeID_eq [simp]: "generateNodeID i = generateNodeID j \<longleftrightarrow> i = j"
  by (simp add: generateNodeID_def)

lemma snapshot_loop_fails:
  assumes "offers (ordC i) \<noteq> {}"
  shows "\<exists>err. snapshot_loop env cfg ordC ordR (i # is) x = Ret (x, Some err)"
proof -
  obtain err where "makeClusters env x (ordC i) (generateNodeID (int i)) (wrap32 (IngressPort cfg)) = Ret (Inl err)"
    using makeClusters_result [of "ordC i" env x] assms by (metis (no_types, lifting))
  then show ?thesis by (simp add: Let_def split: sum.split)
qed

lemma snapshot_loop_sets:
  assumes "makeHTTPListener env cfg = Inr ls" and "\<And>i. offers (ordC i) = {}" and "\<And>i. offers (ordR i) = {}"
    and "\<And>r. \<exists>snap. NewSnapshot env (strconv_Itoa v @ ''.0'') r = Inr snap" and "keeps_last_snapshot env"
  shows "distinct is \<Longrightarrow> snapshotVersion x = v \<Longrightarrow>
    \<exists>c. snapshot_loop env cfg ordC ordR is x = Ret (x\<lparr>cache := c\<rparr>, None) \<and>
      (\<forall>n. n \<notin> (\<lambda>i. generateNodeID (int i)) ` set is \<longrightarrow> c n = cache x n) \<and>
      (\<forall>i \<in> set is. \<exists>snap. c (generateNodeID (int i)) = Some snap \<and>
         NewSnapshot env (strconv_Itoa v @ ''.0'')
           \<lparr>ClusterType = [], RouteType = makeRoutes [] (generateNodeID (int i)), ListenerType = ls\<rparr> = Inr snap)"
proof (induction "is" arbitrary: x)
  case (Cons i "is")
  let ?id = "generateNodeID (int i)"
  obtain snap where snap: "NewSnapshot env (strconv_Itoa v @ ''.0'')
      \<lparr>ClusterType = [], RouteType = makeRoutes [] ?id, ListenerType = ls\<rparr> = Inr snap"
    using assms(4) by blast
  have "makeClusters env x (ordC i) ?id (wrap32 (IngressPort cfg)) = Ret (Inr [])"
    using makeClusters_result [of "ordC i" env x] assms(2) by simp
  with snap Cons.prems(2) assms(1,5) makeRoutes_none [OF assms(3)]
  have "snapshot_loop env cfg ordC ordR (i # is) x =
      snapshot_loop env cfg ordC ordR is (x\<lparr>cache := (cache x)(?id \<mapsto> snap)\<rparr>)"
    by (simp add: keeps_last_snapshot_def)
  moreover obtain c where c: "snapshot_loop env cfg ordC ordR is (x\<lparr>cache := (cache x)(?id \<mapsto> snap)\<rparr>) = Ret (x\<lparr>cache := c\<rparr>, None)"
      "\<forall>n. n \<notin> (\<lambda>i. generateNodeID (int i)) ` set is \<longrightarrow> c n = ((cache x)(?id \<mapsto> snap)) n"
      "\<forall>i \<in> set is. \<exists>snap. c (generateNodeID (int i)) = Some snap \<and>
         NewSnapshot env (strconv_Itoa v @ ''.0'')
           \<lparr>ClusterType = [], RouteType = makeRoutes [] (generateNodeID (int i)), ListenerType = ls\<rparr> = Inr snap"
    using Cons.IH [of "x\<lparr>cache := (cache x)(?id \<mapsto> snap)\<rparr>"] Cons.prems by auto
  moreover have "?id \<notin> (\<lambda>i. generateNodeID (int i)) ` set is"
    using Cons.prems(1) by auto
  with c(2) have "c ?id = Some snap" by simp
  ultimately show ?case using snap by (intro exI [of _ c]) simp
next
  case Nil
  then show ?case by (intro exI [of _ "cache x"]) simp
qed

lemma generateSnapshots_fails:
  assumes "services_range (ordC 0) (xservices x)" and "bundles (xservices x) \<noteq> {}" and "xnodes x \<noteq> []"
  shows "\<exists>err. generateSnapshots env cfg ordC ordR x =
    Ret (x\<lparr>snapshotVersion := wrap64 (snapshotVersion x + 1)\<rparr>, Some err)"
proof -
  have "offers (ordC 0) \<noteq> {}"
    using assms(2) by (simp add: offers_bundles [OF assms(1)])
  moreover have "[0..<length (xnodes x)] = 0 # [1..<length (xnodes x)]"
    using assms(3) by (simp add: upt_conv_Cons)
  ultimately show ?thesis
    by (simp add: generateSnapshots_def snapshot_loop_fails del: snapshot_loop.simps)
qed

lemma generateSnapshots_ok:
  assumes "\<And>i. offers (ordC i) = {}" and "\<And>i. offers (ordR i) = {}" and "makeHTTPListener env cfg = Inr ls"
    and "keeps_last_snapshot env" and "v = wrap64 (snapshotVersion x + 1)"
    and "\<And>r. \<exists>snap. NewSnapshot env (strconv_Itoa v @ ''.0'') r = Inr snap"
  shows "\<exists>c. generateSnapshots env cfg ordC ordR x = Ret (x\<lparr>snapshotVersion := v, cache := c\<rparr>, None) \<and>
    (\<forall>i < length (xnodes x). \<exists>snap. c (generateNodeID (int i)) = Some snap \<and>
       NewSnapshot env (strconv_Itoa v @ ''.0'')
         \<lparr>ClusterType = [], RouteType = makeRoutes [] (generateNodeID (int i)), ListenerType = ls\<rparr> = Inr snap)"
  using snapshot_loop_sets [of env cfg ls ordC ordR v "[0..<length (xnodes x)]" "x\<lparr>snapshotVersion := v\<rparr>",
      OF assms(3,1,2,6,4)]
  by (auto simp: generateSnapshots_def Let_def assms(5) [symmetric])

section \<open>Properties\<close>

text \<open>
  No call makes an endpoint: the range check of the node's index is satisfied by every index, so
  the identifier of a registered node is refused like any other.
\<close>

lemma makeEndpoints_always_fails:
  "makeEndpoints x nodeID bundleID ports =
     (case GetNodeIdx nodeID of Inl err \<Rightarrow> Inl err | Inr _ \<Rightarrow> Inl (ErrorString ''invalid node ID''))"
  by (auto simp: makeEndpoints_def split: sum.splits)

definition example_env :: "(unit, string \<times> unit resources, string \<rightharpoonup> string \<times> unit resources) xds_env" where
  "example_env =
     \<lparr>anypb_New = (\<lambda>_. Inr ()), wellknown_Router = ''envoy.filters.http.router'', DefaultAPIVersion = ApiV3,
      NewSnapshot = (\<lambda>v r. Inr (v, r)), SetSnapshot = (\<lambda>c n s. Inr (c(n \<mapsto> s)))\<rparr>"

definition example_services :: ServiceConfigSnapshot where
  "example_services = [''node-0'' \<mapsto> [''app'' \<mapsto> [8080]], ''node-1'' \<mapsto> [''app'' \<mapsto> [8081]]]"

definition example_seq :: services_seq where
  "example_seq = [(''node-1'', [(''app'', [8081])]), (''node-0'', [(''app'', [8080])])]"

lemma example_range: "services_range example_seq example_services"
  by (auto simp: services_range_def range_of_def example_seq_def example_services_def)

lemma example_bundles: "bundles example_services = {(''node-0'', ''app''), (''node-1'', ''app'')}"
  by (auto simp: bundles_def example_services_def split: if_splits)

text \<open>
  C23. Clusters are generated only for a mesh without services, and then there are none: as soon as one node offers a
  bundle, generating the clusters fails, in every order of the map and for every server. The error is that of a node
  that offers one: its identifier has no index, or the index, in range or not, is called invalid.
\<close>

theorem makeClusters_only_without_services:
  assumes "services_range svr sv"
  shows "if bundles sv = {} then makeClusters env x svr localNodeID ingressPort = Ret (Inr [])
    else \<exists>err. makeClusters env x svr localNodeID ingressPort = Ret (Inl err) \<and> (\<exists>(n, b) \<in> bundles sv. endpoint_error n err)"
  using makeClusters_result [of svr env x localNodeID ingressPort] unfolding offers_bundles [OF assms] .

theorem makeClusters_only_without_services_witness:
  "makeClusters example_env \<lparr>snapshotVersion = 0, cache = Map.empty, xnodes = nodes example_registry, xservices = example_services\<rparr>
     example_seq ''node-0'' 8000 = Ret (Inl (ErrorString ''invalid node ID''))"
proof -
  have "endpoint_error n err \<longleftrightarrow> err = ErrorString ''invalid node ID''" if "(n, b) \<in> bundles example_services" for n b err
    using that by (auto simp: example_bundles endpoint_error_def GetNodeIdx_def strconv_Atoi_def is_digit_def digit_val_def)
  with makeClusters_only_without_services [OF example_range, of example_env
      "\<lparr>snapshotVersion = 0, cache = Map.empty, xnodes = nodes example_registry, xservices = example_services\<rparr>" "''node-0''" 8000]
  show ?thesis by (auto simp: example_bundles split: if_splits)
qed

text \<open>
  C22. The egress routes of a node cover every bundle in the mesh, its ingress routes exactly the bundles
  the node offers itself, and each leads to the local or the remote cluster as the bundle is local or not.
\<close>

theorem makeRoutes_complete:
  assumes "services_range svr sv"
  shows "\<exists>egress ingress. makeRoutes svr localNodeID = [egress, ingress] \<and>
    RouteConfigurationName egress = gRPCRouteName \<and> RouteConfigurationName ingress = localGRPCRouteName \<and>
    set (all_routes egress) = route_to localNodeID ` bundles sv \<and>
    set (all_routes ingress) = route_to localNodeID ` {(n, b) \<in> bundles sv. n = localNodeID}"
  using makeRoutes_set [OF assms, of localNodeID] by (auto simp: makeRoutes_def split: prod.splits)

theorem makeRoutes_complete_witness:
  "\<exists>egress ingress. makeRoutes example_seq ''node-1'' = [egress, ingress] \<and>
     set (all_routes ingress) = {route_to ''node-1'' (''node-1'', ''app'')}"
  using makeRoutes_complete [OF example_range, of "''node-1''"] by (auto simp: example_bundles)

text \<open>
  Cluster names tell bundles of one kind apart, but a remote bundle whose identifier starts with
  \<^verbatim>\<open>local_\<close> has the cluster name of the local bundle with the rest of that identifier.
\<close>

lemma cluster_name_clash:
  "(generateClusterName b l = generateClusterName b' l \<longleftrightarrow> b = b') \<and>
   (generateClusterName b True = generateClusterName b' False \<longleftrightarrow> b' = ''local_'' @ b)"
  by (simp add: generateClusterName_eq)

text \<open>
  With a node and a service registered, generating snapshots fails, in every order of the maps, and
  leaves the cache as it was; only the version number goes up.
\<close>

lemma generateSnapshots_fails_with_services:
  assumes "\<And>i. services_range (ordC i) (xservices x)" and "bundles (xservices x) \<noteq> {}" and "xnodes x \<noteq> []"
  shows "\<exists>err. generateSnapshots env cfg ordC ordR x =
    Ret (x\<lparr>snapshotVersion := wrap64 (snapshotVersion x + 1)\<rparr>, Some err)"
  using assms by (rule generateSnapshots_fails)

text \<open>
  Without services, and with packing and snapshots that work, every registered node gets a snapshot
  of the new version with its routes and listeners and no clusters.
\<close>

lemma generateSnapshots_without_services:
  assumes "\<And>i. services_range (ordC i) (xservices x)" and "\<And>i. services_range (ordR i) (xservices x)"
    and "bundles (xservices x) = {}" and "makeHTTPListener env cfg = Inr ls" and "keeps_last_snapshot env"
    and "v = wrap64 (snapshotVersion x + 1)" and "\<And>r. \<exists>snap. NewSnapshot env (strconv_Itoa v @ ''.0'') r = Inr snap"
  shows "\<exists>c. generateSnapshots env cfg ordC ordR x = Ret (x\<lparr>snapshotVersion := v, cache := c\<rparr>, None) \<and>
    (\<forall>i < length (xnodes x). \<exists>snap. c (generateNodeID (int i)) = Some snap \<and>
       NewSnapshot env (strconv_Itoa v @ ''.0'')
         \<lparr>ClusterType = [], RouteType = makeRoutes [] (generateNodeID (int i)), ListenerType = ls\<rparr> = Inr snap)"
proof -
  have "offers (ordC i) = {}" "offers (ordR i) = {}" for i
    using offers_bundles [OF assms(1)] offers_bundles [OF assms(2)] assms(3) by auto
  from generateSnapshots_ok [OF this assms(4-7)] show ?thesis .
qed

end
