(* ===== verification/Control_Plane.thy ===== *)
theory Control_Plane
  imports Xds_Server
begin

text \<open>
  The running control plane (\<^verbatim>\<open>cmd/carisma-control-plane/app/app.go\<close> and \<^verbatim>\<open>RegisterServer\<close> of
  \<^verbatim>\<open>xds/server.go\<close>): the handlers of the two registries and the two goroutines of the xDS server, which
  they feed over unbuffered channels. One mutex protects nodes and services, so a critical section is one
  step; a handler that waits in its send is pending, and a goroutine holds what it has received until it
  gets the mutex. The services are one map: the registry sends a reference to it, so from the first update
  on (\<open>shared\<close>) the xDS server reads the map the registry writes.
\<close>

section \<open>Model\<close>

datatype 'a goroutine = Waiting | Holding 'a | Stopped

record 'cache control_plane =
  registry :: NodeRegistryServer
  services :: ServiceConfigSnapshot
  xds :: "'cache Server"
  shared :: bool
  pendingNodes :: "NodeAddr list"
  pendingUpdates :: nat
  nodesLoop :: "NodeAddr goroutine"
  servicesLoop :: "unit goroutine"
  crashed :: bool

definition start_control_plane :: "'cache \<Rightarrow> 'cache control_plane" where
  "start_control_plane c =
     \<lparr>registry = NewNodeRegistryServer, services = NewServiceRegistry, xds = NewServer c, shared = False,
      pendingNodes = [], pendingUpdates = 0, nodesLoop = Waiting, servicesLoop = Waiting, crashed = False\<rparr>"

text \<open>The xDS server with the services it reads at this moment.\<close>

definition xds_view :: "'cache control_plane \<Rightarrow> 'cache Server" where
  "xds_view s = (xds s)\<lparr>xservices := (if shared s then services s else Map.empty)\<rparr>"

definition cp_register :: "'cache control_plane \<Rightarrow> RegisterRequest \<Rightarrow> 'cache control_plane" where
  "cp_register s r =
     (let (reg, newNode, _) = Register (registry s) r in
      s\<lparr>registry := reg, pendingNodes := pendingNodes s @ [newNode]\<rparr>)"

definition cp_recv_node :: "'cache control_plane \<Rightarrow> NodeAddr \<Rightarrow> 'cache control_plane option" where
  "cp_recv_node s a =
     (if nodesLoop s = Waiting \<and> a \<in> set (pendingNodes s)
      then Some (s\<lparr>pendingNodes := remove1 a (pendingNodes s), nodesLoop := Holding a\<rparr>) else None)"

text \<open>A goroutine returns when generating the snapshots fails; a panic ends the whole process.\<close>

definition cp_add_node :: "('any, 'snap, 'cache) xds_env \<Rightarrow> Config \<Rightarrow> (nat \<Rightarrow> services_seq) \<Rightarrow> (nat \<Rightarrow> services_seq) \<Rightarrow>
    'cache control_plane \<Rightarrow> 'cache control_plane option" where
  "cp_add_node env cfg ordC ordR s =
     (case nodesLoop s of
        Holding newNode \<Rightarrow>
          (let x = xds_view s; x = x\<lparr>xnodes := xnodes x @ [newNode]\<rparr> in
           case generateSnapshots env cfg ordC ordR x of
             Panic \<Rightarrow> Some (s\<lparr>crashed := True\<rparr>)
           | Ret (x', err) \<Rightarrow> Some (s\<lparr>xds := x', nodesLoop := (if err \<noteq> None then Stopped else Waiting)\<rparr>))
      | _ \<Rightarrow> None)"

text \<open>
  One announcement on the stream of a node: the critical section of \<^verbatim>\<open>registerService\<close> or \<^verbatim>\<open>unregisterService\<close>, after which
  the update waits to be taken. The streams are not told apart: a run may announce again on behalf of a node whose
  handler still waits in its send (it may also have opened a second stream), so there are more runs here than of
  the program, and what holds in all of them holds of the program.
\<close>

definition cp_announce :: "'cache control_plane \<Rightarrow> string \<Rightarrow> ServiceAnnouncement \<Rightarrow> 'cache control_plane option" where
  "cp_announce s nodeID a =
     (case ValidateNodeID (registry s) nodeID of
        Inl _ \<Rightarrow> None
      | Inr _ \<Rightarrow>
          (case (if RegistrationState a = REGISTRATION_STATE_REGISTERED
                 then registerService_locked (services s) nodeID (BundleId a) (LocalPort a)
                 else unregisterService_locked (services s) nodeID (BundleId a) (LocalPort a)) of
             Panic \<Rightarrow> Some (s\<lparr>crashed := True\<rparr>)
           | Ret sv \<Rightarrow> Some (s\<lparr>services := sv, pendingUpdates := pendingUpdates s + 1\<rparr>)))"

definition cp_recv_services :: "'cache control_plane \<Rightarrow> 'cache control_plane option" where
  "cp_recv_services s =
     (if servicesLoop s = Waiting \<and> 0 < pendingUpdates s
      then Some (s\<lparr>pendingUpdates := pendingUpdates s - 1, servicesLoop := Holding ()\<rparr>) else None)"

definition cp_set_services :: "('any, 'snap, 'cache) xds_env \<Rightarrow> Config \<Rightarrow> (nat \<Rightarrow> services_seq) \<Rightarrow> (nat \<Rightarrow> services_seq) \<Rightarrow>
    'cache control_plane \<Rightarrow> 'cache control_plane option" where
  "cp_set_services env cfg ordC ordR s =
     (case servicesLoop s of
        Holding newServiceConfig \<Rightarrow>
          (let s = s\<lparr>shared := True\<rparr> in
           case generateSnapshots env cfg ordC ordR (xds_view s) of
             Panic \<Rightarrow> Some (s\<lparr>crashed := True\<rparr>)
           | Ret (x', err) \<Rightarrow> Some (s\<lparr>xds := x', servicesLoop := (if err \<noteq> None then Stopped else Waiting)\<rparr>))
      | _ \<Rightarrow> None)"

datatype cp_event =
    CpRegister RegisterRequest
  | CpRecvNode NodeAddr
  | CpAddNode
  | CpAnnounce string ServiceAnnouncement
  | CpRecvServices
  | CpSetServices

text \<open>The sequences the loops over a node's services may see: each of them is a range of the map.\<close>

definition orders_of :: "(nat \<Rightarrow> services_seq) \<Rightarrow> (nat \<Rightarrow> services_seq) \<Rightarrow> ServiceConfigSnapshot \<Rightarrow> bool" where
  "orders_of ordC ordR sv \<longleftrightarrow> (\<forall>i. services_range (ordC i) sv \<and> services_range (ordR i) sv)"

inductive cp_step :: "('any, 'snap, 'cache) xds_env \<Rightarrow> Config \<Rightarrow> 'cache control_plane \<Rightarrow> cp_event \<Rightarrow> 'cache control_plane \<Rightarrow> bool"
  for env cfg where
  register: "\<not> crashed s \<Longrightarrow> cp_step env cfg s (CpRegister r) (cp_register s r)"
| recv_node: "\<not> crashed s \<Longrightarrow> cp_recv_node s a = Some t \<Longrightarrow> cp_step env cfg s (CpRecvNode a) t"
| add_node: "\<not> crashed s \<Longrightarrow> orders_of ordC ordR (xservices (xds_view s)) \<Longrightarrow>
    cp_add_node env cfg ordC ordR s = Some t \<Longrightarrow> cp_step env cfg s CpAddNode t"
| announce: "\<not> crashed s \<Longrightarrow> cp_announce s nodeID a = Some t \<Longrightarrow> cp_step env cfg s (CpAnnounce nodeID a) t"
| recv_services: "\<not> crashed s \<Longrightarrow> cp_recv_services s = Some t \<Longrightarrow> cp_step env cfg s CpRecvServices t"
| set_services: "\<not> crashed s \<Longrightarrow> orders_of ordC ordR (services s) \<Longrightarrow>
    cp_set_services env cfg ordC ordR s = Some t \<Longrightarrow> cp_step env cfg s CpSetServices t"

section \<open>Invariants\<close>

definition held :: "'a goroutine \<Rightarrow> 'a list" where
  "held g = (case g of Holding a \<Rightarrow> [a] | _ \<Rightarrow> [])"

text \<open>No node is lost: what the registry holds, the xDS server has, is about to add or will be sent.\<close>

definition nodes_accounted :: "'cache control_plane \<Rightarrow> bool" where
  "nodes_accounted s \<longleftrightarrow>
     mset (nodes (registry s)) = mset (xnodes (xds s)) + mset (held (nodesLoop s)) + mset (pendingNodes s)"

definition cp_inv :: "'cache control_plane \<Rightarrow> bool" where
  "cp_inv s \<longleftrightarrow> services_wf (services s) \<and> nodes_accounted s"

text \<open>At most one node is under way, and the nodes have the same index on both sides.\<close>

definition nodes_in_order :: "'cache control_plane \<Rightarrow> bool" where
  "nodes_in_order s \<longleftrightarrow>
     length (pendingNodes s) \<le> 1 \<and>
     nodes (registry s) = xnodes (xds s) @ held (nodesLoop s) @ pendingNodes s"

text \<open>Every snapshot in the cache was made without clusters.\<close>

definition no_clusters :: "('any, 'snap, 'cache) xds_env \<Rightarrow> (string \<rightharpoonup> 'snap) \<Rightarrow> bool" where
  "no_clusters env c \<longleftrightarrow>
     (\<forall>n snap. c n = Some snap \<longrightarrow>
        (\<exists>v routes ls. NewSnapshot env v \<lparr>ClusterType = [], RouteType = routes, ListenerType = ls\<rparr> = Inr snap))"

text \<open>Registrations one after the other: a node registers only when no earlier one waits to be sent.\<close>

definition one_at_a_time :: "('s control_plane \<Rightarrow> cp_event \<Rightarrow> 's control_plane \<Rightarrow> bool) \<Rightarrow>
    's control_plane \<Rightarrow> cp_event \<Rightarrow> 's control_plane \<Rightarrow> bool" where
  "one_at_a_time step s e t \<longleftrightarrow>
     step s e t \<and> (\<forall>r. e = CpRegister r \<longrightarrow> pendingNodes s = [])"

fun announcements :: "cp_event list \<Rightarrow> nat" where
  "announcements [] = 0"
| "announcements (CpAnnounce n a # es) = Suc (announcements es)"
| "announcements (e # es) = announcements es"

fun registered :: "cp_event list \<Rightarrow> NodeAddr list" where
  "registered [] = []"
| "registered (CpRegister r # es) = \<lparr>Host = Address r, Port = ReqPort r\<rparr> # registered es"
| "registered (e # es) = registered es"

text \<open>An executor: the loops over the services see the sequence \<open>ord\<close>.\<close>

definition cp_exec :: "('any, 'snap, 'cache) xds_env \<Rightarrow> Config \<Rightarrow> services_seq \<Rightarrow> 'cache control_plane \<Rightarrow> cp_event \<Rightarrow>
    'cache control_plane option" where
  "cp_exec env cfg ord s e =
     (if crashed s then None
      else case e of
        CpRegister r \<Rightarrow> Some (cp_register s r)
      | CpRecvNode a \<Rightarrow> cp_recv_node s a
      | CpAddNode \<Rightarrow>
          (if services_range ord (xservices (xds_view s)) then cp_add_node env cfg (\<lambda>_. ord) (\<lambda>_. ord) s else None)
      | CpAnnounce n a \<Rightarrow> cp_announce s n a
      | CpRecvServices \<Rightarrow> cp_recv_services s
      | CpSetServices \<Rightarrow>
          (if services_range ord (services s) then cp_set_services env cfg (\<lambda>_. ord) (\<lambda>_. ord) s else None))"

interpretation cpx: step_executor "cp_step env cfg" "cp_exec env cfg ord" for env cfg ord
proof
  fix s e t
  assume "cp_exec env cfg ord s e = Some t"
  then show "cp_step env cfg s e t"
    by (cases e) (auto simp: cp_exec_def orders_of_def intro: cp_step.intros split: if_splits)
qed

definition cp_exec_seq :: "('any, 'snap, 'cache) xds_env \<Rightarrow> Config \<Rightarrow> services_seq \<Rightarrow> 'cache control_plane \<Rightarrow> cp_event \<Rightarrow>
    'cache control_plane option" where
  "cp_exec_seq env cfg ord s e =
     (if (case e of CpRegister r \<Rightarrow> pendingNodes s \<noteq> [] | _ \<Rightarrow> False) then None else cp_exec env cfg ord s e)"

interpretation cpq: step_executor "one_at_a_time (cp_step env cfg)" "cp_exec_seq env cfg ord" for env cfg ord
  by unfold_locales (auto simp: cp_exec_seq_def one_at_a_time_def intro: cpx.exec_step split: if_splits cp_event.splits)

section \<open>Snapshots\<close>

lemma snapshot_loop_frame:
  "snapshot_loop env cfg ordC ordR is x = Ret (x', err) \<Longrightarrow> xnodes x' = xnodes x"
proof (induction "is" arbitrary: x)
  case (Cons i "is")
  then show ?case
    by (auto simp: Let_def split: sum.splits outcome.splits)
qed simp

lemma generateSnapshots_frame:
  "generateSnapshots env cfg ordC ordR x = Ret (x', err) \<Longrightarrow> xnodes x' = xnodes x"
  by (auto simp: generateSnapshots_def dest: snapshot_loop_frame)

lemma makeClusters_Inr: "makeClusters env x svr l ip = Ret (Inr cs) \<Longrightarrow> cs = []"
  using makeClusters_result [of svr env x l ip] by (auto split: if_splits)

lemma no_clusters_upd:
  "no_clusters env c \<Longrightarrow> NewSnapshot env v \<lparr>ClusterType = [], RouteType = routes, ListenerType = ls\<rparr> = Inr snap \<Longrightarrow>
     no_clusters env (c(n \<mapsto> snap))"
  by (auto simp: no_clusters_def)

lemma snapshot_loop_no_clusters:
  "keeps_last_snapshot env \<Longrightarrow> no_clusters env (cache x) \<Longrightarrow>
     snapshot_loop env cfg ordC ordR is x = Ret (x', err) \<Longrightarrow> no_clusters env (cache x')"
proof (induction "is" arbitrary: x)
  case (Cons i "is")
  from Cons.prems(2,3) show ?case
    by (auto simp: Let_def Cons.prems(1) [unfolded keeps_last_snapshot_def] split: sum.splits outcome.splits
        dest!: makeClusters_Inr Cons.IH [OF Cons.prems(1), rotated]
        intro: no_clusters_upd [unfolded fun_upd_def])
qed simp

lemma generateSnapshots_no_clusters:
  assumes "keeps_last_snapshot env" "no_clusters env (cache x)"
    and "generateSnapshots env cfg ordC ordR x = Ret (x', err)"
  shows "no_clusters env (cache x')"
  using assms(3) unfolding generateSnapshots_def Let_def
  by (rule snapshot_loop_no_clusters [OF assms(1), rotated]) (simp add: assms(2))

section \<open>Steps\<close>

lemma xds_view_simps [simp]:
  "xnodes (xds_view s) = xnodes (xds s)" "cache (xds_view s) = cache (xds s)"
  "snapshotVersion (xds_view s) = snapshotVersion (xds s)"
  by (simp_all add: xds_view_def)

lemma cp_register_simp:
  "cp_register s r = s\<lparr>registry := (registry s)\<lparr>nodes := nodes (registry s) @ [\<lparr>Host = Address r, Port = ReqPort r\<rparr>]\<rparr>,
     pendingNodes := pendingNodes s @ [\<lparr>Host = Address r, Port = ReqPort r\<rparr>]\<rparr>"
  by (simp add: cp_register_def Register_simp)

lemma cp_recv_node_Some:
  "cp_recv_node s a = Some t \<longleftrightarrow> nodesLoop s = Waiting \<and> a \<in> set (pendingNodes s) \<and>
     t = s\<lparr>pendingNodes := remove1 a (pendingNodes s), nodesLoop := Holding a\<rparr>"
  by (auto simp: cp_recv_node_def)

lemma cp_announce_Some:
  "cp_announce s nodeID a = Some t \<longleftrightarrow> (\<exists>i sv. ValidateNodeID (registry s) nodeID = Inr i \<and>
     (if RegistrationState a = REGISTRATION_STATE_REGISTERED
      then registerService_locked (services s) nodeID (BundleId a) (LocalPort a)
      else unregisterService_locked (services s) nodeID (BundleId a) (LocalPort a)) = Ret sv \<and>
     t = s\<lparr>services := sv, pendingUpdates := pendingUpdates s + 1\<rparr>)"
  by (auto simp: cp_announce_def registerService_locked_simp unregisterService_locked_simp split: sum.splits if_splits)

lemma cp_recv_services_Some:
  "cp_recv_services s = Some t \<longleftrightarrow> servicesLoop s = Waiting \<and> 0 < pendingUpdates s \<and>
     t = s\<lparr>pendingUpdates := pendingUpdates s - 1, servicesLoop := Holding ()\<rparr>"
  by (auto simp: cp_recv_services_def)

text \<open>What a goroutine's turn changes: its own state, the snapshots and, for the first, the nodes.\<close>

lemma cp_add_node_Some:
  assumes "cp_add_node env cfg ordC ordR s = Some t"
  obtains a where "nodesLoop s = Holding a" "t = s\<lparr>crashed := True\<rparr>"
  | a x' err where "nodesLoop s = Holding a" "t = s\<lparr>xds := x', nodesLoop := if err \<noteq> None then Stopped else Waiting\<rparr>"
      "generateSnapshots env cfg ordC ordR ((xds_view s)\<lparr>xnodes := xnodes (xds s) @ [a]\<rparr>) = Ret (x', err)"
  using assms by (auto simp: cp_add_node_def Let_def split: goroutine.splits outcome.splits)

lemma cp_set_services_Some:
  assumes "cp_set_services env cfg ordC ordR s = Some t"
  obtains "servicesLoop s = Holding ()" "t = s\<lparr>shared := True, crashed := True\<rparr>"
  | x' err where "servicesLoop s = Holding ()"
      "t = s\<lparr>shared := True, xds := x', servicesLoop := if err \<noteq> None then Stopped else Waiting\<rparr>"
      "generateSnapshots env cfg ordC ordR (xds_view (s\<lparr>shared := True\<rparr>)) = Ret (x', err)"
  using assms by (auto simp: cp_set_services_def Let_def split: goroutine.splits outcome.splits)

lemma cp_inv_step: "cp_inv s \<Longrightarrow> cp_step env cfg s e t \<Longrightarrow> cp_inv t"
proof -
  assume inv: "cp_inv s" and st: "cp_step env cfg s e t"
  from st show "cp_inv t"
  proof (cases rule: cp_step.cases)
    case (add_node ordC ordR)
    from add_node(4) inv show ?thesis
      by (cases rule: cp_add_node_Some)
        (auto simp: cp_inv_def nodes_accounted_def held_def dest!: generateSnapshots_frame)
  next
    case (set_services ordC ordR)
    from set_services(4) inv show ?thesis
      by (cases rule: cp_set_services_Some)
        (auto simp: cp_inv_def nodes_accounted_def held_def dest!: generateSnapshots_frame)
  next
    case (announce nodeID a)
    with inv show ?thesis
      by (auto simp: cp_inv_def nodes_accounted_def cp_announce_Some
          dest: registerService_locked_wf unregisterService_locked_wf split: if_splits)
  qed (use inv in \<open>simp_all add: cp_inv_def nodes_accounted_def held_def cp_register_simp cp_recv_node_Some
        cp_recv_services_Some\<close>)
qed

interpretation cpi: step_invariant "cp_step env cfg" cp_inv for env cfg
  by unfold_locales (rule cp_inv_step)

lemma cp_inv_start [simp]: "cp_inv (start_control_plane c)"
  by (simp add: cp_inv_def nodes_accounted_def held_def start_control_plane_def NewServer_def NewNodeRegistryServer_def)

lemma nodes_in_order_step: "nodes_in_order s \<Longrightarrow> one_at_a_time (cp_step env cfg) s e t \<Longrightarrow> nodes_in_order t"
proof -
  assume inv: "nodes_in_order s" and "one_at_a_time (cp_step env cfg) s e t"
  then have st: "cp_step env cfg s e t" and alone: "\<And>r. e = CpRegister r \<Longrightarrow> pendingNodes s = []"
    by (auto simp: one_at_a_time_def)
  from st show "nodes_in_order t"
  proof (cases rule: cp_step.cases)
    case (recv_node a)
    with inv show ?thesis
      by (cases "pendingNodes s") (auto simp: nodes_in_order_def held_def cp_recv_node_Some)
  next
    case (add_node ordC ordR)
    from add_node(4) inv show ?thesis
      by (cases rule: cp_add_node_Some) (auto simp: nodes_in_order_def held_def dest!: generateSnapshots_frame)
  next
    case (set_services ordC ordR)
    from set_services(4) inv show ?thesis
      by (cases rule: cp_set_services_Some) (auto simp: nodes_in_order_def held_def dest!: generateSnapshots_frame)
  qed (use inv alone in \<open>auto simp: nodes_in_order_def held_def cp_register_simp cp_announce_Some cp_recv_services_Some\<close>)
qed

interpretation cpo: step_invariant "one_at_a_time (cp_step env cfg)" nodes_in_order for env cfg
  by unfold_locales (rule nodes_in_order_step)

lemma no_clusters_step:
  assumes "keeps_last_snapshot env" and "no_clusters env (cache (xds s))" and "cp_step env cfg s e t"
  shows "no_clusters env (cache (xds t))"
  using assms(3)
proof (cases rule: cp_step.cases)
  case (add_node ordC ordR)
  from add_node(4) assms(2) show ?thesis
    by (cases rule: cp_add_node_Some) (auto dest!: generateSnapshots_no_clusters [OF assms(1), rotated])
next
  case (set_services ordC ordR)
  from set_services(4) assms(2) show ?thesis
    by (cases rule: cp_set_services_Some) (auto dest!: generateSnapshots_no_clusters [OF assms(1), rotated])
qed (use assms(2) in \<open>auto simp: cp_register_simp cp_recv_node_Some cp_announce_Some cp_recv_services_Some\<close>)

lemma run_no_clusters:
  "run (cp_step env cfg) s tr t \<Longrightarrow> keeps_last_snapshot env \<Longrightarrow> no_clusters env (cache (xds s)) \<Longrightarrow>
     no_clusters env (cache (xds t))"
  by (induction rule: run.induct) (auto intro: no_clusters_step)

lemma announcements_append [simp]: "announcements (xs @ ys) = announcements xs + announcements ys"
  by (induction xs rule: announcements.induct) auto

lemma stopped_step:
  assumes "servicesLoop s = Stopped" and "cp_step env cfg s e t"
  shows "servicesLoop t = Stopped \<and> pendingUpdates t = pendingUpdates s + announcements [e]"
  using assms(2)
proof (cases rule: cp_step.cases)
  case (add_node ordC ordR)
  from add_node(4) assms(1) show ?thesis
    by (cases rule: cp_add_node_Some) (auto simp: add_node)
next
  case (set_services ordC ordR)
  from set_services(4) assms(1) show ?thesis
    by (cases rule: cp_set_services_Some) auto
qed (use assms(1) in \<open>auto simp: cp_register_simp cp_recv_node_Some cp_announce_Some cp_recv_services_Some\<close>)

lemma run_stopped:
  "run (cp_step env cfg) s tr t \<Longrightarrow> servicesLoop s = Stopped \<Longrightarrow>
     servicesLoop t = Stopped \<and> pendingUpdates t = pendingUpdates s + announcements tr"
  by (induction rule: run.induct) (auto dest: stopped_step)

lemma registered_append [simp]: "registered (xs @ ys) = registered xs @ registered ys"
  by (induction xs rule: registered.induct) auto

lemma nodes_stopped_step:
  assumes "nodesLoop s = Stopped" and "cp_step env cfg s e t"
  shows "nodesLoop t = Stopped \<and> pendingNodes t = pendingNodes s @ registered [e]"
  using assms(2)
proof (cases rule: cp_step.cases)
  case (add_node ordC ordR)
  from add_node(4) assms(1) show ?thesis by (cases rule: cp_add_node_Some) auto
next
  case (set_services ordC ordR)
  from set_services(4) assms(1) show ?thesis
    by (cases rule: cp_set_services_Some) (auto simp: set_services)
qed (use assms(1) in \<open>auto simp: cp_register_simp cp_recv_node_Some cp_announce_Some cp_recv_services_Some\<close>)

lemma run_nodes_stopped:
  "run (cp_step env cfg) s tr t \<Longrightarrow> nodesLoop s = Stopped \<Longrightarrow>
     nodesLoop t = Stopped \<and> pendingNodes t = pendingNodes s @ registered tr"
  by (induction rule: run.induct) (auto dest: nodes_stopped_step)

lemma cp_add_node_fails:
  assumes "orders_of ordC ordR (services s)" and "bundles (services s) \<noteq> {}" and "shared s" and "nodesLoop s = Holding a"
  shows "\<exists>x. cp_add_node env cfg ordC ordR s = Some (s\<lparr>xds := x, nodesLoop := Stopped\<rparr>)"
proof -
  let ?x = "(xds_view s)\<lparr>xnodes := xnodes (xds s) @ [a]\<rparr>"
  have "xservices ?x = services s" using assms(3) by (simp add: xds_view_def)
  with assms(1,2) obtain err x' where "generateSnapshots env cfg ordC ordR ?x = Ret (x', Some err)"
    using generateSnapshots_fails [of ordC ?x env cfg ordR] by (auto simp: orders_of_def)
  with assms(4) show ?thesis by (auto simp: cp_add_node_def Let_def)
qed

lemma cp_set_services_fails:
  assumes "orders_of ordC ordR (services s)" and "bundles (services s) \<noteq> {}" and "xnodes (xds s) \<noteq> []"
    and "servicesLoop s = Holding ()"
  shows "\<exists>x. cp_set_services env cfg ordC ordR s = Some (s\<lparr>shared := True, xds := x, servicesLoop := Stopped\<rparr>)"
proof -
  have "xservices (xds_view (s\<lparr>shared := True\<rparr>)) = services s" by (simp add: xds_view_def)
  with assms(1-3) obtain err x' where "generateSnapshots env cfg ordC ordR (xds_view (s\<lparr>shared := True\<rparr>)) = Ret (x', Some err)"
    using generateSnapshots_fails [of ordC "xds_view (s\<lparr>shared := True\<rparr>)" env cfg ordR] by (auto simp: orders_of_def)
  with assms(4) show ?thesis by (auto simp: cp_set_services_def Let_def)
qed

text \<open>A node is added without services: its snapshots are generated and the goroutine waits for the next.\<close>

definition snapshots_work :: "('any, 'snap, string \<rightharpoonup> 'snap) xds_env \<Rightarrow> Config \<Rightarrow> bool" where
  "snapshots_work env cfg \<longleftrightarrow>
     (\<exists>ls. makeHTTPListener env cfg = Inr ls) \<and> keeps_last_snapshot env \<and>
     (\<forall>v r. \<exists>snap. NewSnapshot env v r = Inr snap)"

lemma cp_exec_add_node:
  assumes "snapshots_work env cfg" and "\<not> crashed s" and "\<not> shared s" and "nodesLoop s = Holding a"
  shows "\<exists>v c. cp_exec env cfg [] s CpAddNode =
    Some (s\<lparr>xds := (xds s)\<lparr>xservices := Map.empty, xnodes := xnodes (xds s) @ [a], snapshotVersion := v, cache := c\<rparr>,
      nodesLoop := Waiting\<rparr>)"
proof -
  let ?x = "(xds_view s)\<lparr>xnodes := xnodes (xds s) @ [a]\<rparr>"
  obtain ls where ls: "makeHTTPListener env cfg = Inr ls" using assms(1) by (auto simp: snapshots_work_def)
  have none: "offers [] = {}" by (simp add: offers_def)
  have "keeps_last_snapshot env" "\<And>v r. \<exists>snap. NewSnapshot env v r = Inr snap"
    using assms(1) by (auto simp: snapshots_work_def)
  from generateSnapshots_ok [of "\<lambda>_. []" "\<lambda>_. []" env cfg ls _ ?x, OF none none ls this(1) refl this(2)]
  obtain v c where "generateSnapshots env cfg (\<lambda>_. []) (\<lambda>_. []) ?x = Ret (?x\<lparr>snapshotVersion := v, cache := c\<rparr>, None)"
    by blast
  moreover have "services_range [] (xservices (xds_view s))"
    using assms(3) by (simp add: services_range_def xds_view_def)
  ultimately show ?thesis
    using assms(2-4) by (auto simp: cp_exec_def cp_add_node_def Let_def xds_view_def)
qed

lemmas cp_exec_simps = cp_exec_def cp_register_simp cp_recv_node_def

lemma example_snapshots_work: "snapshots_work example_env (Default ''hpc-1'')"
  by (simp add: snapshots_work_def keeps_last_snapshot_def makeHTTPListener_def makeHTTPConnectionManager_def example_env_def)

definition example_announcement :: ServiceAnnouncement where
  "example_announcement = \<lparr>BundleId = ''app'', LocalPort = 8080, RegistrationState = REGISTRATION_STATE_REGISTERED\<rparr>"

definition example_start :: "cp_event list" where
  "example_start = [CpRegister example_request, CpRecvNode \<lparr>Host = ''hpc-1'', Port = 8000\<rparr>, CpAddNode]"

lemma example_start_run:
  "\<exists>x snap. run (cp_step example_env (Default ''hpc-1'')) (start_control_plane Map.empty) example_start
     ((start_control_plane Map.empty)\<lparr>registry := example_registry, xds := x\<rparr>) \<and>
   xnodes x = nodes example_registry \<and> cache x ''node-0'' = Some snap"
proof -
  let ?s = "(start_control_plane Map.empty)\<lparr>registry := example_registry, nodesLoop := Holding \<lparr>Host = ''hpc-1'', Port = 8000\<rparr>\<rparr>"
  have "\<exists>x snap. cp_exec example_env (Default ''hpc-1'') [] ?s CpAddNode = Some (?s\<lparr>xds := x, nodesLoop := Waiting\<rparr>) \<and>
      xnodes x = nodes example_registry \<and> cache x ''node-0'' = Some snap"
    by (simp add: cp_exec_def start_control_plane_def example_registry_def cp_add_node_def Let_def
        xds_view_def services_range_def NewServer_def generateSnapshots_def makeHTTPListener_def
        makeHTTPConnectionManager_def example_env_def makeClusters_def generateNodeID_def strconv_Itoa_def digit_char_def itoa_nat.simps)
  then obtain x snap where x: "cp_exec example_env (Default ''hpc-1'') [] ?s CpAddNode = Some (?s\<lparr>xds := x, nodesLoop := Waiting\<rparr>)"
    "xnodes x = nodes example_registry" "cache x ''node-0'' = Some snap" by blast
  have "exec_all (cp_exec example_env (Default ''hpc-1'') []) (start_control_plane Map.empty) example_start =
      Some ((start_control_plane Map.empty)\<lparr>registry := example_registry, xds := x\<rparr>)"
    using x(1) by (simp add: example_start_def example_request_def cp_exec_simps start_control_plane_def NewNodeRegistryServer_def
        example_registry_def)
  from cpx.exec_all_run [OF this] x(2,3) show ?thesis by blast
qed

section \<open>Properties\<close>

text \<open>
  C9. However the handlers and goroutines interleave, the services stay well formed and no node is lost or
  duplicated on its way from the node registry to the xDS server: once nothing is under way both hold the
  same nodes.
\<close>

theorem nodes_reach_the_xds_server:
  assumes "run (cp_step env cfg) (start_control_plane c) tr s"
  shows "services_wf (services s) \<and>
    mset (nodes (registry s)) = mset (xnodes (xds s)) + mset (held (nodesLoop s)) + mset (pendingNodes s)"
proof -
  have "cp_inv s" using assms cp_inv_start by (rule cpi.run_inv)
  then show ?thesis by (simp add: cp_inv_def nodes_accounted_def)
qed

theorem nodes_reach_the_xds_server_witness:
  "\<exists>s. run (cp_step example_env (Default ''hpc-1'')) (start_control_plane Map.empty)
        [CpRegister example_request, CpRecvNode \<lparr>Host = ''hpc-1'', Port = 8000\<rparr>] s \<and> mset (nodes (registry s)) = mset (held (nodesLoop s))"
proof -
  obtain s where s: "exec_all (cp_exec example_env (Default ''hpc-1'') []) (start_control_plane Map.empty)
      [CpRegister example_request, CpRecvNode \<lparr>Host = ''hpc-1'', Port = 8000\<rparr>] = Some s"
    and "pendingNodes s = []" "xnodes (xds s) = []"
    by (simp add: cp_exec_def cp_register_simp cp_recv_node_def start_control_plane_def example_request_def NewServer_def)
  with nodes_reach_the_xds_server [OF cpx.exec_all_run [OF s]] cpx.exec_all_run [OF s] show ?thesis by auto
qed

text \<open>
  C24. When no node registers while an earlier one still waits to be sent, the xDS server has the nodes in the
  order of the registry, so that an identifier names the same node on both sides.
\<close>

theorem sequential_registration_keeps_order:
  assumes "run (one_at_a_time (cp_step env cfg)) (start_control_plane c) tr s" and "i < length (xnodes (xds s))"
  shows "xnodes (xds s) ! i = nodes (registry s) ! i \<and> i < length (nodes (registry s))"
proof -
  have "nodes_in_order (start_control_plane c)"
    by (simp add: nodes_in_order_def start_control_plane_def NewServer_def NewNodeRegistryServer_def held_def)
  with assms(1) have "nodes_in_order s" by (rule cpo.run_inv)
  with assms(2) show ?thesis by (auto simp: nodes_in_order_def nth_append)
qed

theorem sequential_registration_keeps_order_witness:
  "\<exists>s. run (one_at_a_time (cp_step example_env (Default ''hpc-1''))) (start_control_plane Map.empty)
        [CpRegister example_request, CpRecvNode \<lparr>Host = ''hpc-1'', Port = 8000\<rparr>, CpAddNode] s \<and>
       0 < length (xnodes (xds s)) \<and> xnodes (xds s) ! 0 = nodes (registry s) ! 0"
proof -
  obtain s where s: "exec_all (cp_exec_seq example_env (Default ''hpc-1'') []) (start_control_plane Map.empty)
      [CpRegister example_request, CpRecvNode \<lparr>Host = ''hpc-1'', Port = 8000\<rparr>, CpAddNode] = Some s"
    and len: "0 < length (xnodes (xds s))"
    using cp_exec_add_node [OF example_snapshots_work,
        of "(start_control_plane Map.empty)\<lparr>registry := \<lparr>nodes = [\<lparr>Host = ''hpc-1'', Port = 8000\<rparr>]\<rparr>,
          nodesLoop := Holding \<lparr>Host = ''hpc-1'', Port = 8000\<rparr>\<rparr>"]
    by (auto simp: cp_exec_seq_def cp_exec_simps start_control_plane_def example_request_def NewNodeRegistryServer_def)
  from sequential_registration_keeps_order [OF cpq.exec_all_run [OF s] len] cpq.exec_all_run [OF s] len
  show ?thesis by blast
qed

text \<open>
  C34. Registrations that overlap can swap nodes. \<^verbatim>\<open>Register\<close> sends the new node after it gave up the mutex,
  so two registrations may reach the xDS server in the other order: then each identifier names one node in
  the registry and the other one in the xDS server, with nothing left under way.
\<close>

theorem overlapping_registrations_can_swap_nodes:
  fixes r1 r2 :: RegisterRequest
  assumes "snapshots_work env cfg" and "(Address r1, ReqPort r1) \<noteq> (Address r2, ReqPort r2)"
  shows "\<exists>tr s. run (cp_step env cfg) (start_control_plane c) tr s \<and>
    nodes (registry s) = [\<lparr>Host = Address r1, Port = ReqPort r1\<rparr>, \<lparr>Host = Address r2, Port = ReqPort r2\<rparr>] \<and>
    xnodes (xds s) = [\<lparr>Host = Address r2, Port = ReqPort r2\<rparr>, \<lparr>Host = Address r1, Port = ReqPort r1\<rparr>] \<and>
    pendingNodes s = [] \<and> nodesLoop s = Waiting \<and> \<not> crashed s"
proof -
  let ?n1 = "\<lparr>Host = Address r1, Port = ReqPort r1\<rparr>" and ?n2 = "\<lparr>Host = Address r2, Port = ReqPort r2\<rparr>"
  let ?s0 = "start_control_plane c" and ?ex = "cp_exec env cfg []"
  let ?s1 = "?s0\<lparr>registry := \<lparr>nodes = [?n1, ?n2]\<rparr>, pendingNodes := [?n1], nodesLoop := Holding ?n2\<rparr>"
  have ne: "?n1 \<noteq> ?n2" using assms(2) by auto
  then have 1: "exec_all ?ex ?s0 [CpRegister r1, CpRegister r2, CpRecvNode ?n2] = Some ?s1"
    by (simp add: cp_exec_simps start_control_plane_def NewNodeRegistryServer_def)
  obtain v x where 2: "?ex ?s1 CpAddNode = Some (?s1\<lparr>xds := \<lparr>snapshotVersion = v, cache = x, xnodes = [?n2],
      xservices = Map.empty\<rparr>, nodesLoop := Waiting\<rparr>)" (is "_ = Some ?s2")
    using cp_exec_add_node [OF assms(1), of ?s1 ?n2] by (auto simp: start_control_plane_def NewServer_def)
  have 3: "?ex ?s2 (CpRecvNode ?n1) = Some (?s2\<lparr>pendingNodes := [], nodesLoop := Holding ?n1\<rparr>)" (is "_ = Some ?s3")
    by (simp add: cp_exec_simps start_control_plane_def)
  obtain v' x' where 4: "?ex ?s3 CpAddNode = Some (?s3\<lparr>xds := \<lparr>snapshotVersion = v', cache = x', xnodes = [?n2, ?n1],
      xservices = Map.empty\<rparr>, nodesLoop := Waiting\<rparr>)" (is "_ = Some ?s4")
    using cp_exec_add_node [OF assms(1), of ?s3 ?n1] by (auto simp: start_control_plane_def NewServer_def)
  have "run (cp_step env cfg) ?s1 [CpAddNode, CpRecvNode ?n1, CpAddNode] ?s4"
    by (rule cpx.exec_all_run [where ord = "[]"]) (simp only: exec_all.simps 2 3 4 option.case)
  from run_trans [OF this cpx.exec_all_run [OF 1]] have "run (cp_step env cfg) ?s0
      ([CpRegister r1, CpRegister r2, CpRecvNode ?n2] @ [CpAddNode, CpRecvNode ?n1, CpAddNode]) ?s4" .
  moreover have "\<not> crashed ?s4" by (simp add: start_control_plane_def)
  ultimately show ?thesis by fastforce
qed

theorem overlapping_registrations_can_swap_nodes_witness:
  "\<exists>tr s. run (cp_step example_env (Default ''hpc-1'')) (start_control_plane Map.empty) tr s \<and>
    xnodes (xds s) = [\<lparr>Host = ''hpc-2'', Port = 8000\<rparr>, \<lparr>Host = ''hpc-1'', Port = 8000\<rparr>]"
  using overlapping_registrations_can_swap_nodes [OF example_snapshots_work, of example_request "\<lparr>Address = ''hpc-2'', ReqPort = 8000\<rparr>"]
  by (fastforce simp: example_request_def)

text \<open>
  C28. No node ever gets a cluster: in every state the control plane can reach from an empty cache, all
  the snapshots in the cache were made without clusters.
\<close>

theorem snapshots_never_have_clusters:
  assumes "run (cp_step env cfg) (start_control_plane Map.empty) tr s" and "keeps_last_snapshot env"
    and "cache (xds s) n = Some snap"
  shows "\<exists>v routes ls. NewSnapshot env v \<lparr>ClusterType = [], RouteType = routes, ListenerType = ls\<rparr> = Inr snap"
proof -
  have "no_clusters env (cache (xds (start_control_plane Map.empty)))"
    by (simp add: no_clusters_def start_control_plane_def NewServer_def)
  from run_no_clusters [OF assms(1,2) this] assms(3) show ?thesis by (simp add: no_clusters_def)
qed

theorem snapshots_never_have_clusters_witness:
  "\<exists>s snap. run (cp_step example_env (Default ''hpc-1'')) (start_control_plane Map.empty) example_start s \<and>
     cache (xds s) ''node-0'' = Some snap \<and> ClusterType (snd snap) = []"
proof -
  from example_start_run obtain s snap where s: "run (cp_step example_env (Default ''hpc-1'')) (start_control_plane Map.empty) example_start s"
    and snap: "cache (xds s) ''node-0'' = Some snap" by auto
  from snapshots_never_have_clusters [OF s _ snap] s snap show ?thesis
    by (auto simp: example_env_def keeps_last_snapshot_def)
qed

text \<open>
  C29. Failing snapshots bring the control plane to a halt. The first update of the services with a node and a bundle registered ends the goroutine that receives
  updates: whatever happens afterwards, every further announcement is left waiting in its send. And the next node that is added after it ends the other
  goroutine: every further registration is left waiting, so no node can join any more.
\<close>

theorem failed_snapshots_block_control_plane:
  assumes "cp_step env cfg s e t" and "bundles (services s) \<noteq> {}"
    and "e = CpSetServices \<and> xnodes (xds s) \<noteq> [] \<or> e = CpAddNode \<and> shared s"
    and "run (cp_step env cfg) t tr u"
  shows "(e = CpSetServices \<longrightarrow> servicesLoop u = Stopped \<and> pendingUpdates u = pendingUpdates t + announcements tr) \<and>
    (e = CpAddNode \<longrightarrow> nodesLoop u = Stopped \<and> pendingNodes u = pendingNodes t @ registered tr)"
proof (cases "e = CpAddNode")
  case True
  with assms(1) obtain ordC ordR where "orders_of ordC ordR (xservices (xds_view s))" and t: "cp_add_node env cfg ordC ordR s = Some t"
    by (cases rule: cp_step.cases) auto
  moreover obtain a where "nodesLoop s = Holding a" using t by (rule cp_add_node_Some)
  moreover have "shared s" using assms(3) True by auto
  ultimately have "nodesLoop t = Stopped"
    using cp_add_node_fails [of ordC ordR s a env cfg] assms(2) by (auto simp: xds_view_def)
  with run_nodes_stopped [OF assms(4)] True show ?thesis by simp
next
  case False
  with assms(1,3) obtain ordC ordR where "orders_of ordC ordR (services s)" and t: "cp_set_services env cfg ordC ordR s = Some t"
    by (cases rule: cp_step.cases) auto
  moreover have "servicesLoop s = Holding ()" using t by (rule cp_set_services_Some)
  ultimately have "servicesLoop t = Stopped"
    using cp_set_services_fails [of ordC ordR s env cfg] assms(2,3) False by auto
  with run_stopped [OF assms(4)] False show ?thesis by simp
qed

theorem failed_snapshots_block_control_plane_witness:
  "\<exists>s t u. run (cp_step example_env (Default ''hpc-1'')) (start_control_plane Map.empty)
       (example_start @ [CpAnnounce ''node-0'' example_announcement, CpRecvServices]) s \<and>
     cp_step example_env (Default ''hpc-1'') s CpSetServices t \<and>
     run (cp_step example_env (Default ''hpc-1'')) t [CpAnnounce ''node-0'' example_announcement] u \<and>
     servicesLoop u = Stopped \<and> pendingUpdates u = 1"
proof -
  let ?env = example_env and ?cfg = "Default ''hpc-1''" and ?ann = "CpAnnounce ''node-0'' example_announcement"
  let ?ord = "[(''node-0'', [(''app'', [8080 :: int32])])]"
  from example_start_run obtain x where
    0: "run (cp_step ?env ?cfg) (start_control_plane Map.empty) example_start
         ((start_control_plane Map.empty)\<lparr>registry := example_registry, xds := x\<rparr>)" (is "run _ _ _ ?r")
    and x: "xnodes x \<noteq> []" by (auto simp: example_registry_def)
  have "exec_all (cp_exec ?env ?cfg []) ?r [?ann, CpRecvServices] =
      Some (?r\<lparr>services := [''node-0'' \<mapsto> [''app'' \<mapsto> [8080]]], servicesLoop := Holding ()\<rparr>)" (is "_ = Some ?s")
    by (simp add: cp_exec_def cp_announce_def cp_recv_services_def start_control_plane_def example_registry_valid
        example_announcement_def registerService_locked_simp NewServiceRegistry_def ports_of_def slices_Compact_def slices_Sort_def go_data)
  from run_trans [OF cpx.exec_all_run [OF this] 0]
  have s: "run (cp_step ?env ?cfg) (start_control_plane Map.empty) (example_start @ [?ann, CpRecvServices]) ?s" .
  have ord: "orders_of (\<lambda>_. ?ord) (\<lambda>_. ?ord) (services ?s)" by (simp add: orders_of_def services_range_def range_of_def)
  have nonempty: "bundles (services ?s) \<noteq> {}" "xnodes (xds ?s) \<noteq> []"
    using x by (auto simp: bundles_def)
  obtain y where t: "cp_set_services ?env ?cfg (\<lambda>_. ?ord) (\<lambda>_. ?ord) ?s =
      Some (?s\<lparr>shared := True, xds := y, servicesLoop := Stopped\<rparr>)" (is "_ = Some ?t")
    using cp_set_services_fails [OF ord nonempty, of ?env ?cfg] by auto
  have st: "cp_step ?env ?cfg ?s CpSetServices ?t"
    by (rule cp_step.set_services [OF _ ord t]) (simp add: start_control_plane_def)
  obtain u where u: "cp_announce ?t ''node-0'' example_announcement = Some u" "pendingUpdates u = 1"
    by (simp add: cp_announce_def example_registry_valid registerService_locked_simp example_announcement_def start_control_plane_def)
  have "run (cp_step ?env ?cfg) ?t [?ann] u"
    by (rule run_single) (rule cp_step.announce [OF _ u(1)], simp add: start_control_plane_def)
  from failed_snapshots_block_control_plane [OF st nonempty(1) _ this] nonempty(2) st s this u(2) show ?thesis by auto
qed

end
