(* ===== verification/Json_Read.thy ===== *)
theory Json_Read
  imports Json_Text
begin

text \<open>
  The input side of \<^verbatim>\<open>encoding/json\<close>: \<open>json_read\<close> accepts a text exactly when \<^verbatim>\<open>json.Unmarshal\<close> finds it valid
  and gives the value it stands for, with its strings decoded. A lexer turns the text into tokens and
  a machine with a stack, as the scanner of the package is, assembles the value; like there the stack holds at
  most ten thousand open arrays and objects.
\<close>

section \<open>Strings\<close>

definition hex_val :: "char \<Rightarrow> nat option" where
  "hex_val c =
     (let n = of_char c :: nat in
      if 48 \<le> n \<and> n \<le> 57 then Some (n - 48)
      else if 97 \<le> n \<and> n \<le> 102 then Some (n - 87)
      else if 65 \<le> n \<and> n \<le> 70 then Some (n - 55)
      else None)"

text \<open>Four hexadecimal digits at the head of a string.\<close>

definition hex4 :: "string \<Rightarrow> nat option" where
  "hex4 s =
     (if length s < 4 then None
      else case (hex_val (s ! 0), hex_val (s ! 1), hex_val (s ! 2), hex_val (s ! 3)) of
             (Some a, Some b, Some c, Some d) \<Rightarrow> Some (a * 4096 + b * 256 + c * 16 + d)
           | _ \<Rightarrow> None)"

definition replacement :: string where
  "replacement = [CHR 0xEF, CHR 0xBF, CHR 0xBD]"

definition is_surrogate :: "nat \<Rightarrow> bool" where
  "is_surrogate r \<longleftrightarrow> 0xD800 \<le> r \<and> r < 0xE000"

definition utf8_encode :: "nat \<Rightarrow> string" where
  "utf8_encode r =
     (if r < 0x80 then [char_of r]
      else if r < 0x800 then [char_of (0xC0 + r div 64), char_of (0x80 + r mod 64)]
      else if is_surrogate r \<or> 0x110000 \<le> r then replacement
      else if r < 0x10000 then [char_of (0xE0 + r div 4096), char_of (0x80 + r div 64 mod 64), char_of (0x80 + r mod 64)]
      else [char_of (0xF0 + r div 262144), char_of (0x80 + r div 4096 mod 64), char_of (0x80 + r div 64 mod 64), char_of (0x80 + r mod 64)])"

text \<open>\<^verbatim>\<open>utf16.DecodeRune\<close>: the character of a surrogate pair.\<close>

definition surrogate_pair :: "nat \<Rightarrow> nat \<Rightarrow> nat option" where
  "surrogate_pair r1 r2 =
     (if 0xD800 \<le> r1 \<and> r1 < 0xDC00 \<and> 0xDC00 \<le> r2 \<and> r2 < 0xE000
      then Some ((r1 - 0xD800) * 1024 + (r2 - 0xDC00) + 0x10000) else None)"

definition prepend :: "string \<Rightarrow> (string \<times> string) option \<Rightarrow> (string \<times> string) option" where
  "prepend x r = map_option (\<lambda>(v, rest). (x @ v, rest)) r"

definition simple_escape :: "char \<Rightarrow> char option" where
  "simple_escape e =
     (if e = dq \<or> e = bsl \<or> e = CHR ''/'' then Some e
      else if e = CHR ''b'' then Some (CHR 0x08)
      else if e = CHR ''f'' then Some (CHR 0x0C)
      else if e = CHR ''n'' then Some (CHR 0x0A)
      else if e = CHR ''r'' then Some (CHR 0x0D)
      else if e = CHR ''t'' then Some (CHR 0x09)
      else None)"

text \<open>The rest of a string literal after its opening quotation mark: the decoded string and the text behind it.\<close>

fun lex_string :: "string \<Rightarrow> (string \<times> string) option" where
  "lex_string [] = None"
| "lex_string (c # s) =
     (if c = dq then Some ([], s)
      else if c = bsl then
        (case s of
           [] \<Rightarrow> None
         | e # t \<Rightarrow>
             if e = CHR ''u'' then
               (case hex4 t of
                  None \<Rightarrow> None
                | Some r \<Rightarrow>
                    if is_surrogate r then
                      (case (if take 2 (drop 4 t) = [bsl, CHR ''u''] then Option.bind (hex4 (drop 6 t)) (surrogate_pair r) else None) of
                         Some p \<Rightarrow> prepend (utf8_encode p) (lex_string (drop 10 t))
                       | None \<Rightarrow> prepend replacement (lex_string (drop 4 t)))
                    else prepend (utf8_encode r) (lex_string (drop 4 t)))
             else (case simple_escape e of None \<Rightarrow> None | Some x \<Rightarrow> prepend [x] (lex_string t)))
      else if (of_char c :: nat) < 32 then None
      else if byte_in 0 127 c then prepend [c] (lex_string s)
      else let n = utf8_len (c # s) in
        if n = 0 then prepend replacement (lex_string s)
        else prepend (take n (c # s)) (lex_string (drop (n - 1) s)))"

lemma prepend_Some [simp]: "prepend x r = Some (v, rest) \<longleftrightarrow> (\<exists>v'. r = Some (v', rest) \<and> v = x @ v')"
  by (auto simp: prepend_def)

lemma lex_string_length [termination_simp]: "lex_string s = Some (v, r) \<Longrightarrow> length r < length s"
proof (induction s arbitrary: v rule: measure_induct_rule [where f = length])
  case (less s)
  have IH: "length r < length s" if "lex_string t = Some (v', r)" and "length t < length s" for t v'
    using less.IH [OF that(2,1)] that(2) by simp
  from less.prems show ?case
    by (cases s) (auto simp: Let_def split: if_splits list.splits option.splits dest!: IH)
qed

section \<open>Tokens\<close>

datatype token =
    TLBrace | TRBrace | TLBrack | TRBrack | TColon | TComma
  | TNull | TTrue | TFalse | TNum string | TStr string

definition is_ws :: "char \<Rightarrow> bool" where
  "is_ws c \<longleftrightarrow> c = CHR '' '' \<or> c = CHR 0x09 \<or> c = CHR 0x0A \<or> c = CHR 0x0D"

definition num_char :: "char \<Rightarrow> bool" where
  "num_char c \<longleftrightarrow> is_digit c \<or> c = CHR ''+'' \<or> c = CHR ''-'' \<or> c = CHR ''.'' \<or> c = CHR ''e'' \<or> c = CHR ''E''"

definition exponent_ok :: "string \<Rightarrow> bool" where
  "exponent_ok s =
     (case s of
        [] \<Rightarrow> True
      | c # t \<Rightarrow> (c = CHR ''e'' \<or> c = CHR ''E'') \<and>
          (let ds = (case t of d # u \<Rightarrow> if d = CHR ''+'' \<or> d = CHR ''-'' then u else t | [] \<Rightarrow> []) in ds \<noteq> [] \<and> list_all is_digit ds))"

definition fraction_ok :: "string \<Rightarrow> bool" where
  "fraction_ok s =
     (case s of
        c # t \<Rightarrow> if c = CHR ''.'' then takeWhile is_digit t \<noteq> [] \<and> exponent_ok (dropWhile is_digit t) else exponent_ok s
      | [] \<Rightarrow> True)"

definition json_number :: "string \<Rightarrow> bool" where
  "json_number s =
     (let t = (case s of c # u \<Rightarrow> if c = CHR ''-'' then u else s | [] \<Rightarrow> []);
          i = takeWhile is_digit t
      in i \<noteq> [] \<and> (length i = 1 \<or> hd i \<noteq> CHR ''0'') \<and> fraction_ok (dropWhile is_digit t))"

definition consume :: "token \<Rightarrow> token list option \<Rightarrow> token list option" where
  "consume t r = map_option ((#) t) r"

text \<open>
  No grammar rule puts two values side by side, so it does not matter that the lexer splits a word like
  \<^verbatim>\<open>truefalse\<close>: the machine rejects what the scanner rejects.
\<close>

fun lex :: "string \<Rightarrow> token list option" where
  "lex [] = Some []"
| "lex (c # s) =
     (if is_ws c then lex s
      else if c = CHR ''{'' then consume TLBrace (lex s)
      else if c = CHR ''}'' then consume TRBrace (lex s)
      else if c = CHR ''['' then consume TLBrack (lex s)
      else if c = CHR '']'' then consume TRBrack (lex s)
      else if c = CHR '':'' then consume TColon (lex s)
      else if c = CHR '','' then consume TComma (lex s)
      else if c = dq then (case lex_string s of None \<Rightarrow> None | Some (v, r) \<Rightarrow> consume (TStr v) (lex r))
      else if c = CHR ''-'' \<or> is_digit c then
        (if json_number (c # takeWhile num_char s)
         then consume (TNum (c # takeWhile num_char s)) (lex (drop (length (takeWhile num_char s)) s)) else None)
      else if take 4 (c # s) = ''null'' then consume TNull (lex (drop 3 s))
      else if take 4 (c # s) = ''true'' then consume TTrue (lex (drop 3 s))
      else if take 5 (c # s) = ''false'' then consume TFalse (lex (drop 4 s))
      else None)"

section \<open>The machine\<close>

datatype frame = FArr "json list" | FObj "(string \<times> json) list" string

datatype pmode = PValue | PFirst | PKey | PFirstKey | PColon string | PAfter | PDone json

definition maxNestingDepth :: nat where
  "maxNestingDepth = 10000"

text \<open>A value is complete: it goes into the array or object it is in, or it is the result.\<close>

definition complete :: "json \<Rightarrow> frame list \<Rightarrow> pmode \<times> frame list" where
  "complete v st =
     (case st of
        [] \<Rightarrow> (PDone v, [])
      | FArr vs # st' \<Rightarrow> (PAfter, FArr (vs @ [v]) # st')
      | FObj ms k # st' \<Rightarrow> (PAfter, FObj (ms @ [(k, v)]) [] # st'))"

definition start_value :: "frame list \<Rightarrow> token \<Rightarrow> (pmode \<times> frame list) option" where
  "start_value st t =
     (case t of
        TNull \<Rightarrow> Some (complete JNull st)
      | TTrue \<Rightarrow> Some (complete (JBool True) st)
      | TFalse \<Rightarrow> Some (complete (JBool False) st)
      | TNum s \<Rightarrow> Some (complete (JNum s) st)
      | TStr s \<Rightarrow> Some (complete (JStr s) st)
      | TLBrack \<Rightarrow> if length st < maxNestingDepth then Some (PFirst, FArr [] # st) else None
      | TLBrace \<Rightarrow> if length st < maxNestingDepth then Some (PFirstKey, FObj [] [] # st) else None
      | _ \<Rightarrow> None)"

definition end_array :: "frame list \<Rightarrow> (pmode \<times> frame list) option" where
  "end_array st = (case st of FArr vs # st' \<Rightarrow> Some (complete (JArr vs) st') | _ \<Rightarrow> None)"

definition end_object :: "frame list \<Rightarrow> (pmode \<times> frame list) option" where
  "end_object st = (case st of FObj ms k # st' \<Rightarrow> Some (complete (JObj ms) st') | _ \<Rightarrow> None)"

fun pstep :: "pmode \<Rightarrow> frame list \<Rightarrow> token \<Rightarrow> (pmode \<times> frame list) option" where
  "pstep PValue st t = start_value st t"
| "pstep PFirst st t = (if t = TRBrack then end_array st else start_value st t)"
| "pstep PFirstKey st t = (if t = TRBrace then end_object st else case t of TStr k \<Rightarrow> Some (PColon k, st) | _ \<Rightarrow> None)"
| "pstep PKey st t = (case t of TStr k \<Rightarrow> Some (PColon k, st) | _ \<Rightarrow> None)"
| "pstep (PColon k) st t =
     (case (t, st) of (TColon, FObj ms _ # st') \<Rightarrow> Some (PValue, FObj ms k # st') | _ \<Rightarrow> None)"
| "pstep PAfter st t =
     (case t of
        TComma \<Rightarrow> (case st of FArr _ # _ \<Rightarrow> Some (PValue, st) | FObj _ _ # _ \<Rightarrow> Some (PKey, st) | [] \<Rightarrow> None)
      | TRBrack \<Rightarrow> end_array st
      | TRBrace \<Rightarrow> end_object st
      | _ \<Rightarrow> None)"
| "pstep (PDone v) st t = None"

fun prun :: "pmode \<Rightarrow> frame list \<Rightarrow> token list \<Rightarrow> json option" where
  "prun m st [] = (case m of PDone v \<Rightarrow> Some v | _ \<Rightarrow> None)"
| "prun m st (t # ts) = (case pstep m st t of None \<Rightarrow> None | Some (m', st') \<Rightarrow> prun m' st' ts)"

definition json_read :: "string \<Rightarrow> json option" where
  "json_read s = (case lex s of None \<Rightarrow> None | Some ts \<Rightarrow> prun PValue [] ts)"

section \<open>The tokens of a value\<close>

fun tokens :: "json \<Rightarrow> token list" where
  "tokens JNull = [TNull]"
| "tokens (JBool b) = [if b then TTrue else TFalse]"
| "tokens (JNum s) = [TNum s]"
| "tokens (JStr s) = [TStr s]"
| "tokens (JArr []) = [TLBrack, TRBrack]"
| "tokens (JArr (x # xs)) = TLBrack # tokens x @ concat (map (\<lambda>y. TComma # tokens y) xs) @ [TRBrack]"
| "tokens (JObj []) = [TLBrace, TRBrace]"
| "tokens (JObj (x # xs)) =
     TLBrace # TStr (fst x) # TColon # tokens (snd x) @
     concat (map (\<lambda>y. TComma # TStr (fst y) # TColon # tokens (snd y)) xs) @ [TRBrace]"

fun depth :: "json \<Rightarrow> nat" where
  "depth (JArr xs) = Suc (Max (insert 0 (depth ` set xs)))"
| "depth (JObj ms) = Suc (Max (insert 0 ((\<lambda>p. depth (snd p)) ` set ms)))"
| "depth _ = 0"

lemma depth_member [simp]:
  "x \<in> set xs \<Longrightarrow> depth x < depth (JArr xs)" "p \<in> set ms \<Longrightarrow> depth (snd p) < depth (JObj ms)"
  by (simp_all add: less_Suc_eq_le)

text \<open>The machine reads the tokens of a value and completes it.\<close>

definition reads :: "json \<Rightarrow> bool" where
  "reads j \<longleftrightarrow> (\<forall>st ts m. m \<in> {PValue, PFirst} \<longrightarrow> length st + depth j \<le> maxNestingDepth \<longrightarrow>
     prun m st (tokens j @ ts) = (case complete j st of (m', st') \<Rightarrow> prun m' st' ts))"

lemma reads_elems:
  "\<forall>x \<in> set xs. reads x \<and> Suc (length st + depth x) \<le> maxNestingDepth \<Longrightarrow>
     prun PAfter (FArr vs # st) (concat (map (\<lambda>y. TComma # tokens y) xs) @ ts) = prun PAfter (FArr (vs @ xs) # st) ts"
  by (induction xs arbitrary: vs) (auto simp: reads_def complete_def)

lemma reads_members:
  "\<forall>p \<in> set ms. reads (snd p) \<and> Suc (length st + depth (snd p)) \<le> maxNestingDepth \<Longrightarrow>
     prun PAfter (FObj us [] # st) (concat (map (\<lambda>y. TComma # TStr (fst y) # TColon # tokens (snd y)) ms) @ ts) =
     prun PAfter (FObj (us @ ms) [] # st) ts"
  by (induction ms arbitrary: us) (auto simp: reads_def complete_def)

lemma reads_run:
  "reads j \<Longrightarrow> m = PValue \<or> m = PFirst \<Longrightarrow> length st + depth j \<le> maxNestingDepth \<Longrightarrow>
     prun m st (tokens j @ ts) = (case complete j st of (m', st') \<Rightarrow> prun m' st' ts)"
  unfolding reads_def by blast

lemma reads_array: "\<forall>x \<in> set xs. reads x \<Longrightarrow> reads (JArr xs)"
proof (cases xs)
  case Nil
  then show ?thesis by (auto simp: reads_def start_value_def end_array_def)
next
  case (Cons x ys)
  assume "\<forall>x \<in> set xs. reads x"
  show ?thesis
    unfolding reads_def
  proof (intro allI impI)
    fix st :: "frame list" and ts m
    assume m: "m \<in> {PValue, PFirst}" and d: "length st + depth (JArr xs) \<le> maxNestingDepth"
    have e: "reads y \<and> Suc (length st + depth y) \<le> maxNestingDepth" if "y \<in> set xs" for y
      using that d depth_member(1) [of y xs] \<open>\<forall>x \<in> set xs. reads x\<close> by simp
    have x: "prun PFirst (FArr [] # st) (tokens x @ us) = prun PAfter (FArr [x] # st) us" for us
      using e [of x] reads_run [of x PFirst "FArr [] # st" us] Cons by (simp add: complete_def)
    have "length st < maxNestingDepth" using e [of x] Cons by simp
    with m Cons e show "prun m st (tokens (JArr xs) @ ts) = (case complete (JArr xs) st of (m', st') \<Rightarrow> prun m' st' ts)"
      by (auto simp: start_value_def x reads_elems end_array_def)
  qed
qed

lemma reads_object: "\<forall>p \<in> set ms. reads (snd p) \<Longrightarrow> reads (JObj ms)"
proof (cases ms)
  case Nil
  then show ?thesis by (auto simp: reads_def start_value_def end_object_def)
next
  case (Cons x ys)
  assume "\<forall>p \<in> set ms. reads (snd p)"
  show ?thesis
    unfolding reads_def
  proof (intro allI impI)
    fix st :: "frame list" and ts m
    assume m: "m \<in> {PValue, PFirst}" and d: "length st + depth (JObj ms) \<le> maxNestingDepth"
    have e: "reads (snd y) \<and> Suc (length st + depth (snd y)) \<le> maxNestingDepth" if "y \<in> set ms" for y
      using that d depth_member(2) [of y ms] \<open>\<forall>p \<in> set ms. reads (snd p)\<close> by simp
    have x: "prun PValue (FObj [] (fst x) # st) (tokens (snd x) @ us) = prun PAfter (FObj [x] [] # st) us" for us
      using e [of x] reads_run [of "snd x" PValue "FObj [] (fst x) # st" us] Cons by (simp add: complete_def)
    have y: "\<forall>p \<in> set ys. reads (snd p) \<and> Suc (length st + depth (snd p)) \<le> maxNestingDepth"
      using e Cons by simp
    have "length st < maxNestingDepth" using e [of x] Cons by simp
    with m Cons show "prun m st (tokens (JObj ms) @ ts) = (case complete (JObj ms) st of (m', st') \<Rightarrow> prun m' st' ts)"
      by (auto simp: start_value_def x reads_members [OF y] end_object_def)
  qed
qed

lemma reads_all: "reads j"
proof (induction j)
  case (JArr xs)
  then show ?case by (intro reads_array) blast
next
  case (JObj ms)
  then show ?case by (intro reads_object) (metis snds.intros)
qed (auto simp: reads_def start_value_def)

theorem machine_reads_tokens: "depth j \<le> maxNestingDepth \<Longrightarrow> prun PValue [] (tokens j) = Some j"
  using reads_run [OF reads_all, of PValue "[]" j "[]"] by (simp add: complete_def)

section \<open>The round trip\<close>

text \<open>A value as the encoder writes it: valid UTF-8 in every string and number literals that are numbers.\<close>

fun printable :: "json \<Rightarrow> bool" where
  "printable (JNum s) = (json_number s \<and> list_all num_char s)"
| "printable (JStr s) = utf8_valid s"
| "printable (JArr xs) = list_all printable xs"
| "printable (JObj ms) = list_all (\<lambda>p. utf8_valid (fst p) \<and> printable (snd p)) ms"
| "printable _ = True"

lemma prepend_simp [simp]: "prepend x (Some (v, r)) = Some (x @ v, r)"
  by (simp add: prepend_def)

lemma byte_in_ascii: "byte_in 0 127 b \<longleftrightarrow> (of_char b :: nat) < 128"
  by (auto simp: byte_in_def)

lemma hex_val_digit [simp]: "d < 16 \<Longrightarrow> hex_val (hex_digit d) = Some d"
proof -
  assume "d < 16"
  then have "d \<in> {0, 1, 2, 3, 4, 5, 6, 7, 8, 9, 10, 11, 12, 13, 14, 15}"
    unfolding insert_iff empty_iff by presburger
  then show ?thesis by (auto simp: hex_digit_def hex_val_def)
qed

lemma hex4_byte: "n < 256 \<Longrightarrow> hex4 (CHR ''0'' # CHR ''0'' # hex_digit (n div 16) # hex_digit (n mod 16) # r) = Some n"
proof -
  assume "n < 256"
  then have "n div 16 < 16" by simp
  then show ?thesis
    by (simp add: hex4_def numeral_2_eq_2 numeral_3_eq_3 div_mult_mod_eq) (simp add: hex_val_def)
qed

lemma lex_quote_ascii: "byte_in 0 127 b \<Longrightarrow> lex_string (quote_ascii b @ r) = prepend [b] (lex_string r)"
proof -
  assume b: "byte_in 0 127 b"
  then have n: "(of_char b :: nat) < 128" by (simp add: byte_in_ascii)
  then have "utf8_encode (of_char b) = [b]" "\<not> is_surrogate (of_char b)"
    by (simp_all add: utf8_encode_def is_surrogate_def)
  with b n hex4_byte [of "of_char b" r] show ?thesis
    by (auto simp: quote_ascii_def simple_escape_def)
qed

lemma utf8_len_le: "utf8_len s \<le> length s"
  by (cases s) (simp_all add: utf8_len_def Let_def)

lemma utf8_len_append: "utf8_len s \<noteq> 0 \<Longrightarrow> utf8_len (s @ t) = utf8_len s"
proof -
  assume s: "utf8_len s \<noteq> 0"
  consider "s = []" | a where "s = [a]" | a b where "s = [a, b]" | a b c where "s = [a, b, c]" | a b c d u where "s = a # b # c # d # u"
    by (metis list.exhaust)
  then show ?thesis
    using s by cases (simp_all add: utf8_len_def Let_def split: if_splits)
qed

lemma utf8_len_ascii: "byte_in 0 127 b \<Longrightarrow> utf8_len (b # s) = 1"
  by (simp add: utf8_len_def)

lemma utf8_len_take: "utf8_len (take (utf8_len s) s) = utf8_len s"
proof -
  consider "s = []" | a where "s = [a]" | a b where "s = [a, b]" | a b c where "s = [a, b, c]" | a b c d u where "s = a # b # c # d # u"
    by (metis list.exhaust)
  then show ?thesis
    by cases (simp_all add: utf8_len_def Let_def)
qed

lemma utf8_encode_separators:
  "utf8_encode 8232 = [CHR 0xE2, CHR 0x80, CHR 0xA8]" "utf8_encode 8233 = [CHR 0xE2, CHR 0x80, CHR 0xA9]"
  by (simp_all add: utf8_encode_def is_surrogate_def char_of_def bit_0)

lemma lex_quote_rune:
  assumes "\<not> byte_in 0 127 b" and n: "utf8_len (b # s) \<noteq> 0"
  defines "r \<equiv> take (utf8_len (b # s)) (b # s)"
  shows "lex_string (quote_rune r @ t) = prepend r (lex_string t)"
proof (cases "r = [CHR 0xE2, CHR 0x80, CHR 0xA8] \<or> r = [CHR 0xE2, CHR 0x80, CHR 0xA9]")
  case True
  then show ?thesis
    by (auto simp: quote_rune_def hex4_def hex_val_def is_surrogate_def utf8_encode_separators numeral_2_eq_2 numeral_3_eq_3)
next
  case False
  obtain r' where r: "r = b # r'" using n by (cases "utf8_len (b # s)") (auto simp: r_def)
  have len: "utf8_len (b # r' @ t) = utf8_len (b # s)"
    using utf8_len_append [of r t] utf8_len_take [of "b # s"] n r unfolding r_def [symmetric] by simp
  have "length r = utf8_len (b # s)"
    using utf8_len_le [of "b # s"] by (simp add: r_def)
  then have "take (utf8_len (b # s)) (b # r' @ t) = r" "drop (utf8_len (b # s) - 1) (r' @ t) = t"
    unfolding r by (metis append_Cons append_eq_conv_conj, metis append_eq_conv_conj diff_Suc_1 length_Cons)
  moreover have "b \<noteq> dq" "b \<noteq> bsl" "\<not> (of_char b :: nat) < 32"
    using assms(1) by (auto simp: byte_in_def)
  ultimately have "lex_string (b # r' @ t) = prepend r (lex_string t)"
    using n assms(1) by (simp add: len Let_def del: drop_append)
  moreover have "quote_rune r = r" using False by (auto simp: quote_rune_def)
  ultimately show ?thesis using r by simp
qed

lemma lex_quote_body: "utf8_valid s \<Longrightarrow> lex_string (quote_body s @ dq # t) = Some (s, t)"
proof (induction s rule: quote_body.induct)
  case 1
  then show ?case by simp
next
  case (2 b s)
  then have n: "utf8_len (b # s) \<noteq> 0" and v: "utf8_valid (drop (utf8_len (b # s) - 1) s)"
    by simp_all
  then have s: "take (utf8_len (b # s)) (b # s) @ drop (utf8_len (b # s) - 1) s = b # s"
    by (cases "utf8_len (b # s)") auto
  show ?case
  proof (cases "byte_in 0 127 b")
    case True
    with 2 show ?thesis by (simp add: lex_quote_ascii utf8_len_ascii)
  next
    case False
    have "lex_string (quote_body (drop (utf8_len (b # s) - 1) s) @ dq # t) = Some (drop (utf8_len (b # s) - 1) s, t)"
      using 2(3) [OF False refl n v] by simp
    with s lex_quote_rune [OF False n] n False show ?thesis
      by (simp add: Let_def)
  qed
qed

subsection \<open>Texts\<close>

text \<open>
  \<open>lexes s ts\<close>: in front of any text that does not go on with a character of a number, the text \<open>s\<close> lexes to the tokens \<open>ts\<close>.
\<close>

definition no_num :: "string \<Rightarrow> bool" where
  "no_num r \<longleftrightarrow> takeWhile num_char r = []"

definition lexes :: "string \<Rightarrow> token list \<Rightarrow> bool" where
  "lexes s ts \<longleftrightarrow> (\<forall>r. no_num r \<longrightarrow> lex (s @ r) = map_option ((@) ts) (lex r))"

lemma no_num_Cons [simp]: "no_num (c # r) \<longleftrightarrow> \<not> num_char c" "no_num []"
  by (simp_all add: no_num_def)

lemma lex_ws: "list_all is_ws w \<Longrightarrow> lex (w @ r) = lex r"
  by (induction w) auto

lemma ws_margin [simp]: "list_all is_ws (json_margin d)"
  by (simp add: json_margin_def list_all_iff is_ws_def)

lemma lex_margin [simp]: "lex (json_margin d @ r) = lex r"
  by (rule lex_ws) simp

lemma lex_quote: "utf8_valid s \<Longrightarrow> lex (json_quote s @ r) = consume (TStr s) (lex r)"
  by (simp add: json_quote_def lex_quote_body is_ws_def)

lemma lexes_num:
  assumes "json_number s" "list_all num_char s" shows "lexes s [TNum s]"
proof -
  obtain c u where s: "s = c # u" using assms(1) by (cases s) (auto simp: json_number_def)
  with assms(1) have c: "c = CHR ''-'' \<or> is_digit c"
    by (auto simp: json_number_def Let_def split: if_splits)
  then have "\<not> is_ws c" "c \<notin> {CHR ''{'', CHR ''}'', CHR ''['', CHR '']'', CHR '':'', CHR '','', dq}"
    by (auto simp: is_ws_def is_digit_def)
  with c s assms(1) have lex: "lex (s @ r) = consume (TNum s) (lex r)" if "takeWhile num_char (u @ r) = u" for r
    using that by simp
  have "takeWhile num_char (u @ r) = u" if "no_num r" for r
    using that assms(2) s by (simp add: no_num_def takeWhile_append list_all_iff)
  then show ?thesis
    by (simp add: lexes_def lex consume_def append_Cons [abs_def])
qed

lemma consume_append: "consume t (map_option ((@) ts) x) = map_option ((@) (t # ts)) x"
  by (cases x) (simp_all add: consume_def)

lemma lexes_consume: "(\<And>r. lex (c # r) = consume t (lex r)) \<Longrightarrow> lexes s ts \<Longrightarrow> lexes (c # s) (t # ts)"
  by (simp add: lexes_def consume_append)

lemma lexes_Nil [simp]: "lexes [] []"
  by (simp add: lexes_def append_Nil [abs_def] option.map_ident)

lemma lexes_ws: "is_ws c \<Longrightarrow> lexes s ts \<Longrightarrow> lexes (c # s) ts" "lexes s ts \<Longrightarrow> lexes (json_margin d @ s) ts"
  by (simp_all add: lexes_def)

lemma lex_punctuation [simp]:
  "lex (CHR ''['' # r) = consume TLBrack (lex r)" "lex (CHR '']'' # r) = consume TRBrack (lex r)"
  "lex (CHR ''{'' # r) = consume TLBrace (lex r)" "lex (CHR ''}'' # r) = consume TRBrace (lex r)"
  "lex (CHR '':'' # r) = consume TColon (lex r)" "lex (CHR '','' # r) = consume TComma (lex r)"
  by (simp_all add: is_ws_def)

declare lex.simps(2) [simp del]

lemma no_num_punctuation [simp]:
  "\<not> num_char (CHR '']'')" "\<not> num_char (CHR ''}'')" "\<not> num_char (CHR '','')" "\<not> num_char nl"
  by (simp_all add: num_char_def is_digit_def)

lemma lexes_append: "lexes s ts \<Longrightarrow> lexes t us \<Longrightarrow> (\<And>r. no_num r \<Longrightarrow> no_num (t @ r)) \<Longrightarrow> lexes (s @ t) (ts @ us)"
  by (simp add: lexes_def option.map_comp comp_def append_assoc [abs_def])

lemma lexes_quote: "utf8_valid s \<Longrightarrow> lexes t ts \<Longrightarrow> lexes (json_quote s @ t) (TStr s # ts)"
  by (simp add: lexes_def lex_quote consume_append)

lemma lexes_join:
  "\<forall>x \<in> set (y # ys). lexes (f x) (g x) \<Longrightarrow>
     lexes (join ('','' @ [nl]) (map f (y # ys))) (g y @ concat (map (\<lambda>x. TComma # g x) ys))"
proof (induction ys arbitrary: y)
  case (Cons z ys)
  then have "lexes (join ('','' @ [nl]) (map f (z # ys))) (g z @ concat (map (\<lambda>x. TComma # g x) ys))"
    by simp
  then have "lexes (CHR '','' # nl # join ('','' @ [nl]) (map f (z # ys))) (TComma # g z @ concat (map (\<lambda>x. TComma # g x) ys))"
    by (intro lexes_consume [OF _ lexes_ws(1)]) (simp_all add: is_ws_def)
  with Cons.prems show ?case
    by (auto intro!: lexes_append)
qed simp

lemma lexes_closing: "c = CHR '']'' \<and> t = TRBrack \<or> c = CHR ''}'' \<and> t = TRBrace \<Longrightarrow> lexes (nl # json_margin d @ [c]) [t]"
  by (rule lexes_ws(1), simp add: is_ws_def, rule lexes_ws(2), rule lexes_consume) auto

lemma lexes_bracketed:
  assumes "\<forall>x \<in> set (y # ys). lexes (f x) (g x)"
    and "a = CHR ''['' \<and> t = TLBrack \<and> b = CHR '']'' \<and> u = TRBrack \<or> a = CHR ''{'' \<and> t = TLBrace \<and> b = CHR ''}'' \<and> u = TRBrace"
  shows "lexes (a # nl # join ('','' @ [nl]) (map f (y # ys)) @ nl # json_margin d @ [b])
           (t # g y @ concat (map (\<lambda>x. TComma # g x) ys) @ [u])"
proof -
  have "lexes (join ('','' @ [nl]) (map f (y # ys)) @ nl # json_margin d @ [b])
          ((g y @ concat (map (\<lambda>x. TComma # g x) ys)) @ [u])"
    using assms by (intro lexes_append lexes_join lexes_closing) auto
  then have "lexes (nl # join ('','' @ [nl]) (map f (y # ys)) @ nl # json_margin d @ [b])
          (g y @ concat (map (\<lambda>x. TComma # g x) ys) @ [u])"
    by (intro lexes_ws(1)) (simp_all add: is_ws_def)
  moreover have "lex (a # r) = consume t (lex r)" for r using assms(2) by auto
  ultimately show ?thesis by (intro lexes_consume)
qed

lemma lexes_json: "printable j \<Longrightarrow> lexes (json_indent d j) (tokens j)"
proof (induction d j rule: json_indent.induct)
  case (3 d s)
  then show ?case by (simp add: lexes_num)
next
  case (6 d x xs)
  then have "lexes (json_margin (Suc d) @ json_indent (Suc d) y) (tokens y)" if "y \<in> set (x # xs)" for y
    using that by (intro lexes_ws(2)) (auto simp: list_all_iff)
  then show ?case
    using lexes_bracketed [of x xs "\<lambda>y. json_margin (Suc d) @ json_indent (Suc d) y" tokens "CHR ''[''" TLBrack "CHR '']''" TRBrack d]
    by simp
next
  case (8 d x xs)
  have "lexes (json_margin (Suc d) @ json_quote (fst p) @ '': '' @ json_indent (Suc d) (snd p)) (TStr (fst p) # TColon # tokens (snd p))"
    if "p \<in> set (x # xs)" for p
  proof -
    have "utf8_valid (fst p)" "lexes (json_indent (Suc d) (snd p)) (tokens (snd p))"
      using 8(1) [of p] 8(2) that by (auto simp: list_all_iff)
    then have "lexes ('': '' @ json_indent (Suc d) (snd p)) (TColon # tokens (snd p))"
      by (simp add: lexes_consume lexes_ws(1) is_ws_def)
    with \<open>utf8_valid (fst p)\<close> show ?thesis
      by (intro lexes_ws(2) lexes_quote)
  qed
  then show ?case
    using lexes_bracketed [of x xs "\<lambda>p. json_margin (Suc d) @ json_quote (fst p) @ '': '' @ json_indent (Suc d) (snd p)"
      "\<lambda>p. TStr (fst p) # TColon # tokens (snd p)" "CHR ''{''" TLBrace "CHR ''}''" TRBrace d]
    by simp
qed (simp_all add: lex.simps(2) lexes_def lex_quote consume_def is_ws_def is_digit_def append_Cons [abs_def] option.map_comp comp_def)

text \<open>What \<^verbatim>\<open>json.MarshalIndent\<close> writes, \<^verbatim>\<open>json.Unmarshal\<close> reads back.\<close>

theorem json_read_indent: "printable j \<Longrightarrow> depth j \<le> maxNestingDepth \<Longrightarrow> json_read (json_indent d j) = Some j"
  using lexes_json [of j d] machine_reads_tokens [of j]
  by (simp add: json_read_def lexes_def) (metis append_Nil2 lex.simps(1) no_num_Cons(2) option.simps(5,9))

end
