(* ===== verification/Json_Utf8.thy ===== *)
theory Json_Utf8
  imports Json_Read
begin

text \<open>
  Whatever text is read, the strings of the value are valid UTF-8: invalid bytes and lone surrogates have become the
  replacement character. So what has been read once is written and read again without a loss.
\<close>

section \<open>Characters\<close>

text \<open>The encoding of one character.\<close>

definition utf8_char :: "string \<Rightarrow> bool" where
  "utf8_char x \<longleftrightarrow> x \<noteq> [] \<and> utf8_len x = length x"

lemma utf8_valid_char: "utf8_char x \<Longrightarrow> utf8_valid (x @ v) = utf8_valid v"
proof -
  assume x: "utf8_char x"
  then obtain a y where y: "x = a # y" by (cases x) (auto simp: utf8_char_def)
  from x have "utf8_len (x @ v) = length x" by (simp add: utf8_char_def utf8_len_append)
  with y show ?thesis by simp
qed

lemma utf8_char_take: "utf8_len s \<noteq> 0 \<Longrightarrow> utf8_char (take (utf8_len s) s)"
  using utf8_len_take [of s] utf8_len_le [of s] by (auto simp: utf8_char_def)

lemma of_char_char_of [simp]: "n < 256 \<Longrightarrow> (of_char (char_of n :: char) :: nat) = n"
  by simp

lemma utf8_char_replacement: "utf8_char replacement"
  by (simp add: utf8_char_def replacement_def utf8_len_def lead3_def byte_in_def)

lemma utf8_char_encode: "utf8_char (utf8_encode r)"
proof -
  consider "r < 0x80" | "0x80 \<le> r" "r < 0x800" | "0x800 \<le> r" "is_surrogate r \<or> 0x110000 \<le> r"
    | "0x800 \<le> r" "r < 0x10000" "\<not> is_surrogate r" | "0x10000 \<le> r" "r < 0x110000" "\<not> is_surrogate r"
    by linarith
  then show ?thesis
  proof cases
    case 1
    then show ?thesis by (simp add: utf8_encode_def utf8_char_def utf8_len_def byte_in_def)
  next
    case 2
    then have "0xC2 \<le> 0xC0 + r div 64" "0xC0 + r div 64 \<le> 0xDF" by simp_all
    moreover have "r mod 64 \<le> 63" using mod_less_divisor [of 64 r] by linarith
    ultimately show ?thesis using 2 by (simp add: utf8_encode_def utf8_char_def utf8_len_def byte_in_def Let_def)
  next
    case 3
    then show ?thesis by (auto simp: utf8_encode_def utf8_char_replacement)
  next
    case 4
    define q where "q = r div 64"
    have a: "r div 4096 = q div 64" by (simp add: q_def flip: div_mult2_eq)
    have q: "32 \<le> q" "q < 1024" "q < 864 \<or> 896 \<le> q"
      using 4 by (auto simp: q_def is_surrogate_def not_less)
    then have "q div 64 < 16" by simp
    have m: "q mod 64 < 64" "r mod 64 < 64" by simp_all
    have b: "q div 64 = 0 \<Longrightarrow> 32 \<le> q mod 64" "q div 64 = 13 \<Longrightarrow> q mod 64 < 32"
      using q m div_mult_mod_eq [of q 64] by linarith+
    have "lead3 (char_of (0xE0 + r div 4096)) (char_of (0x80 + r div 64 mod 64))"
  proof -
    consider "q div 64 = 0" | "1 \<le> q div 64" "q div 64 \<le> 12" | "q div 64 = 13" | "14 \<le> q div 64"
      by linarith
    then show ?thesis
      using m b \<open>q div 64 < 16\<close> unfolding lead3_def byte_in_def a q_def [symmetric] by cases simp_all
  qed
    with 4 m \<open>q div 64 < 16\<close> show ?thesis
      unfolding utf8_encode_def a q_def [symmetric]
      by (simp add: utf8_char_def utf8_len_def byte_in_def)
  next
    case 5
    define q where "q = r div 4096"
    have a: "r div 262144 = q div 64" by (simp add: q_def flip: div_mult2_eq)
    have q: "16 \<le> q" "q < 272" using 5 by (auto simp: q_def)
    then have "r div 262144 < 5" by (simp add: a)
    have m: "q mod 64 < 64" "r div 64 mod 64 < 64" "r mod 64 < 64" by simp_all
    have b: "q div 64 = 0 \<Longrightarrow> 16 \<le> q mod 64" "q div 64 = 4 \<Longrightarrow> q mod 64 < 16"
      using q m div_mult_mod_eq [of q 64] by linarith+
    have "lead4 (char_of (0xF0 + r div 262144)) (char_of (0x80 + r div 4096 mod 64))"
    proof -
      consider "q div 64 = 0" | "1 \<le> q div 64" "q div 64 \<le> 3" | "q div 64 = 4"
        using \<open>r div 262144 < 5\<close> a by linarith
      then show ?thesis
        using m b unfolding lead4_def byte_in_def a q_def [symmetric] by cases simp_all
    qed
    moreover have "\<not> lead3 (char_of (0xF0 + r div 262144)) x" for x
      using \<open>r div 262144 < 5\<close> by (simp add: lead3_def byte_in_def)
    moreover have "x mod 64 \<le> 63" for x :: nat
      using mod_less_divisor [of 64 x] by linarith
    ultimately show ?thesis
      using 5 m \<open>r div 262144 < 5\<close> by (simp add: utf8_encode_def utf8_char_def utf8_len_def byte_in_def q_def [symmetric])
  qed
qed

section \<open>Strings and tokens\<close>

lemma lex_string_utf8: "lex_string s = Some (v, r) \<Longrightarrow> utf8_valid v"
proof (induction s arbitrary: v rule: measure_induct_rule [where f = length])
  case (less s)
  have IH: "utf8_valid (x @ v')" if "lex_string t = Some (v', r)" "length t < length s" "utf8_char x" for t v' x
    using less.IH [OF that(2,1)] that(3) by (simp add: utf8_valid_char)
  have IH1: "utf8_valid (c # v')" if "lex_string t = Some (v', r)" "length t < length s" "byte_in 0 127 c" for t v' c
    using IH [OF that(1,2), of "[c]"] that(3) by (simp add: utf8_char_def utf8_len_def)
  have esc: "byte_in 0 127 x" if "simple_escape e = Some x" for e x
    using that by (auto simp: simple_escape_def byte_in_def split: if_splits)
  show ?case
  proof (cases s)
    case (Cons c t)
    with less.prems show ?thesis
      by (auto simp: Let_def simp del: utf8_valid.simps(2) take_Suc_Cons split: if_splits list.splits option.splits
          intro: IH1 IH utf8_char_encode utf8_char_replacement utf8_char_take esc)
  qed (use less.prems in simp)
qed

definition token_utf8 :: "token \<Rightarrow> bool" where
  "token_utf8 t = (case t of TStr v \<Rightarrow> utf8_valid v | _ \<Rightarrow> True)"

lemma consume_Some: "consume t r = Some ts \<longleftrightarrow> (\<exists>ts'. r = Some ts' \<and> ts = t # ts')"
  by (auto simp: consume_def)

lemma if_elim: "(if b then x else y) = z \<Longrightarrow> (b \<Longrightarrow> x = z \<Longrightarrow> P) \<Longrightarrow> (\<not> b \<Longrightarrow> y = z \<Longrightarrow> P) \<Longrightarrow> P"
  by (cases b) auto

lemma lex_Cons:
  assumes "lex (c # s) = Some ts"
    and skip: "\<And>t. lex t = Some ts \<Longrightarrow> length t \<le> length s \<Longrightarrow> P"
    and tok: "\<And>t ts' x. lex t = Some ts' \<Longrightarrow> ts = x # ts' \<Longrightarrow> length t \<le> length s \<Longrightarrow> token_utf8 x \<Longrightarrow> P"
  shows P
proof -
  have str: P if "lex_string s = Some (v, t)" "lex t = Some ts'" "ts = TStr v # ts'" for v t ts'
    using tok [OF that(2,3)] lex_string_length [OF that(1)] lex_string_utf8 [OF that(1)] by (simp add: token_utf8_def)
  have strs: P if "(case lex_string s of None \<Rightarrow> None | Some (v, r) \<Rightarrow> consume (TStr v) (lex r)) = Some ts"
    using that str by (auto simp: consume_Some split: option.splits)
  have nxt: P if "consume x (lex s) = Some ts" "token_utf8 x" for x
    using that tok by (auto simp: consume_Some)
  have jmp: P if "consume x (lex (drop n s)) = Some ts" "token_utf8 x" for n x
    using that tok by (fastforce simp: consume_Some)
  have u: "token_utf8 x" if "x \<in> {TLBrace, TRBrace, TLBrack, TRBrack, TColon, TComma, TNull, TTrue, TFalse, TNum d}" for x d
    using that by (auto simp: token_utf8_def)
  show ?thesis
    using assms(1) unfolding lex.simps(2)
    by (elim if_elim) (erule skip, simp | (erule nxt, rule u, simp) | erule strs | (erule jmp, rule u, simp) | simp)+
qed

lemma lex_utf8: "lex s = Some ts \<Longrightarrow> list_all token_utf8 ts"
proof (induction s arbitrary: ts rule: measure_induct_rule [where f = length])
  case (less s)
  show ?case
  proof (cases s)
    case (Cons c t)
    from less.prems [unfolded Cons] show ?thesis
      by (rule lex_Cons) (use less.IH Cons in \<open>force simp: less_Suc_eq_le\<close>)+
  qed (use less.prems in simp)
qed

section \<open>Values\<close>

fun json_utf8 :: "json \<Rightarrow> bool" where
  "json_utf8 (JStr s) = utf8_valid s"
| "json_utf8 (JArr xs) = list_all json_utf8 xs"
| "json_utf8 (JObj ms) = list_all (\<lambda>p. utf8_valid (fst p) \<and> json_utf8 (snd p)) ms"
| "json_utf8 _ = True"

fun frame_utf8 :: "frame \<Rightarrow> bool" where
  "frame_utf8 (FArr vs) = list_all json_utf8 vs"
| "frame_utf8 (FObj ms k) = (list_all (\<lambda>p. utf8_valid (fst p) \<and> json_utf8 (snd p)) ms \<and> utf8_valid k)"

fun mode_utf8 :: "pmode \<Rightarrow> bool" where
  "mode_utf8 (PColon k) = utf8_valid k"
| "mode_utf8 (PDone v) = json_utf8 v"
| "mode_utf8 _ = True"

abbreviation machine_utf8 :: "pmode \<times> frame list \<Rightarrow> bool" where
  "machine_utf8 s \<equiv> mode_utf8 (fst s) \<and> list_all frame_utf8 (snd s)"

lemma complete_utf8: "json_utf8 v \<Longrightarrow> list_all frame_utf8 st \<Longrightarrow> machine_utf8 (complete v st)"
  by (auto simp: complete_def split: list.split frame.split)

lemma start_value_utf8: "start_value st t = Some s \<Longrightarrow> token_utf8 t \<Longrightarrow> list_all frame_utf8 st \<Longrightarrow> machine_utf8 s"
  by (auto simp: start_value_def token_utf8_def complete_utf8 split: token.splits if_splits)

lemma end_utf8:
  "end_array st = Some s \<Longrightarrow> list_all frame_utf8 st \<Longrightarrow> machine_utf8 s"
  "end_object st = Some s \<Longrightarrow> list_all frame_utf8 st \<Longrightarrow> machine_utf8 s"
  by (auto simp: end_array_def end_object_def complete_utf8 split: list.splits frame.splits)

lemma pstep_utf8: "pstep m st t = Some s \<Longrightarrow> token_utf8 t \<Longrightarrow> machine_utf8 (m, st) \<Longrightarrow> machine_utf8 s"
proof (induction m st t rule: pstep.induct)
  case (2 st t)
  then show ?case using end_utf8(1) start_value_utf8 by (fastforce split: if_splits)
next
  case (3 st t)
  then show ?case using end_utf8(2) by (fastforce simp: token_utf8_def split: if_splits token.splits)
next
  case (6 st t)
  then show ?case using end_utf8 by (fastforce split: token.splits list.splits frame.splits)
qed (auto simp: token_utf8_def dest: start_value_utf8 split: token.splits list.splits frame.splits)

lemma prun_utf8: "prun m st ts = Some j \<Longrightarrow> list_all token_utf8 ts \<Longrightarrow> machine_utf8 (m, st) \<Longrightarrow> json_utf8 j"
proof (induction m st ts rule: prun.induct)
  case (2 m st t ts)
  then obtain m' st' where s: "pstep m st t = Some (m', st')" by (auto split: option.splits)
  have "machine_utf8 (m', st')" using pstep_utf8 [OF s] 2(3,4) by simp
  with 2 s show ?case by simp
qed (auto split: pmode.splits)

theorem json_read_utf8: "json_read s = Some j \<Longrightarrow> json_utf8 j"
  using lex_utf8 [of s] prun_utf8 [of PValue "[]"] by (auto simp: json_read_def split: option.splits)

end
