(* ===== verification/Deployment_Json.thy ===== *)
theory Deployment_Json
  imports Deployment Json_Utf8
begin

text \<open>
  \<^verbatim>\<open>json.Unmarshal\<close> into the types of the repository: the name of a struct field is matched exactly or else
  up to case, \<^verbatim>\<open>null\<close> leaves a string or a struct as it is and makes a slice or a map nil, and a value of the
  wrong type is skipped and reported as an error at the end, so that the caller gets an error
  and what could be decoded. \<^verbatim>\<open>DeploymentConfigFromJSON\<close> of \<^verbatim>\<open>pkg/config/deployment.go\<close> is built from it.
\<close>

section \<open>Field names\<close>

definition to_upper :: "char \<Rightarrow> char" where
  "to_upper c = (let n = of_char c :: nat in if 97 \<le> n \<and> n \<le> 122 then char_of (n - 32) else c)"

text \<open>
  The folded form of a name. Besides the letters of ASCII only the long s (U+017F) and the Kelvin sign (U+212A)
  fold to a letter of ASCII, and all names of fields are ASCII.
\<close>

fun fold_name :: "string \<Rightarrow> string" where
  "fold_name [] = []"
| "fold_name (c # s) =
     (if take 2 (c # s) = [CHR 0xC5, CHR 0xBF] then CHR ''S'' # fold_name (drop 1 s)
      else if take 3 (c # s) = [CHR 0xE2, CHR 0x84, CHR 0xAA] then CHR ''K'' # fold_name (drop 2 s)
      else to_upper c # fold_name s)"

definition field_of :: "string list \<Rightarrow> string \<Rightarrow> string option" where
  "field_of names key =
     (if key \<in> set names then Some key else find (\<lambda>n. fold_name n = fold_name key) names)"

section \<open>Values\<close>

text \<open>
  A decoder takes a value of JSON and what the variable holds, and gives what it holds afterwards and
  whether some part did not fit.
\<close>

type_synonym 'a decoder = "json \<Rightarrow> 'a \<Rightarrow> 'a \<times> bool"

definition decode_string :: "string decoder" where
  "decode_string j s = (case j of JStr t \<Rightarrow> (t, False) | JNull \<Rightarrow> (s, False) | _ \<Rightarrow> (s, True))"

definition decode_bool :: "bool decoder" where
  "decode_bool j b = (case j of JBool c \<Rightarrow> (c, False) | JNull \<Rightarrow> (b, False) | _ \<Rightarrow> (b, True))"

definition decode_int :: "int decoder" where
  "decode_int j i =
     (case j of
        JNum s \<Rightarrow> (case strconv_Atoi s of Inr k \<Rightarrow> (k, False) | Inl e \<Rightarrow> (i, True))
      | JNull \<Rightarrow> (i, False)
      | _ \<Rightarrow> (i, True))"

text \<open>
  A slice of strings with the elements its array still holds behind its end. An array is decoded
  into the elements that are there, so a \<^verbatim>\<open>null\<close> keeps an old element, also one behind the end.
\<close>

type_synonym slice = "string list option \<times> string list"

fun decode_elems :: "json list \<Rightarrow> string list \<Rightarrow> string list \<times> string list \<times> bool" where
  "decode_elems [] old = ([], old, False)"
| "decode_elems (j # js) old =
     (let (s, e) = decode_string j (case old of [] \<Rightarrow> [] | x # _ \<Rightarrow> x);
          (ss, rest, es) = decode_elems js (tl old)
      in (s # ss, rest, e \<or> es))"

definition decode_slice :: "slice decoder" where
  "decode_slice j v =
     (case j of
        JNull \<Rightarrow> ((None, []), False)
      | JArr [] \<Rightarrow> ((Some [], []), False)
      | JArr js \<Rightarrow>
          (let (ss, rest, e) = decode_elems js ((case fst v of None \<Rightarrow> [] | Some xs \<Rightarrow> xs) @ snd v)
           in ((Some ss, rest), e))
      | _ \<Rightarrow> (v, True))"

text \<open>The members of an object into a struct: \<open>set_field\<close> decodes into the field of that name.\<close>

fun decode_fields :: "string list \<Rightarrow> (string \<Rightarrow> 'a decoder) \<Rightarrow> (string \<times> json) list \<Rightarrow> 'a \<Rightarrow> 'a \<times> bool" where
  "decode_fields names set_field [] v = (v, False)"
| "decode_fields names set_field ((key, j) # ms) v =
     (let (v1, e1) = (case field_of names key of None \<Rightarrow> (v, False) | Some n \<Rightarrow> set_field n j v);
          (v2, e2) = decode_fields names set_field ms v1
      in (v2, e1 \<or> e2))"

definition decode_struct :: "string list \<Rightarrow> (string \<Rightarrow> 'a decoder) \<Rightarrow> 'a decoder" where
  "decode_struct names set_field j v =
     (case j of
        JObj ms \<Rightarrow> decode_fields names set_field ms v
      | JNull \<Rightarrow> (v, False)
      | _ \<Rightarrow> (v, True))"

text \<open>\<^verbatim>\<open>json.Unmarshal\<close>: an invalid text changes nothing.\<close>

definition json_Unmarshal :: "'a decoder \<Rightarrow> string \<Rightarrow> 'a \<Rightarrow> 'a \<times> go_error option" where
  "json_Unmarshal dec str v =
     (case json_read str of
        None \<Rightarrow> (v, Some (ExternalError ''SyntaxError''))
      | Some j \<Rightarrow>
          (let (v', e) = dec j v in (v', if e then Some (ExternalError ''UnmarshalTypeError'') else None)))"

section \<open>Deployment configurations\<close>

definition nodeconfig_field :: "string \<Rightarrow> (NodeConfig \<times> string list) decoder" where
  "nodeconfig_field f j = (\<lambda>(n, stale).
     if f = ''state'' then (let (s, e) = decode_string j (State n) in ((n\<lparr>State := s\<rparr>, stale), e))
     else (let ((is, stale'), e) = decode_slice j (Images n, stale) in ((n\<lparr>Images := is\<rparr>, stale'), e)))"

definition decode_NodeConfig :: "json \<Rightarrow> NodeConfig \<times> bool" where
  "decode_NodeConfig j =
     (let ((n, stale), e) =
        decode_struct [''state'', ''container''] nodeconfig_field j (\<lparr>State = [], Images = None\<rparr>, [])
      in (n, e))"

text \<open>Every entry of the map is decoded from the zero value.\<close>

fun decode_nodes :: "(string \<times> json) list \<Rightarrow> DeploymentConfig \<Rightarrow> DeploymentConfig \<times> bool" where
  "decode_nodes [] d = (d, False)"
| "decode_nodes ((hostname, j) # ms) d =
     (let (n, e1) = decode_NodeConfig j;
          (d', e2) = decode_nodes ms (d(hostname \<mapsto> n))
      in (d', e1 \<or> e2))"

definition decode_DeploymentConfig :: "DeploymentConfig option decoder" where
  "decode_DeploymentConfig j d =
     (case j of
        JNull \<Rightarrow> (None, False)
      | JObj ms \<Rightarrow>
          (let (d', e) = decode_nodes ms (case d of None \<Rightarrow> Map.empty | Some m \<Rightarrow> m) in (Some d', e))
      | _ \<Rightarrow> (d, True))"

definition DeploymentConfigFromJSON :: "string \<Rightarrow> DeploymentConfig option \<times> go_error option" where
  "DeploymentConfigFromJSON str = json_Unmarshal decode_DeploymentConfig str None"

section \<open>Rules\<close>

text \<open>Every string of the configuration is valid UTF-8.\<close>

definition utf8_entries :: "(string \<times> NodeConfig) list \<Rightarrow> bool" where
  "utf8_entries kvs = list_all (\<lambda>(h, n). utf8_valid h \<and> utf8_valid (State n) \<and> list_all utf8_valid (image_list n)) kvs"

lemma decode_elems_strings: "decode_elems (map JStr is) old = (is, drop (length is) old, False)"
  by (induction "is" arbitrary: old) (simp_all add: decode_string_def drop_Suc)

lemma decode_NodeConfig_json [simp]: "decode_NodeConfig (json_of_NodeConfig n) = (n, False)"
proof -
  have "decode_slice (case Images n of None \<Rightarrow> JNull | Some is \<Rightarrow> JArr (map JStr is)) (None, []) = ((Images n, []), False)"
    by (cases "Images n"; cases "the (Images n)") (simp_all add: decode_slice_def decode_string_def decode_elems_strings)
  then show ?thesis
    by (cases n) (simp add: decode_NodeConfig_def json_of_NodeConfig_def decode_struct_def field_of_def nodeconfig_field_def decode_string_def)
qed

lemma decode_nodes_json:
  "decode_nodes (map (\<lambda>(h, n). (h, json_of_NodeConfig n)) kvs) d = (d ++ map_of (rev kvs), False)"
proof (induction kvs arbitrary: d)
  case (Cons kv kvs)
  obtain h n where "kv = (h, n)" by fastforce
  with Cons show ?case by (auto simp: fun_upd_def map_add_def fun_eq_iff split: option.splits)
qed simp

lemma decode_nodes_dom: "dom (fst (decode_nodes ms d)) = fst ` set ms \<union> dom d"
proof (induction ms arbitrary: d)
  case (Cons m ms)
  obtain h j where m: "m = (h, j)" by fastforce
  obtain n e where n: "decode_NodeConfig j = (n, e)" by fastforce
  obtain d' e' where d': "decode_nodes ms (d(h \<mapsto> n)) = (d', e')" by fastforce
  then have "decode_nodes (m # ms) d = (d', e \<or> e')" by (simp add: m n)
  moreover have "dom d' = fst ` set ms \<union> insert h (dom d)" 
    using Cons [of "d(h \<mapsto> n)"] by (simp only: d' fst_conv dom_fun_upd option.distinct if_False)
  ultimately show ?case by (auto simp: m)
qed simp

lemma json_of_NodeConfig_ok:
  "utf8_valid (State n) \<Longrightarrow> list_all utf8_valid (image_list n) \<Longrightarrow>
     printable (json_of_NodeConfig n) \<and> depth (json_of_NodeConfig n) \<le> 2"
  by (cases "Images n") (auto simp: json_of_NodeConfig_def image_list_def list_all_iff utf8_len_def byte_in_def image_image image_constant_conv)

lemma utf8_entries_cong: "set kvs = set kvs' \<Longrightarrow> utf8_entries kvs = utf8_entries kvs'"
  by (simp add: utf8_entries_def list_all_iff)

lemma map_of_rev_distinct: "distinct (map fst kvs) \<Longrightarrow> map_of (rev kvs) = map_of kvs"
  by (rule map_of_inject_set [THEN iffD2]) (simp_all add: rev_map [symmetric])

lemma json_of_entries_ok:
  assumes "utf8_entries kvs"
  defines "j \<equiv> JObj (map (\<lambda>(h, n). (h, json_of_NodeConfig n)) kvs)"
  shows "printable j" and "depth j \<le> maxNestingDepth"
proof -
  have ok: "printable (json_of_NodeConfig n) \<and> depth (json_of_NodeConfig n) \<le> 2 \<and> utf8_valid h" if "(h, n) \<in> set kvs" for h n
    using that assms(1) json_of_NodeConfig_ok by (fastforce simp: utf8_entries_def list_all_iff)
  then show "printable j"
    by (auto simp: j_def list_all_iff)
  from ok have "depth j \<le> 3"
    by (force simp: j_def)
  then show "depth j \<le> maxNestingDepth"
    by (simp add: maxNestingDepth_def)
qed

text \<open>What is decoded is valid UTF-8, whatever the text was.\<close>

definition node_utf8 :: "NodeConfig \<Rightarrow> bool" where
  "node_utf8 n \<longleftrightarrow> utf8_valid (State n) \<and> list_all utf8_valid (image_list n)"

definition config_utf8 :: "DeploymentConfig \<Rightarrow> bool" where
  "config_utf8 d \<longleftrightarrow> finite (dom d) \<and> (\<forall>h n. d h = Some n \<longrightarrow> utf8_valid h \<and> node_utf8 n)"

definition slice_utf8 :: "slice \<Rightarrow> bool" where
  "slice_utf8 v \<longleftrightarrow> list_all utf8_valid (case fst v of None \<Rightarrow> [] | Some xs \<Rightarrow> xs) \<and> list_all utf8_valid (snd v)"

lemma decode_string_utf8: "decode_string j s = (s', e) \<Longrightarrow> json_utf8 j \<Longrightarrow> utf8_valid s \<Longrightarrow> utf8_valid s'"
  by (auto simp: decode_string_def split: json.splits)

lemma decode_elems_utf8:
  "decode_elems js old = (ss, rest, e) \<Longrightarrow> list_all json_utf8 js \<Longrightarrow> list_all utf8_valid old \<Longrightarrow>
     list_all utf8_valid ss \<and> list_all utf8_valid rest"
proof (induction js old arbitrary: ss rest e rule: decode_elems.induct)
  case (2 j js old)
  obtain s e1 ss' rest' e2 where d: "decode_string j (case old of [] \<Rightarrow> [] | x # _ \<Rightarrow> x) = (s, e1)" "decode_elems js (tl old) = (ss', rest', e2)"
    by (metis prod.exhaust)
  have "utf8_valid (case old of [] \<Rightarrow> [] | x # _ \<Rightarrow> x)" "list_all utf8_valid (tl old)" using 2(4) by (cases old; simp)+
  with 2 d decode_string_utf8 [OF d(1)] show ?case by auto
qed simp

lemma decode_slice_utf8:
  assumes "decode_slice j v = (v', e)" "json_utf8 j" "slice_utf8 v"
  shows "slice_utf8 v'"
proof (cases "\<exists>x xs. j = JArr (x # xs)")
  case True
  then obtain x xs where j: "j = JArr (x # xs)" by blast
  let ?old = "(case fst v of None \<Rightarrow> [] | Some xs \<Rightarrow> xs) @ snd v"
  obtain ss rest e' where d: "decode_elems (x # xs) ?old = (ss, rest, e')" by (metis prod.exhaust)
  then have "v' = (Some ss, rest)" using assms(1) j by (simp add: decode_slice_def del: decode_elems.simps)
  moreover have "list_all utf8_valid ss \<and> list_all utf8_valid rest"
    using decode_elems_utf8 [OF d] assms(2,3) j by (simp add: slice_utf8_def)
  ultimately show ?thesis by (simp add: slice_utf8_def)
qed (use assms in \<open>auto simp: decode_slice_def slice_utf8_def split: json.splits list.splits\<close>)

lemma nodeconfig_field_utf8:
  "nodeconfig_field f j (n, st) = ((n', st'), e) \<Longrightarrow> json_utf8 j \<Longrightarrow> node_utf8 n \<and> list_all utf8_valid st \<Longrightarrow> node_utf8 n' \<and> list_all utf8_valid st'"
  using decode_slice_utf8 [of j "(Images n, st)"]
  by (auto simp: nodeconfig_field_def node_utf8_def image_list_def slice_utf8_def dest: decode_string_utf8 split: if_splits prod.splits option.splits)

lemma decode_fields_nodeconfig_utf8:
  "decode_fields names nodeconfig_field ms v = (v', e) \<Longrightarrow> json_utf8 (JObj ms) \<Longrightarrow>
     node_utf8 (fst v) \<and> list_all utf8_valid (snd v) \<Longrightarrow> node_utf8 (fst v') \<and> list_all utf8_valid (snd v')"
proof (induction ms arbitrary: v e)
  case (Cons m ms)
  obtain k j where m: "m = (k, j)" by fastforce
  obtain v1 e1 where v1: "(case field_of names k of None \<Rightarrow> (v, False) | Some n \<Rightarrow> nodeconfig_field n j v) = (v1, e1)" by fastforce
  obtain e2 where "decode_fields names nodeconfig_field ms v1 = (v', e2)" using Cons.prems(1) m v1 by (auto split: prod.splits)
  moreover have "node_utf8 (fst v1) \<and> list_all utf8_valid (snd v1)"
    using v1 Cons.prems(2,3) m nodeconfig_field_utf8 [of _ j "fst v" "snd v" "fst v1" "snd v1" e1] by (auto split: option.splits)
  ultimately show ?case using Cons by simp
qed simp

lemma decode_NodeConfig_utf8: "decode_NodeConfig j = (n, e) \<Longrightarrow> json_utf8 j \<Longrightarrow> node_utf8 n"
proof -
  assume a: "decode_NodeConfig j = (n, e)" "json_utf8 j"
  have "node_utf8 \<lparr>State = [], Images = None\<rparr>" by (simp add: node_utf8_def image_list_def)
  with a decode_fields_nodeconfig_utf8 [of _ _ "(\<lparr>State = [], Images = None\<rparr>, [])"] show ?thesis
    by (fastforce simp: decode_NodeConfig_def decode_struct_def split: json.splits prod.splits)
qed

lemma decode_nodes_utf8: "decode_nodes ms d = (d', e) \<Longrightarrow> json_utf8 (JObj ms) \<Longrightarrow> config_utf8 d \<Longrightarrow> config_utf8 d'"
proof (induction ms arbitrary: d e)
  case (Cons m ms)
  obtain h j where m: "m = (h, j)" by fastforce
  obtain n e1 where n: "decode_NodeConfig j = (n, e1)" by fastforce
  obtain e2 where "decode_nodes ms (d(h \<mapsto> n)) = (d', e2)" using Cons.prems(1) m n by (auto split: prod.splits)
  moreover have "config_utf8 (d(h \<mapsto> n))"
    using Cons.prems(2,3) m decode_NodeConfig_utf8 [OF n] by (auto simp: config_utf8_def)
  ultimately show ?case using Cons by simp
qed simp

lemma DeploymentConfigFromJSON_utf8: "DeploymentConfigFromJSON str = (Some d, e) \<Longrightarrow> config_utf8 d"
proof -
  assume a: "DeploymentConfigFromJSON str = (Some d, e)"
  have "config_utf8 Map.empty" by (simp add: config_utf8_def)
  with a show ?thesis
    by (auto simp: DeploymentConfigFromJSON_def json_Unmarshal_def decode_DeploymentConfig_def
        dest!: json_read_utf8 intro: decode_nodes_utf8 split: option.splits json.splits prod.splits)
qed

lemma config_utf8_entries: "range_of kvs d \<Longrightarrow> config_utf8 d \<Longrightarrow> utf8_entries kvs"
  by (auto simp: config_utf8_def utf8_entries_def list_all_iff node_utf8_def range_of_mem)

lemma json_round_trip:
  assumes "range_of kvs d" and "utf8_entries kvs"
  shows "\<exists>str. (\<forall>kvs'. range_of kvs' d \<longrightarrow> DeploymentConfig_JSON (Some kvs') = Inr str) \<and>
    DeploymentConfigFromJSON str = (Some d, None)"
proof -
  let ?s = "sort_key fst kvs"
  let ?j = "JObj (map (\<lambda>(h, n). (h, json_of_NodeConfig n)) ?s)"
  have d: "distinct (map fst kvs)" "map_of kvs = d" using assms(1) by (auto simp: range_of_def)
  have "utf8_entries ?s" using assms(2) utf8_entries_cong [of ?s kvs] by simp
  from json_read_indent [OF json_of_entries_ok [OF this]]
  have read: "json_read (json_indent 0 ?j) = Some ?j" .
  have "distinct (map fst ?s)" using d(1) by (simp add: distinct_map)
  then have "map_of (rev ?s) = d"
    using d map_of_inject_set [of ?s kvs] by (simp add: map_of_rev_distinct)
  then have "DeploymentConfigFromJSON (json_indent 0 ?j) = (Some d, None)"
    by (simp add: DeploymentConfigFromJSON_def json_Unmarshal_def read decode_DeploymentConfig_def decode_nodes_json)
  moreover have "DeploymentConfig_JSON (Some kvs') = Inr (json_indent 0 ?j)" if "range_of kvs' d" for kvs'
  proof -
    have "set kvs' = set kvs" using that d map_of_inject_set [of kvs' kvs] by (auto simp: range_of_def)
    with that d sorted_key_unique [of kvs' kvs] show ?thesis
      by (simp add: DeploymentConfig_JSON_def range_of_def)
  qed
  ultimately show ?thesis by blast
qed

section \<open>Values that fit\<close>

fun fits_string :: "json \<Rightarrow> bool" where
  "fits_string (JStr s) = True"
| "fits_string JNull = True"
| "fits_string _ = False"

fun fits_slice :: "json \<Rightarrow> bool" where
  "fits_slice JNull = True"
| "fits_slice (JArr js) = list_all fits_string js"
| "fits_slice _ = False"

text \<open>The members of a node: other names than those of the two fields are ignored.\<close>

definition fits_member :: "string \<times> json \<Rightarrow> bool" where
  "fits_member kj =
     (case field_of [''state'', ''container''] (fst kj) of
        None \<Rightarrow> True
      | Some f \<Rightarrow> if f = ''state'' then fits_string (snd kj) else fits_slice (snd kj))"

fun fits_node :: "json \<Rightarrow> bool" where
  "fits_node JNull = True"
| "fits_node (JObj ms) = list_all fits_member ms"
| "fits_node _ = False"

lemma decode_string_error: "snd (decode_string j s) \<longleftrightarrow> \<not> fits_string j"
  by (cases j) (simp_all add: decode_string_def)

lemma decode_elems_error: "snd (snd (decode_elems js old)) \<longleftrightarrow> \<not> list_all fits_string js"
  by (induction js arbitrary: old) (simp_all add: Let_def case_prod_beta decode_string_error)

lemma decode_slice_error: "snd (decode_slice j v) \<longleftrightarrow> \<not> fits_slice j"
proof (cases j)
  case (JArr js)
  then show ?thesis
    by (cases js) (simp_all add: decode_slice_def case_prod_beta Let_def decode_elems_error del: decode_elems.simps)
qed (simp_all add: decode_slice_def)

lemma nodeconfig_field_error: "snd (nodeconfig_field f j v) \<longleftrightarrow> \<not> (if f = ''state'' then fits_string j else fits_slice j)"
  by (simp add: nodeconfig_field_def case_prod_beta Let_def decode_string_error decode_slice_error)

lemma decode_node_fields_error:
  "snd (decode_fields [''state'', ''container''] nodeconfig_field ms v) \<longleftrightarrow> \<not> list_all fits_member ms"
proof (induction ms arbitrary: v)
  case (Cons kj ms)
  obtain k j where "kj = (k, j)" by (cases kj)
  with Cons.IH show ?case
    by (cases "field_of [''state'', ''container''] k") (simp_all add: Let_def case_prod_beta fits_member_def nodeconfig_field_error)
qed simp

lemma decode_NodeConfig_error: "snd (decode_NodeConfig j) \<longleftrightarrow> \<not> fits_node j"
  by (cases j) (simp_all add: decode_NodeConfig_def decode_struct_def Let_def case_prod_beta decode_node_fields_error)

lemma decode_nodes_eq:
  "decode_nodes ms d =
     (\<lambda>h. case map_of (rev ms) h of None \<Rightarrow> d h | Some j \<Rightarrow> Some (fst (decode_NodeConfig j)), \<not> list_all (\<lambda>(h, j). fits_node j) ms)"
proof (induction ms arbitrary: d)
  case (Cons kj ms)
  obtain k j where "kj = (k, j)" by (cases kj)
  with Cons.IH show ?case
    by (auto simp: Let_def case_prod_beta fun_eq_iff map_add_def decode_NodeConfig_error split: option.split)
qed simp

section \<open>Properties\<close>

text \<open>
  C6. Every deployment configuration whose strings are valid UTF-8 survives being written as JSON and read
  again, nil and empty image lists included, and the text does not depend on the iteration order of the map.
\<close>

theorem deployment_json_round_trip:
  assumes "range_of kvs d" and "utf8_entries kvs"
  shows "\<exists>str. (\<forall>kvs'. range_of kvs' d \<longrightarrow> DeploymentConfig_JSON (Some kvs') = Inr str) \<and>
    DeploymentConfigFromJSON str = (Some d, None)"
  by (rule json_round_trip [OF assms])

theorem deployment_json_round_trip_witness:
  "\<exists>str. DeploymentConfig_JSON (Some [(''hpc-2'', \<lparr>State = NodeStateRunning, Images = Some [''a:1'']\<rparr>), (''hpc-1'', \<lparr>State = NodeStateStopped, Images = None\<rparr>)]) = Inr str \<and>
     DeploymentConfigFromJSON str =
       (Some [''hpc-1'' \<mapsto> \<lparr>State = NodeStateStopped, Images = None\<rparr>, ''hpc-2'' \<mapsto> \<lparr>State = NodeStateRunning, Images = Some [''a:1'']\<rparr>], None)"
  (is "\<exists>str. DeploymentConfig_JSON (Some ?kvs) = _ \<and> _ = (Some ?d, _)")
proof -
  have "range_of ?kvs ?d" by (auto simp: range_of_def fun_eq_iff)
  moreover have "utf8_entries ?kvs"
    by (simp add: utf8_entries_def image_list_def go_data utf8_len_def byte_in_def)
  ultimately show ?thesis
    using deployment_json_round_trip [of ?kvs ?d] by blast
qed

text \<open>
  C27. What a text gives. A text that is not JSON is a syntax error, and a value that is neither an object nor \<^verbatim>\<open>null\<close> a type error, both with a nil map; \<^verbatim>\<open>null\<close>
  gives nil without an error. An object gives a map of all its keys, the last entry of a key counting, and an error exactly when one of its
  entries does not fit: it is neither \<^verbatim>\<open>null\<close> nor an object whose state is a string and whose containers are a list of strings, where \<^verbatim>\<open>null\<close> stands for either.
\<close>

theorem deployment_from_json_results:
  "DeploymentConfigFromJSON str =
     (case json_read str of
        None \<Rightarrow> (None, Some (ExternalError ''SyntaxError''))
      | Some JNull \<Rightarrow> (None, None)
      | Some (JObj ms) \<Rightarrow>
          (Some (\<lambda>h. map_option (fst \<circ> decode_NodeConfig) (map_of (rev ms) h)),
           if list_all (\<lambda>(h, j). fits_node j) ms then None else Some (ExternalError ''UnmarshalTypeError''))
      | Some _ \<Rightarrow> (None, Some (ExternalError ''UnmarshalTypeError'')))"
  by (auto simp: DeploymentConfigFromJSON_def json_Unmarshal_def decode_DeploymentConfig_def decode_nodes_eq split: option.splits json.splits)

end
