(* ===== verification/Command_Line.thy ===== *)
theory Command_Line
  imports Go_Prelude
begin

text \<open>
  The package \<^verbatim>\<open>flag\<close> as \<^verbatim>\<open>pkg/config/config.go\<close> uses it: boolean, string and integer flags bound to the fields of a
  structure, and \<^verbatim>\<open>flag.Parse\<close>, which ends the process when an argument is wrong. Integers are read by
  \<^verbatim>\<open>strconv.ParseInt\<close> with base 0, so prefixes and underscores are accepted.
\<close>

section \<open>Values\<close>

datatype flag_kind = KBool | KString | KInt

datatype flag_value = FBool bool | FString string | FInt int

definition to_lower :: "char \<Rightarrow> char" where
  "to_lower c = (let n = of_char c :: nat in if 65 \<le> n \<and> n \<le> 90 then char_of (n + 32) else c)"

definition base_digit :: "char \<Rightarrow> nat option" where
  "base_digit c =
     (if is_digit c then Some (digit_val c)
      else let n = of_char (to_lower c) :: nat in if 97 \<le> n \<and> n \<le> 122 then Some (n - 87) else None)"

text \<open>The digits of a number in a base; underscores are skipped here and checked by \<open>underscoreOK\<close>.\<close>

fun base_digits :: "nat \<Rightarrow> nat \<Rightarrow> string \<Rightarrow> nat option" where
  "base_digits base n [] = Some n"
| "base_digits base n (c # s) =
     (if c = CHR ''_'' then base_digits base n s
      else case base_digit c of
             None \<Rightarrow> None
           | Some d \<Rightarrow>
               if base \<le> d then None
               else if 2 ^ 64 \<le> base * n + d then None else base_digits base (base * n + d) s)"

definition base_prefix :: "string \<Rightarrow> nat \<times> string" where
  "base_prefix s =
     (if take 1 s \<noteq> ''0'' then (10, s)
      else if 3 \<le> length s \<and> to_lower (s ! 1) = CHR ''b'' then (2, drop 2 s)
      else if 3 \<le> length s \<and> to_lower (s ! 1) = CHR ''o'' then (8, drop 2 s)
      else if 3 \<le> length s \<and> to_lower (s ! 1) = CHR ''x'' then (16, drop 2 s)
      else (8, drop 1 s))"

text \<open>The last character seen: a digit or a base prefix, an underscore, something else, nothing yet.\<close>

datatype saw = SawDigit | SawUnderscore | SawOther | SawNothing

fun underscore_loop :: "bool \<Rightarrow> saw \<Rightarrow> string \<Rightarrow> bool" where
  "underscore_loop hex saw [] = (saw \<noteq> SawUnderscore)"
| "underscore_loop hex saw (c # s) =
     (if is_digit c \<or> hex \<and> CHR ''a'' \<le> to_lower c \<and> to_lower c \<le> CHR ''f'' then underscore_loop hex SawDigit s
      else if c = CHR ''_'' then (if saw \<noteq> SawDigit then False else underscore_loop hex SawUnderscore s)
      else if saw = SawUnderscore then False
      else underscore_loop hex SawOther s)"

definition underscoreOK :: "string \<Rightarrow> bool" where
  "underscoreOK s =
     (if 2 \<le> length s \<and> s ! 0 = CHR ''0'' \<and> to_lower (s ! 1) \<in> {CHR ''b'', CHR ''o'', CHR ''x''}
      then underscore_loop (to_lower (s ! 1) = CHR ''x'') SawDigit (drop 2 s)
      else underscore_loop False SawNothing s)"

definition ParseUint0 :: "string \<Rightarrow> nat option" where
  "ParseUint0 s =
     (if s = [] then None
      else case base_prefix s of
             (base, ds) \<Rightarrow> if CHR ''_'' \<in> set ds \<and> \<not> underscoreOK s then None else base_digits base 0 ds)"

definition ParseInt0 :: "string \<Rightarrow> int option" where
  "ParseInt0 s =
     (case s of
        [] \<Rightarrow> None
      | c # cs \<Rightarrow>
          (case ParseUint0 (if c = CHR ''-'' \<or> c = CHR ''+'' then cs else s) of
             None \<Rightarrow> None
           | Some un \<Rightarrow>
               if c = CHR ''-'' then (if 2 ^ 63 < un then None else Some (- int un))
               else if 2 ^ 63 \<le> un then None else Some (int un)))"

definition ParseBool :: "string \<Rightarrow> bool option" where
  "ParseBool s =
     (if s \<in> {''1'', ''t'', ''T'', ''TRUE'', ''true'', ''True''} then Some True
      else if s \<in> {''0'', ''f'', ''F'', ''FALSE'', ''false'', ''False''} then Some False
      else None)"

definition flag_parse_value :: "flag_kind \<Rightarrow> string \<Rightarrow> flag_value option" where
  "flag_parse_value k s =
     (case k of
        KBool \<Rightarrow> map_option FBool (ParseBool s)
      | KString \<Rightarrow> Some (FString s)
      | KInt \<Rightarrow> map_option FInt (ParseInt0 s))"

section \<open>Arguments\<close>

datatype arg = Positional | Terminator | BadSyntax | FlagArg string "string option"

definition flag_name_value :: "string \<Rightarrow> arg" where
  "flag_name_value name =
     (case name of
        [] \<Rightarrow> BadSyntax
      | c # s \<Rightarrow>
          if c = CHR ''-'' \<or> c = CHR ''='' then BadSyntax
          else if CHR ''='' \<in> set s
            then FlagArg (c # takeWhile (\<lambda>x. x \<noteq> CHR ''='') s) (Some (tl (dropWhile (\<lambda>x. x \<noteq> CHR ''='') s)))
            else FlagArg name None)"

definition classify_arg :: "string \<Rightarrow> arg" where
  "classify_arg s =
     (if length s < 2 \<or> s ! 0 \<noteq> CHR ''-'' then Positional
      else if s ! 1 = CHR ''-'' then (if length s = 2 then Terminator else flag_name_value (drop 2 s))
      else flag_name_value (drop 1 s))"

text \<open>A flag is bound to a field of the state.\<close>

record 'c flag =
  flagKind :: flag_kind
  flagGet :: "'c \<Rightarrow> flag_value"
  flagPut :: "flag_value \<Rightarrow> 'c \<Rightarrow> 'c"

text \<open>\<^verbatim>\<open>flag.Parse\<close>: the state and the arguments that are left, or the exit status of the process.\<close>

datatype 'c flag_result = Parsed 'c "string list" | Exit int

fun flag_Parse :: "(string \<rightharpoonup> 'c flag) \<Rightarrow> string list \<Rightarrow> 'c \<Rightarrow> 'c flag_result" where
  "flag_Parse tbl [] c = Parsed c []"
| "flag_Parse tbl (s # args) c =
     (case classify_arg s of
        Positional \<Rightarrow> Parsed c (s # args)
      | Terminator \<Rightarrow> Parsed c args
      | BadSyntax \<Rightarrow> Exit 2
      | FlagArg name value \<Rightarrow>
          (case tbl name of
             None \<Rightarrow> Exit (if name = ''help'' \<or> name = ''h'' then 0 else 2)
           | Some f \<Rightarrow>
               (case value of
                  Some v \<Rightarrow>
                    (case flag_parse_value (flagKind f) v of
                       None \<Rightarrow> Exit 2
                     | Some x \<Rightarrow> flag_Parse tbl args (flagPut f x c))
                | None \<Rightarrow>
                    if flagKind f = KBool then flag_Parse tbl args (flagPut f (FBool True) c)
                    else (case args of
                            [] \<Rightarrow> Exit 2
                          | v # args' \<Rightarrow>
                              (case flag_parse_value (flagKind f) v of
                                 None \<Rightarrow> Exit 2
                               | Some x \<Rightarrow> flag_Parse tbl args' (flagPut f x c))))))"

section \<open>Rules\<close>

text \<open>How a value is written as an argument.\<close>

definition flag_text :: "flag_value \<Rightarrow> string" where
  "flag_text v = (case v of FBool b \<Rightarrow> (if b then ''true'' else ''false'') | FString s \<Rightarrow> s | FInt i \<Rightarrow> strconv_Itoa i)"

fun value_ok :: "flag_kind \<Rightarrow> flag_value \<Rightarrow> bool" where
  "value_ok KBool (FBool b) = True"
| "value_ok KString (FString s) = True"
| "value_ok KInt (FInt i) = (- (2 ^ 63) \<le> i \<and> i < 2 ^ 63)"
| "value_ok _ _ = False"

lemma base_digits_parse:
  "list_all is_digit s \<Longrightarrow> parse_digits num n s = Inr m \<Longrightarrow> base_digits 10 n s = Some m"
proof (induction s arbitrary: n)
  case (Cons c s)
  then have "c \<noteq> CHR ''_''" and "digit_val c < 10" by (auto simp: is_digit_def digit_val_def)
  with Cons show ?case by (auto simp: base_digit_def Let_def split: if_splits)
qed simp

lemma itoa_nat_leading_zero: "n \<noteq> 0 \<Longrightarrow> hd (itoa_nat n) \<noteq> CHR ''0''"
proof (induction n rule: itoa_nat.induct)
  case (1 n)
  show ?case
  proof (cases "n < 10")
    case True
    have "digit_val (CHR ''0'') = 0" by (simp add: digit_val_def)
    then have "digit_char n \<noteq> CHR ''0''" using 1(2) digit_char(2) [OF True] by metis
    with True show ?thesis by (subst itoa_nat.simps) simp
  next
    case False
    with 1(1) show ?thesis by (subst itoa_nat.simps) simp
  qed
qed

lemma ParseUint0_itoa: "n < 2 ^ 64 \<Longrightarrow> ParseUint0 (itoa_nat n) = Some n"
proof (cases "n = 0")
  case True
  then show ?thesis by (simp add: ParseUint0_def itoa_nat.simps digit_char_def base_prefix_def)
next
  case False
  assume n: "n < 2 ^ 64"
  have d: "list_all is_digit (itoa_nat n)" by (simp add: list_all_iff itoa_nat_digits)
  then have "CHR ''_'' \<notin> set (itoa_nat n)" by (auto simp: list_all_iff is_digit_def)
  moreover have "base_prefix (itoa_nat n) = (10, itoa_nat n)"
    using itoa_nat_leading_zero [OF False] by (cases "itoa_nat n") (auto simp: base_prefix_def)
  ultimately show ?thesis
    using base_digits_parse [OF d parse_digits_itoa [OF n]] by (simp add: ParseUint0_def)
qed

lemma ParseInt0_Itoa: "- (2 ^ 63) \<le> i \<Longrightarrow> i < 2 ^ 63 \<Longrightarrow> ParseInt0 (strconv_Itoa i) = Some i"
proof -
  assume i: "- (2 ^ 63) \<le> i" "i < 2 ^ 63"
  obtain c cs where cs: "itoa_nat (nat i) = c # cs" by (cases "itoa_nat (nat i)") auto
  then have "is_digit c" using itoa_nat_digits [of c "nat i"] by simp
  with i cs is_digit_sign [of c] ParseUint0_itoa [of "nat i"] ParseUint0_itoa [of "nat (- i)"] show ?thesis
    by (auto simp: ParseInt0_def strconv_Itoa_def)
qed

lemma flag_parse_text: "value_ok k v \<Longrightarrow> flag_parse_value k (flag_text v) = Some v"
  by (cases "(k, v)" rule: value_ok.cases) (auto simp: flag_parse_value_def flag_text_def ParseBool_def ParseInt0_Itoa)

definition flag_arg :: "string \<Rightarrow> flag_value \<Rightarrow> string" where
  "flag_arg name v = ''-'' @ name @ ''='' @ flag_text v"

definition flag_name_ok :: "string \<Rightarrow> bool" where
  "flag_name_ok name \<longleftrightarrow> name \<noteq> [] \<and> hd name \<noteq> CHR ''-'' \<and> CHR ''='' \<notin> set name"

lemma classify_flag_arg: "flag_name_ok name \<Longrightarrow> classify_arg (flag_arg name v) = FlagArg name (Some (flag_text v))"
proof -
  assume "flag_name_ok name"
  then obtain c s where "name = c # s" "c \<noteq> CHR ''-''" "c \<noteq> CHR ''=''" "CHR ''='' \<notin> set s"
    by (cases name) (auto simp: flag_name_ok_def)
  moreover from this(4) have "takeWhile (\<lambda>x. x \<noteq> CHR ''='') (s @ CHR ''='' # t) = s" "dropWhile (\<lambda>x. x \<noteq> CHR ''='') (s @ CHR ''='' # t) = CHR ''='' # t" for t
    by (induction s) auto
  ultimately show ?thesis
    by (simp add: classify_arg_def flag_arg_def flag_name_value_def)
qed

lemma flag_Parse_step:
  "flag_name_ok name \<Longrightarrow> tbl name = Some f \<Longrightarrow> value_ok (flagKind f) v \<Longrightarrow>
     flag_Parse tbl (flag_arg name v # args) c = flag_Parse tbl args (flagPut f v c)"
  by (simp add: classify_flag_arg flag_parse_text)

end
