(* ===== verification/Config_New.thy ===== *)
theory Config_New
  imports Config Deployment_Json Command_Line
begin

text \<open>
  Where a configuration comes from, \<^verbatim>\<open>New\<close> of \<^verbatim>\<open>pkg/config/config.go\<close>: the defaults, overwritten by the configuration file if
  there is one, overwritten by the flags of the command line, corrected for the central node.
\<close>

section \<open>The configuration file\<close>

definition configFilePath :: string where [go_data]: "configFilePath = ''/opt/carisma/conf/carisma.json''"

text \<open>The names of the fields in JSON, in the order of the structure.\<close>

definition config_names :: "string list" where [go_data]:
  "config_names =
     [''EnableDebugMode'', ''EmulateContainerRuntime'', ''enableCentralMode'', ''enableDiscovery'', ''centralNode'', ''node'',
      ''statusMgrPort'', ''gRPCPort'', ''udpPort'', ''udpDelay'', ''udpTimeout'', ''ingressPort'', ''egressPort'', ''adminPort'',
      ''defaultContainerRegistryDomain'']"

definition bool_field :: "(Config \<Rightarrow> bool) \<Rightarrow> ((bool \<Rightarrow> bool) \<Rightarrow> Config \<Rightarrow> Config) \<Rightarrow> Config decoder" where
  "bool_field get upd j c = (let (v, e) = decode_bool j (get c) in (upd (\<lambda>_. v) c, e))"

definition string_field :: "(Config \<Rightarrow> string) \<Rightarrow> ((string \<Rightarrow> string) \<Rightarrow> Config \<Rightarrow> Config) \<Rightarrow> Config decoder" where
  "string_field get upd j c = (let (v, e) = decode_string j (get c) in (upd (\<lambda>_. v) c, e))"

definition int_field :: "(Config \<Rightarrow> int) \<Rightarrow> ((int \<Rightarrow> int) \<Rightarrow> Config \<Rightarrow> Config) \<Rightarrow> Config decoder" where
  "int_field get upd j c = (let (v, e) = decode_int j (get c) in (upd (\<lambda>_. v) c, e))"

definition config_field :: "string \<Rightarrow> Config decoder" where
  "config_field f =
     (if f = ''EnableDebugMode'' then bool_field EnableDebugMode EnableDebugMode_update
      else if f = ''EmulateContainerRuntime'' then bool_field EmulateContainerRuntime EmulateContainerRuntime_update
      else if f = ''enableCentralMode'' then bool_field EnableCentralMode EnableCentralMode_update
      else if f = ''enableDiscovery'' then bool_field EnableDiscovery EnableDiscovery_update
      else if f = ''centralNode'' then string_field CentralNodeHostname CentralNodeHostname_update
      else if f = ''node'' then string_field NodeHostname NodeHostname_update
      else if f = ''statusMgrPort'' then int_field StatusMgrPort StatusMgrPort_update
      else if f = ''gRPCPort'' then int_field GRPCPort GRPCPort_update
      else if f = ''udpPort'' then int_field UDPPort UDPPort_update
      else if f = ''udpDelay'' then int_field UDPDelay UDPDelay_update
      else if f = ''udpTimeout'' then int_field UDPTimeout UDPTimeout_update
      else if f = ''ingressPort'' then int_field IngressPort IngressPort_update
      else if f = ''egressPort'' then int_field EgressPort EgressPort_update
      else if f = ''adminPort'' then int_field AdminPort AdminPort_update
      else string_field DefaultContainerRegistryDomain DefaultContainerRegistryDomain_update)"

definition applyArgumentsFromConfigFileContent :: "string \<Rightarrow> Config \<Rightarrow> Config \<times> go_error option" where
  "applyArgumentsFromConfigFileContent fileContent c =
     json_Unmarshal (decode_struct config_names config_field) fileContent c"

section \<open>The command line\<close>

definition BoolVar :: "(Config \<Rightarrow> bool) \<Rightarrow> ((bool \<Rightarrow> bool) \<Rightarrow> Config \<Rightarrow> Config) \<Rightarrow> Config flag" where
  "BoolVar get upd =
     \<lparr>flagKind = KBool, flagGet = (\<lambda>c. FBool (get c)),
      flagPut = (\<lambda>v. case v of FBool b \<Rightarrow> upd (\<lambda>_. b) | _ \<Rightarrow> id)\<rparr>"

definition StringVar :: "(Config \<Rightarrow> string) \<Rightarrow> ((string \<Rightarrow> string) \<Rightarrow> Config \<Rightarrow> Config) \<Rightarrow> Config flag" where
  "StringVar get upd =
     \<lparr>flagKind = KString, flagGet = (\<lambda>c. FString (get c)),
      flagPut = (\<lambda>v. case v of FString s \<Rightarrow> upd (\<lambda>_. s) | _ \<Rightarrow> id)\<rparr>"

definition IntVar :: "(Config \<Rightarrow> int) \<Rightarrow> ((int \<Rightarrow> int) \<Rightarrow> Config \<Rightarrow> Config) \<Rightarrow> Config flag" where
  "IntVar get upd =
     \<lparr>flagKind = KInt, flagGet = (\<lambda>c. FInt (get c)),
      flagPut = (\<lambda>v. case v of FInt i \<Rightarrow> upd (\<lambda>_. i) | _ \<Rightarrow> id)\<rparr>"

definition commandline_flags :: "(string \<times> Config flag) list" where
  "commandline_flags =
     [(''enable-debug-mode'', BoolVar EnableDebugMode EnableDebugMode_update),
      (''emulate-container-runtime'', BoolVar EmulateContainerRuntime EmulateContainerRuntime_update),
      (''enable-central-mode'', BoolVar EnableCentralMode EnableCentralMode_update),
      (''enable-discovery'', BoolVar EnableDiscovery EnableDiscovery_update),
      (''central-node'', StringVar CentralNodeHostname CentralNodeHostname_update),
      (''node'', StringVar NodeHostname NodeHostname_update),
      (''status-manager-port'', IntVar StatusMgrPort StatusMgrPort_update),
      (''grpc-port'', IntVar GRPCPort GRPCPort_update),
      (''udp-port'', IntVar UDPPort UDPPort_update),
      (''udp-delay'', IntVar UDPDelay UDPDelay_update),
      (''udp-timeout'', IntVar UDPTimeout UDPTimeout_update),
      (''ingress-port'', IntVar IngressPort IngressPort_update),
      (''egress-port'', IntVar EgressPort EgressPort_update),
      (''default-container-registry-domain'', StringVar DefaultContainerRegistryDomain DefaultContainerRegistryDomain_update)]"

definition applyCommandlineFlags :: "string list \<Rightarrow> Config \<Rightarrow> Config flag_result" where
  "applyCommandlineFlags args c = flag_Parse (map_of commandline_flags) args c"

section \<open>New\<close>

datatype new_result = NewConfig Config | NewError go_error | ProcessExit int

text \<open>
  \<open>stat\<close> is the error of \<^verbatim>\<open>os.Stat\<close> of the configuration file, if any, \<open>readFile\<close> what \<^verbatim>\<open>os.ReadFile\<close> returns, \<open>args\<close> the
  arguments of the process.
\<close>

definition New :: "string \<Rightarrow> go_error option \<Rightarrow> go_error + string \<Rightarrow> string list \<Rightarrow> new_result" where
  "New hostname stat readFile args =
     (let cfg = Default hostname;
          r = (if stat = None
               then (case readFile of
                       Inr cfgFileContent \<Rightarrow>
                         (case applyArgumentsFromConfigFileContent cfgFileContent cfg of
                            (cfg', Some err) \<Rightarrow> Inl err
                          | (cfg', None) \<Rightarrow> Inr cfg')
                     | Inl err \<Rightarrow> Inl err)
               else Inr cfg)
      in case r of
           Inl err \<Rightarrow> NewError err
         | Inr cfg \<Rightarrow>
             (case applyCommandlineFlags args cfg of
                Exit code \<Rightarrow> ProcessExit code
              | Parsed cfg rest \<Rightarrow> NewConfig (fix_config cfg)))"

section \<open>Specification\<close>

text \<open>
  The members of a file that sets every field as in \<open>c\<close>, and the fields of \<open>d\<close> after a file or a command
  line has set those whose name satisfies a predicate. The administration port has no flag.
\<close>

definition config_members :: "Config \<Rightarrow> (string \<times> json) list" where
  "config_members c =
     [(''EnableDebugMode'', JBool (EnableDebugMode c)),
      (''EmulateContainerRuntime'', JBool (EmulateContainerRuntime c)),
      (''enableCentralMode'', JBool (EnableCentralMode c)),
      (''enableDiscovery'', JBool (EnableDiscovery c)),
      (''centralNode'', JStr (CentralNodeHostname c)),
      (''node'', JStr (NodeHostname c)),
      (''statusMgrPort'', JNum (strconv_Itoa (StatusMgrPort c))),
      (''gRPCPort'', JNum (strconv_Itoa (GRPCPort c))),
      (''udpPort'', JNum (strconv_Itoa (UDPPort c))),
      (''udpDelay'', JNum (strconv_Itoa (UDPDelay c))),
      (''udpTimeout'', JNum (strconv_Itoa (UDPTimeout c))),
      (''ingressPort'', JNum (strconv_Itoa (IngressPort c))),
      (''egressPort'', JNum (strconv_Itoa (EgressPort c))),
      (''adminPort'', JNum (strconv_Itoa (AdminPort c))),
      (''defaultContainerRegistryDomain'', JStr (DefaultContainerRegistryDomain c))]"

definition config_text :: "(string \<Rightarrow> bool) \<Rightarrow> Config \<Rightarrow> string" where
  "config_text S c = json_indent 0 (JObj (filter (\<lambda>m. S (fst m)) (config_members c)))"

definition config_args :: "(string \<Rightarrow> bool) \<Rightarrow> Config \<Rightarrow> string list" where
  "config_args T c = map (\<lambda>(n, f). flag_arg n (flagGet f c)) (filter (\<lambda>m. T (fst m)) commandline_flags)"

definition overlay_file :: "(string \<Rightarrow> bool) \<Rightarrow> Config \<Rightarrow> Config \<Rightarrow> Config" where
  "overlay_file S c d = d\<lparr>
      EnableDebugMode := if S ''EnableDebugMode'' then EnableDebugMode c else EnableDebugMode d,
      EmulateContainerRuntime := if S ''EmulateContainerRuntime'' then EmulateContainerRuntime c else EmulateContainerRuntime d,
      EnableCentralMode := if S ''enableCentralMode'' then EnableCentralMode c else EnableCentralMode d,
      EnableDiscovery := if S ''enableDiscovery'' then EnableDiscovery c else EnableDiscovery d,
      CentralNodeHostname := if S ''centralNode'' then CentralNodeHostname c else CentralNodeHostname d,
      NodeHostname := if S ''node'' then NodeHostname c else NodeHostname d,
      StatusMgrPort := if S ''statusMgrPort'' then StatusMgrPort c else StatusMgrPort d,
      GRPCPort := if S ''gRPCPort'' then GRPCPort c else GRPCPort d,
      UDPPort := if S ''udpPort'' then UDPPort c else UDPPort d,
      UDPDelay := if S ''udpDelay'' then UDPDelay c else UDPDelay d,
      UDPTimeout := if S ''udpTimeout'' then UDPTimeout c else UDPTimeout d,
      IngressPort := if S ''ingressPort'' then IngressPort c else IngressPort d,
      EgressPort := if S ''egressPort'' then EgressPort c else EgressPort d,
      AdminPort := if S ''adminPort'' then AdminPort c else AdminPort d,
      DefaultContainerRegistryDomain := if S ''defaultContainerRegistryDomain'' then DefaultContainerRegistryDomain c else DefaultContainerRegistryDomain d\<rparr>"

definition overlay_flags :: "(string \<Rightarrow> bool) \<Rightarrow> Config \<Rightarrow> Config \<Rightarrow> Config" where
  "overlay_flags T c d = d\<lparr>
      EnableDebugMode := if T ''enable-debug-mode'' then EnableDebugMode c else EnableDebugMode d,
      EmulateContainerRuntime := if T ''emulate-container-runtime'' then EmulateContainerRuntime c else EmulateContainerRuntime d,
      EnableCentralMode := if T ''enable-central-mode'' then EnableCentralMode c else EnableCentralMode d,
      EnableDiscovery := if T ''enable-discovery'' then EnableDiscovery c else EnableDiscovery d,
      CentralNodeHostname := if T ''central-node'' then CentralNodeHostname c else CentralNodeHostname d,
      NodeHostname := if T ''node'' then NodeHostname c else NodeHostname d,
      StatusMgrPort := if T ''status-manager-port'' then StatusMgrPort c else StatusMgrPort d,
      GRPCPort := if T ''grpc-port'' then GRPCPort c else GRPCPort d,
      UDPPort := if T ''udp-port'' then UDPPort c else UDPPort d,
      UDPDelay := if T ''udp-delay'' then UDPDelay c else UDPDelay d,
      UDPTimeout := if T ''udp-timeout'' then UDPTimeout c else UDPTimeout d,
      IngressPort := if T ''ingress-port'' then IngressPort c else IngressPort d,
      EgressPort := if T ''egress-port'' then EgressPort c else EgressPort d,
      DefaultContainerRegistryDomain := if T ''default-container-registry-domain'' then DefaultContainerRegistryDomain c else DefaultContainerRegistryDomain d\<rparr>"

definition in_int64 :: "int \<Rightarrow> bool" where
  "in_int64 i \<longleftrightarrow> - (2 ^ 63) \<le> i \<and> i < 2 ^ 63"

definition config_ints :: "Config \<Rightarrow> int list" where
  "config_ints c = [StatusMgrPort c, GRPCPort c, UDPPort c, UDPDelay c, UDPTimeout c, IngressPort c, EgressPort c, AdminPort c]"

definition config_strings :: "Config \<Rightarrow> string list" where
  "config_strings c = [CentralNodeHostname c, NodeHostname c, DefaultContainerRegistryDomain c]"

section \<open>Rules\<close>

lemma json_number_Itoa: "json_number (strconv_Itoa i) \<and> list_all num_char (strconv_Itoa i)"
proof -
  have d: "takeWhile is_digit (itoa_nat n) = itoa_nat n" "dropWhile is_digit (itoa_nat n) = []" for n
    by (simp_all add: itoa_nat_digits)
  have z: "length (itoa_nat n) = 1 \<or> hd (itoa_nat n) \<noteq> CHR ''0''" for n
    using itoa_nat_leading_zero [of n] by (cases "n = 0") (simp_all add: itoa_nat.simps)
  have s: "(case itoa_nat n of [] \<Rightarrow> [] | c # u \<Rightarrow> if c = CHR ''-'' then u else itoa_nat n) = itoa_nat n" for n
    using itoa_nat_no_sign(1) [of n] by (cases "itoa_nat n") auto
  have "list_all num_char (itoa_nat n)" for n
    by (auto simp: list_all_iff num_char_def dest: itoa_nat_digits)
  then show ?thesis
    using z by (auto simp: d s strconv_Itoa_def json_number_def fraction_ok_def num_char_def Let_def)
qed

lemma decode_fields_fold:
  "\<forall>(k, j) \<in> set ms. field_of names k = Some k \<and> (\<forall>v. set_field k j v = (cp k v, False)) \<Longrightarrow>
     decode_fields names set_field ms v = (fold (\<lambda>m. cp (fst m)) ms v, False)"
  by (induction ms arbitrary: v) auto

lemma flag_Parse_fold:
  "\<forall>(n, f) \<in> set fs. flag_name_ok n \<and> tbl n = Some f \<and> value_ok (flagKind f) (flagGet f c) \<Longrightarrow>
     flag_Parse tbl (map (\<lambda>(n, f). flag_arg n (flagGet f c)) fs) d =
     Parsed (fold (\<lambda>(n, f). flagPut f (flagGet f c)) fs d) []"
  by (induction fs arbitrary: d) (auto simp: flag_Parse_step simp del: flag_Parse.simps(2))

text \<open>What reading the member \<open>k\<close> of \<open>config_members c\<close> does to a configuration.\<close>

definition copy_field :: "Config \<Rightarrow> string \<Rightarrow> Config \<Rightarrow> Config" where
  "copy_field c k d = fst (config_field k (the (map_of (config_members c) k)) d)"

lemmas config_field_defs = config_field_def bool_field_def string_field_def int_field_def
  decode_bool_def decode_string_def decode_int_def

text \<open>Setting a field, or leaving it.\<close>

lemma update_if:
  "(if p then EnableDebugMode_update (\<lambda>_. b) (d :: Config) else d) = EnableDebugMode_update (\<lambda>v. if p then b else v) d"
  "(if p then EmulateContainerRuntime_update (\<lambda>_. b) (d :: Config) else d) = EmulateContainerRuntime_update (\<lambda>v. if p then b else v) d"
  "(if p then EnableCentralMode_update (\<lambda>_. b) (d :: Config) else d) = EnableCentralMode_update (\<lambda>v. if p then b else v) d"
  "(if p then EnableDiscovery_update (\<lambda>_. b) (d :: Config) else d) = EnableDiscovery_update (\<lambda>v. if p then b else v) d"
  "(if p then CentralNodeHostname_update (\<lambda>_. s) (d :: Config) else d) = CentralNodeHostname_update (\<lambda>v. if p then s else v) d"
  "(if p then NodeHostname_update (\<lambda>_. s) (d :: Config) else d) = NodeHostname_update (\<lambda>v. if p then s else v) d"
  "(if p then StatusMgrPort_update (\<lambda>_. i) (d :: Config) else d) = StatusMgrPort_update (\<lambda>v. if p then i else v) d"
  "(if p then GRPCPort_update (\<lambda>_. i) (d :: Config) else d) = GRPCPort_update (\<lambda>v. if p then i else v) d"
  "(if p then UDPPort_update (\<lambda>_. i) (d :: Config) else d) = UDPPort_update (\<lambda>v. if p then i else v) d"
  "(if p then UDPDelay_update (\<lambda>_. i) (d :: Config) else d) = UDPDelay_update (\<lambda>v. if p then i else v) d"
  "(if p then UDPTimeout_update (\<lambda>_. i) (d :: Config) else d) = UDPTimeout_update (\<lambda>v. if p then i else v) d"
  "(if p then IngressPort_update (\<lambda>_. i) (d :: Config) else d) = IngressPort_update (\<lambda>v. if p then i else v) d"
  "(if p then EgressPort_update (\<lambda>_. i) (d :: Config) else d) = EgressPort_update (\<lambda>v. if p then i else v) d"
  "(if p then AdminPort_update (\<lambda>_. i) (d :: Config) else d) = AdminPort_update (\<lambda>v. if p then i else v) d"
  "(if p then DefaultContainerRegistryDomain_update (\<lambda>_. s) (d :: Config) else d) = DefaultContainerRegistryDomain_update (\<lambda>v. if p then s else v) d"
  by (cases p; cases d; simp)+

lemma copy_field_eq:
  assumes "list_all in_int64 (config_ints c)"
  shows
    "copy_field c ''EnableDebugMode'' d = EnableDebugMode_update (\<lambda>_. EnableDebugMode c) d"
    "copy_field c ''EmulateContainerRuntime'' d = EmulateContainerRuntime_update (\<lambda>_. EmulateContainerRuntime c) d"
    "copy_field c ''enableCentralMode'' d = EnableCentralMode_update (\<lambda>_. EnableCentralMode c) d"
    "copy_field c ''enableDiscovery'' d = EnableDiscovery_update (\<lambda>_. EnableDiscovery c) d"
    "copy_field c ''centralNode'' d = CentralNodeHostname_update (\<lambda>_. CentralNodeHostname c) d"
    "copy_field c ''node'' d = NodeHostname_update (\<lambda>_. NodeHostname c) d"
    "copy_field c ''statusMgrPort'' d = StatusMgrPort_update (\<lambda>_. StatusMgrPort c) d"
    "copy_field c ''gRPCPort'' d = GRPCPort_update (\<lambda>_. GRPCPort c) d"
    "copy_field c ''udpPort'' d = UDPPort_update (\<lambda>_. UDPPort c) d"
    "copy_field c ''udpDelay'' d = UDPDelay_update (\<lambda>_. UDPDelay c) d"
    "copy_field c ''udpTimeout'' d = UDPTimeout_update (\<lambda>_. UDPTimeout c) d"
    "copy_field c ''ingressPort'' d = IngressPort_update (\<lambda>_. IngressPort c) d"
    "copy_field c ''egressPort'' d = EgressPort_update (\<lambda>_. EgressPort c) d"
    "copy_field c ''adminPort'' d = AdminPort_update (\<lambda>_. AdminPort c) d"
    "copy_field c ''defaultContainerRegistryDomain'' d = DefaultContainerRegistryDomain_update (\<lambda>_. DefaultContainerRegistryDomain c) d"
proof -
  have "strconv_Atoi (strconv_Itoa i) = Inr i" if "i \<in> set (config_ints c)" for i
    using assms that Atoi_Itoa [of i] by (simp add: list_all_iff in_int64_def)
  then show
    "copy_field c ''EnableDebugMode'' d = EnableDebugMode_update (\<lambda>_. EnableDebugMode c) d"
    "copy_field c ''EmulateContainerRuntime'' d = EmulateContainerRuntime_update (\<lambda>_. EmulateContainerRuntime c) d"
    "copy_field c ''enableCentralMode'' d = EnableCentralMode_update (\<lambda>_. EnableCentralMode c) d"
    "copy_field c ''enableDiscovery'' d = EnableDiscovery_update (\<lambda>_. EnableDiscovery c) d"
    "copy_field c ''centralNode'' d = CentralNodeHostname_update (\<lambda>_. CentralNodeHostname c) d"
    "copy_field c ''node'' d = NodeHostname_update (\<lambda>_. NodeHostname c) d"
    "copy_field c ''statusMgrPort'' d = StatusMgrPort_update (\<lambda>_. StatusMgrPort c) d"
    "copy_field c ''gRPCPort'' d = GRPCPort_update (\<lambda>_. GRPCPort c) d"
    "copy_field c ''udpPort'' d = UDPPort_update (\<lambda>_. UDPPort c) d"
    "copy_field c ''udpDelay'' d = UDPDelay_update (\<lambda>_. UDPDelay c) d"
    "copy_field c ''udpTimeout'' d = UDPTimeout_update (\<lambda>_. UDPTimeout c) d"
    "copy_field c ''ingressPort'' d = IngressPort_update (\<lambda>_. IngressPort c) d"
    "copy_field c ''egressPort'' d = EgressPort_update (\<lambda>_. EgressPort c) d"
    "copy_field c ''adminPort'' d = AdminPort_update (\<lambda>_. AdminPort c) d"
    "copy_field c ''defaultContainerRegistryDomain'' d = DefaultContainerRegistryDomain_update (\<lambda>_. DefaultContainerRegistryDomain c) d"
    by (simp_all add: config_members_def config_ints_def copy_field_def config_field_defs)
qed

lemma config_members_decode:
  assumes "list_all in_int64 (config_ints c)"
  shows "\<forall>(k, j) \<in> set (config_members c). field_of config_names k = Some k \<and> (\<forall>v. config_field k j v = (copy_field c k v, False))"
proof -
  have "strconv_Atoi (strconv_Itoa i) = Inr i" if "i \<in> set (config_ints c)" for i
    using assms that Atoi_Itoa [of i] by (simp add: list_all_iff in_int64_def)
  then show ?thesis
    by (simp add: config_members_def config_ints_def copy_field_def config_field_defs field_of_def config_names_def)
qed

lemma fold_filter_if: "fold f (filter P xs) d = fold (\<lambda>x d. if P x then f x d else d) xs d"
  by (induction xs arbitrary: d) auto

lemma config_members_fold:
  assumes "list_all in_int64 (config_ints c)"
  shows "fold (\<lambda>m. copy_field c (fst m)) (filter (\<lambda>m. S (fst m)) (config_members c)) d = overlay_file S c d"
  unfolding fold_filter_if config_members_def fold_simps fst_conv copy_field_eq [OF assms] update_if
  by (cases d) (simp add: overlay_file_def)

lemmas flag_defs = BoolVar_def StringVar_def IntVar_def

lemma commandline_flags_ok:
  assumes "list_all in_int64 (config_ints c)"
  shows "\<forall>(n, f) \<in> set commandline_flags. flag_name_ok n \<and> map_of commandline_flags n = Some f \<and> value_ok (flagKind f) (flagGet f c)"
proof -
  have "value_ok KInt (FInt i)" if "i \<in> set (config_ints c)" for i
    using assms that by (simp add: list_all_iff in_int64_def)
  then show ?thesis
    unfolding commandline_flags_def
    by (simp add: flag_defs config_ints_def flag_name_ok_def del: value_ok.simps(3))
qed

lemma commandline_flags_fold:
  "fold (\<lambda>(n, f). flagPut f (flagGet f c)) (filter (\<lambda>m. T (fst m)) commandline_flags) d = overlay_flags T c d"
  unfolding fold_filter_if commandline_flags_def fold_simps fst_conv case_prod_conv flag_defs flag.select_convs flag_value.case update_if
  by (cases d) (simp add: overlay_flags_def)

lemma config_text_read:
  assumes "list_all utf8_valid (config_strings c)"
  shows "json_read (config_text S c) = Some (JObj (filter (\<lambda>m. S (fst m)) (config_members c)))"
proof -
  have m: "list_all (\<lambda>p. utf8_valid (fst p) \<and> printable (snd p) \<and> depth (snd p) = 0) (config_members c)"
    using assms by (simp add: config_members_def config_strings_def json_number_Itoa utf8_len_def byte_in_def)
  then have "printable (JObj (filter (\<lambda>m. S (fst m)) (config_members c)))"
    by (simp add: list_all_iff)
  moreover have "depth (JObj (filter (\<lambda>m. S (fst m)) (config_members c))) \<le> maxNestingDepth"
    using m by (auto simp: list_all_iff maxNestingDepth_def)
  ultimately show ?thesis
    unfolding config_text_def by (rule json_read_indent)
qed

section \<open>Properties\<close>

text \<open>
  C18. Where the fields of a configuration come from: a field that is given on the command line has the value
  given there, else the value of the configuration file, else the default; on the central node the hostname of
  the central node is that of the node. Any part of the fields may be given at either place.
\<close>

theorem configuration_precedence:
  assumes "list_all utf8_valid (config_strings file)" "list_all in_int64 (config_ints file)" "list_all in_int64 (config_ints flags)"
  shows "New hostname None (Inr (config_text S file)) (config_args T flags) =
    NewConfig (fix_config (overlay_flags T flags (overlay_file S file (Default hostname))))"
proof -
  have "\<forall>(k, j) \<in> set (filter (\<lambda>m. S (fst m)) (config_members file)).
      field_of config_names k = Some k \<and> (\<forall>v. config_field k j v = (copy_field file k v, False))"
    using config_members_decode [OF assms(2)] by auto
  from decode_fields_fold [OF this]
  have f: "applyArgumentsFromConfigFileContent (config_text S file) d = (overlay_file S file d, None)" for d
    by (simp add: applyArgumentsFromConfigFileContent_def json_Unmarshal_def config_text_read [OF assms(1)] decode_struct_def
        config_members_fold [OF assms(2)])
  have "\<forall>(n, f) \<in> set (filter (\<lambda>m. T (fst m)) commandline_flags).
      flag_name_ok n \<and> map_of commandline_flags n = Some f \<and> value_ok (flagKind f) (flagGet f flags)"
    using commandline_flags_ok [OF assms(3)] by auto
  from flag_Parse_fold [OF this]
  have "applyCommandlineFlags (config_args T flags) d = Parsed (overlay_flags T flags d) []" for d
    by (simp add: applyCommandlineFlags_def config_args_def commandline_flags_fold)
  with f show ?thesis by (simp add: New_def)
qed

theorem configuration_precedence_witness:
  "New ''hpc-1'' None
     (Inr (config_text (\<lambda>k. k = ''node'' \<or> k = ''gRPCPort'') ((Default ''file'')\<lparr>GRPCPort := 9000\<rparr>)))
     (config_args (\<lambda>k. k = ''grpc-port'') ((Default ''x'')\<lparr>GRPCPort := 9100\<rparr>)) =
   NewConfig ((Default ''file'')\<lparr>GRPCPort := 9100\<rparr>)"
  using configuration_precedence [of "(Default ''file'')\<lparr>GRPCPort := 9000\<rparr>" "(Default ''x'')\<lparr>GRPCPort := 9100\<rparr>" "''hpc-1''"
      "\<lambda>k. k = ''node'' \<or> k = ''gRPCPort''" "\<lambda>k. k = ''grpc-port''"]
  by (simp add: Default_def config_strings_def config_ints_def in_int64_def utf8_len_def byte_in_def overlay_file_def overlay_flags_def fix_config_def)

end
