(* ===== verification/Logging.thy ===== *)
theory Logging
  imports Go_Prelude
begin

text \<open>
  The parts of \<^verbatim>\<open>pkg/logging\<close>, \<^verbatim>\<open>pkg/version\<close> and \<^verbatim>\<open>cmd/carisma-version\<close> that compute something: which stream a message goes to, how the
  position of a caller is printed, what the debug writer answers and what the version command prints. The logger itself is a library.
\<close>

section \<open>Model\<close>

text \<open>
  The levels of the logging library are numbered from -1 (trace) upwards. The library decides from its global level whether it lets a message through; this decision
  and the level at first are parameters, and the program only changes the level to let debug messages through. A message is a text or an error.
\<close>

definition DebugLevel :: int where [go_data]: "DebugLevel = 0"
definition InfoLevel :: int where [go_data]: "InfoLevel = 1"
definition WarnLevel :: int where [go_data]: "WarnLevel = 2"
definition ErrorLevel :: int where [go_data]: "ErrorLevel = 3"

datatype log_message = LogText string | LogError go_error

record levelWriter =
  infOut :: "log_message list"
  errOut :: "log_message list"

definition WriteLevel :: "levelWriter \<Rightarrow> int \<Rightarrow> log_message \<Rightarrow> levelWriter" where
  "WriteLevel l level p =
     (if level \<le> WarnLevel then l\<lparr>infOut := infOut l @ [p]\<rparr> else l\<lparr>errOut := errOut l @ [p]\<rparr>)"

text \<open>Writing without a level, which the library only does for a writer that has none, goes to the standard output.\<close>

definition levelWriter_Write :: "levelWriter \<Rightarrow> log_message \<Rightarrow> levelWriter" where
  "levelWriter_Write l p = l\<lparr>infOut := infOut l @ [p]\<rparr>"

text \<open>The loop runs from the last index down to 1: a slash at the very front is not looked at.\<close>

fun short_loop :: "string \<Rightarrow> nat \<Rightarrow> string" where
  "short_loop file 0 = file"
| "short_loop file (Suc i) = (if file ! Suc i = CHR ''/'' then drop (Suc (Suc i)) file else short_loop file i)"

definition CallerMarshalFunc :: "string \<Rightarrow> int \<Rightarrow> string" where
  "CallerMarshalFunc file line = short_loop file (length file - 1) @ '':'' @ strconv_Itoa line"

record logger =
  lets :: "int \<Rightarrow> int \<Rightarrow> bool"
  globalLevel :: int
  log_out :: levelWriter

definition newLogger :: "(int \<Rightarrow> int \<Rightarrow> bool) \<Rightarrow> int \<Rightarrow> logger" where
  "newLogger decide level = \<lparr>lets = decide, globalLevel = level, log_out = \<lparr>infOut = [], errOut = []\<rparr>\<rparr>"

definition log_at :: "int \<Rightarrow> log_message \<Rightarrow> logger \<Rightarrow> logger" where
  "log_at level p l = (if lets l (globalLevel l) level then l\<lparr>log_out := WriteLevel (log_out l) level p\<rparr> else l)"

definition EnableDebugLogs :: "logger \<Rightarrow> logger" where
  "EnableDebugLogs l = l\<lparr>globalLevel := DebugLevel\<rparr>"

definition LogInfo :: "string \<Rightarrow> logger \<Rightarrow> logger" where
  "LogInfo msg l = log_at InfoLevel (LogText msg) l"

definition LogDbg :: "string \<Rightarrow> logger \<Rightarrow> logger" where
  "LogDbg msg l = log_at DebugLevel (LogText msg) l"

definition LogErr :: "go_error option \<Rightarrow> logger \<Rightarrow> logger" where
  "LogErr err l = (case err of None \<Rightarrow> l | Some e \<Rightarrow> log_at ErrorLevel (LogError e) l)"

record DebugLevelWriter =
  dlogger :: logger

definition newDebugLevelWriter :: "logger \<Rightarrow> DebugLevelWriter" where
  "newDebugLevelWriter l = \<lparr>dlogger = l\<rparr>"

definition DebugLevelWriter_Write :: "string \<Rightarrow> DebugLevelWriter \<Rightarrow> int \<times> go_error option \<times> DebugLevelWriter" where
  "DebugLevelWriter_Write b d = (int (length b), None, d\<lparr>dlogger := LogDbg b (dlogger d)\<rparr>)"

text \<open>The version and the commit are injected by the build; without it the values of the source stay.\<close>

record build_info =
  build_version :: string
  build_commit :: string

definition from_source :: build_info where
  "from_source = \<lparr>build_version = ''DEVELOPMENT'', build_commit = []\<rparr>"

definition Version_of :: "build_info \<Rightarrow> string" where
  "Version_of b = build_version b"

definition Commit_of :: "build_info \<Rightarrow> string" where
  "Commit_of b = build_commit b"

definition version_Run :: "build_info \<Rightarrow> string" where
  "version_Run b =
     (if Version_of b = ''DEVELOPMENT'' then ''Running CARISMA built from source based on '' @ Commit_of b @ [CHR 0x0A]
      else ''Running CARISMA '' @ Version_of b @ [CHR 0x0A])"

section \<open>Rules\<close>

text \<open>The position of a caller is printed with the last part of its path.\<close>

lemma short_loop_skip:
  assumes "CHR ''/'' \<notin> set name" "k \<le> length name" "dir \<noteq> []"
  shows "short_loop (dir @ CHR ''/'' # name) (length dir + k) = name"
  using assms(2)
proof (induction k)
  case 0
  obtain n where "length dir = Suc n" using assms(3) by (cases dir) auto
  moreover have "short_loop (dir @ CHR ''/'' # name) (Suc n) = name" if "length dir = Suc n" for n
    using that by (simp add: nth_append)
  ultimately show ?case by simp
next
  case (Suc k)
  have "(dir @ CHR ''/'' # name) ! Suc (length dir + k) = name ! k"
    by (simp add: nth_append)
  moreover have "name ! k \<noteq> CHR ''/''" using assms(1) Suc.prems by (metis Suc_le_eq nth_mem)
  ultimately show ?case using Suc by simp
qed

lemma caller_is_last_part:
  assumes "CHR ''/'' \<notin> set name" "dir \<noteq> []"
  shows "CallerMarshalFunc (dir @ ''/'' @ name) line = name @ '':'' @ strconv_Itoa line"
  using short_loop_skip [OF assms(1) order_refl assms(2)] by (simp add: CallerMarshalFunc_def)

text \<open>
  Errors go to the error stream and everything else to the other one; debug messages only get out if the global level lets them. Enabling
  them changes nothing for a logger that lets them through already.
\<close>

lemma log_streams:
  "errOut (log_out (LogInfo msg l)) = errOut (log_out l)" "errOut (log_out (LogDbg msg l)) = errOut (log_out l)"
  "infOut (log_out (LogErr err l)) = infOut (log_out l)"
  by (simp_all add: LogInfo_def LogDbg_def LogErr_def log_at_def WriteLevel_def go_data split: option.split)

lemma debug_logs_enabled:
  assumes "lets l = (\<le>)"
  shows "infOut (log_out (LogDbg msg (EnableDebugLogs l))) = infOut (log_out l) @ [LogText msg]"
    "globalLevel l \<le> DebugLevel \<Longrightarrow> log_out (LogDbg msg (EnableDebugLogs l)) = log_out (LogDbg msg l)"
  using assms
  by (simp_all add: EnableDebugLogs_def LogDbg_def log_at_def WriteLevel_def go_data)

text \<open>A writer without a level counts as one with the level of information.\<close>

lemma write_without_level: "levelWriter_Write l p = WriteLevel l InfoLevel p"
  by (simp add: levelWriter_Write_def WriteLevel_def go_data)

text \<open>The writer of the debug manager consumes everything it gets and never fails, whether the message gets out or not.\<close>

lemma debug_writer_consumes:
  "DebugLevelWriter_Write b (newDebugLevelWriter l) = (int (length b), None, newDebugLevelWriter (LogDbg b l))"
  by (simp add: DebugLevelWriter_Write_def newDebugLevelWriter_def)

text \<open>A program built without the build's values cannot say which commit it was built from.\<close>

lemma version_of_source: "version_Run from_source = ''Running CARISMA built from source based on '' @ [CHR 0x0A]"
  by (simp add: version_Run_def from_source_def Version_of_def Commit_of_def)

end
