(* ===== verification/Control_Plane_Process.thy ===== *)
theory Control_Plane_Process
  imports Control_Plane Config_New Logging
begin

text \<open>
  The process of the control plane from its start to its end: \<^verbatim>\<open>Run\<close> of \<^verbatim>\<open>cmd/carisma-control-plane/app/app.go\<close> around the handlers and goroutines of
  \<open>Control_Plane\<close>. The gRPC server belongs to another package: here are the services that are registered with it, the address it listens at, and that
  it accepts connections only while its loop serves a listener, and calls a handler only on a connection and for a service that is registered. Its loop may return at any time, which leaves
  the connections as they are, and what it does with the nil listener that it gets when listening fails is left open.
\<close>

section \<open>Model\<close>

datatype grpc_service =
    AggregatedDiscoveryService
  | ClusterDiscoveryService
  | RouteDiscoveryService
  | ListenerDiscoveryService
  | NodeRegistryService
  | ServiceRegistryService
  | ServerReflection

text \<open>The end of \<^verbatim>\<open>RegisterServer\<close>, after it has started the two goroutines.\<close>

definition RegisterServer_grpc :: "grpc_service list \<Rightarrow> grpc_service list" where
  "RegisterServer_grpc grpcSrv =
     grpcSrv @ [AggregatedDiscoveryService, ClusterDiscoveryService, RouteDiscoveryService, ListenerDiscoveryService]"

record 'cache cp_process =
  plane :: "'cache control_plane"
  grpcServices :: "grpc_service list"
  listener :: "string option"
  serving :: bool
  connections :: nat
  ended :: bool
  cpLog :: logger

datatype 'cache control_plane_run =
    CpExited int logger
  | CpReturned logger
  | CpRunning "'cache cp_process"

definition startMessage :: string where
  [go_data]: "startMessage = ''Starting CARISMA Control Plane '' @ [CHR 0xF0, CHR 0x9F, CHR 0x9A, CHR 0x80]"

definition stopMessage :: string where
  [go_data]: "stopMessage = ''Shutting down CARISMA Control Plane''"

text \<open>Up to the wait for a signal. An error of listening is only logged.\<close>

definition control_plane_Run :: "new_result \<Rightarrow> (string \<Rightarrow> go_error option) \<Rightarrow> 'cache \<Rightarrow> logger \<Rightarrow> 'cache control_plane_run" where
  "control_plane_Run config Listen c l =
     (let l = LogInfo startMessage l in
      case config of
        ProcessExit code \<Rightarrow> CpExited code l
      | NewError err \<Rightarrow> CpReturned (LogErr (Some err) l)
      | NewConfig conf \<Rightarrow>
          (let l = (if EnableDebugMode conf then EnableDebugLogs l else l);
               grpcServer = RegisterServer_grpc [];
               grpcServer = grpcServer @ [NodeRegistryService];
               grpcServer = grpcServer @ [ServiceRegistryService];
               address = net_JoinHostPort [] (strconv_Itoa (GRPCPort conf));
               err = Listen address;
               l = LogErr err l;
               grpcServer = (if EnableDebugMode conf then grpcServer @ [ServerReflection] else grpcServer)
           in CpRunning
                \<lparr>plane = start_control_plane c, grpcServices = grpcServer, listener = (if err = None then Some address else None),
                 serving = True, connections = 0, ended = False, cpLog = l\<rparr>))"

text \<open>The goroutine that serves, and the end of \<^verbatim>\<open>Run\<close> after a signal.\<close>

definition serve_returns :: "go_error option \<Rightarrow> 'cache cp_process \<Rightarrow> 'cache cp_process option" where
  "serve_returns err p = (if serving p then Some (p\<lparr>serving := False, cpLog := LogErr err (cpLog p)\<rparr>) else None)"

definition stop_process :: "'cache cp_process \<Rightarrow> 'cache cp_process" where
  "stop_process p = p\<lparr>ended := True, cpLog := LogInfo stopMessage (cpLog p)\<rparr>"

datatype cpp_event = CppConnect | CppPlane cp_event | CppServed "go_error option" | CppServePanic | CppSignal

definition accept_connection :: "'cache cp_process \<Rightarrow> 'cache cp_process option" where
  "accept_connection p =
     (if serving p \<and> listener p \<noteq> None then Some (p\<lparr>connections := connections p + 1\<rparr>) else None)"

text \<open>The service whose handler an event of the control plane belongs to; the goroutines of the xDS server need none.\<close>

fun service_of :: "cp_event \<Rightarrow> grpc_service option" where
  "service_of (CpRegister r) = Some NodeRegistryService"
| "service_of (CpAnnounce n a) = Some ServiceRegistryService"
| "service_of e = None"

definition may_happen :: "'cache cp_process \<Rightarrow> cp_event \<Rightarrow> bool" where
  "may_happen p e =
     (case service_of e of
        None \<Rightarrow> True
      | Some sv \<Rightarrow> 0 < connections p \<and> sv \<in> set (grpcServices p))"

text \<open>A process that is still there.\<close>

definition alive :: "'cache cp_process \<Rightarrow> bool" where
  "alive p \<longleftrightarrow> \<not> ended p \<and> \<not> crashed (plane p)"

inductive cpp_step :: "('any, 'snap, 'cache) xds_env \<Rightarrow> Config \<Rightarrow> 'cache cp_process \<Rightarrow> cpp_event \<Rightarrow> 'cache cp_process \<Rightarrow> bool"
  for env conf where
  connect: "alive p \<Longrightarrow> accept_connection p = Some q \<Longrightarrow> cpp_step env conf p CppConnect q"
| plane_step: "alive p \<Longrightarrow> may_happen p e \<Longrightarrow> cp_step env conf (plane p) e s \<Longrightarrow>
    cpp_step env conf p (CppPlane e) (p\<lparr>plane := s\<rparr>)"
| served: "alive p \<Longrightarrow> serve_returns err p = Some q \<Longrightarrow> cpp_step env conf p (CppServed err) q"
| serve_panics: "alive p \<Longrightarrow> serving p \<Longrightarrow> listener p = None \<Longrightarrow> cpp_step env conf p CppServePanic (p\<lparr>ended := True\<rparr>)"
| signal: "alive p \<Longrightarrow> cpp_step env conf p CppSignal (stop_process p)"

text \<open>An executor: the loops over the services see the sequence \<open>ord\<close>.\<close>

fun cpp_exec :: "('any, 'snap, 'cache) xds_env \<Rightarrow> Config \<Rightarrow> services_seq \<Rightarrow> 'cache cp_process \<Rightarrow> cpp_event \<Rightarrow> 'cache cp_process option" where
  "cpp_exec env conf ord p CppConnect = (if alive p then accept_connection p else None)"
| "cpp_exec env conf ord p (CppPlane e) =
     (if alive p \<and> may_happen p e then map_option (\<lambda>s. p\<lparr>plane := s\<rparr>) (cp_exec env conf ord (plane p) e) else None)"
| "cpp_exec env conf ord p (CppServed err) = (if alive p then serve_returns err p else None)"
| "cpp_exec env conf ord p CppServePanic = (if alive p \<and> serving p \<and> listener p = None then Some (p\<lparr>ended := True\<rparr>) else None)"
| "cpp_exec env conf ord p CppSignal = (if alive p then Some (stop_process p) else None)"

interpretation cppx: step_executor "cpp_step env conf" "cpp_exec env conf ord" for env conf ord
proof
  fix p e q
  assume "cpp_exec env conf ord p e = Some q"
  then show "cpp_step env conf p e q"
    by (cases e) (auto intro: cpp_step.intros cpx.exec_step split: if_splits)
qed

inductive_cases cpp_stepE: "cpp_step env conf p e q"

section \<open>Rules\<close>

text \<open>The part of a run that concerns the control plane.\<close>

fun plane_events :: "cpp_event list \<Rightarrow> cp_event list" where
  "plane_events [] = []"
| "plane_events (CppPlane e # es) = e # plane_events es"
| "plane_events (e # es) = plane_events es"

lemma plane_events_append [simp]: "plane_events (xs @ ys) = plane_events xs @ plane_events ys"
  by (induction xs rule: plane_events.induct) auto

lemma serve_returns_Some:
  "serve_returns err p = Some q \<longleftrightarrow> serving p \<and> q = p\<lparr>serving := False, cpLog := LogErr err (cpLog p)\<rparr>"
  by (auto simp: serve_returns_def)

lemma accept_connection_Some:
  "accept_connection p = Some q \<longleftrightarrow> serving p \<and> listener p \<noteq> None \<and> q = p\<lparr>connections := connections p + 1\<rparr>"
  by (auto simp: accept_connection_def)

lemmas cpp_ops = serve_returns_Some accept_connection_Some stop_process_def

text \<open>What happens to the state of the control plane is a run of its handlers and goroutines, so every invariant of these holds for the process.\<close>

lemma cpp_run_plane:
  "run (cpp_step env conf) p tr q \<Longrightarrow> run (cp_step env conf) (plane p) (plane_events tr) (plane q)"
proof (induction rule: run.induct)
  case (run_snoc tr q e r)
  from run_snoc.hyps(2) run_snoc.IH show ?case
    by (cases rule: cpp_step.cases) (auto simp: cpp_ops intro: run.run_snoc)
qed simp

text \<open>A process ends by a signal or by a panic of serving a nil listener, and after its end nothing happens any more.\<close>

lemma cpp_run_end:
  "run (cpp_step env conf) p tr q \<Longrightarrow> listener q = listener p \<and> grpcServices q = grpcServices p \<and>
     (ended q \<longleftrightarrow> ended p \<or> CppSignal \<in> set tr \<or> CppServePanic \<in> set tr)"
proof (induction rule: run.induct)
  case (run_snoc tr q e r)
  from run_snoc.hyps(2) run_snoc.IH show ?case
    by (cases rule: cpp_step.cases) (auto simp: cpp_ops alive_def)
qed simp

lemma ended_process_is_still: "\<not> alive p \<Longrightarrow> \<not> cpp_step env conf p e q"
  by (auto elim: cpp_stepE)

text \<open>Without a listener nothing ever reaches the control plane.\<close>

definition unreachable :: "'cache \<Rightarrow> 'cache cp_process \<Rightarrow> bool" where
  "unreachable c p \<longleftrightarrow> listener p = None \<and> connections p = 0 \<and> plane p = start_control_plane c"

interpretation cppi: step_invariant "cpp_step env conf" "unreachable c" for env conf c
proof
  fix p e q
  assume inv: "unreachable c p" and "cpp_step env conf p e q"
  from this(2) show "unreachable c q"
  proof (cases rule: cpp_step.cases)
    case (plane_step e s)
    then have False
      using inv by (cases rule: cp_step.cases [OF plane_step(5)])
        (auto simp: unreachable_def may_happen_def start_control_plane_def cp_recv_node_Some cp_recv_services_Some elim!: cp_add_node_Some cp_set_services_Some)
    then show ?thesis ..
  qed (use inv in \<open>auto simp: unreachable_def cpp_ops\<close>)
qed

lemma first_node_valid: "ValidateNodeID \<lparr>nodes = [a]\<rparr> ''node-0'' = Inr 0"
  using GetNodeIdx_append [of 0 "''node''"] by (simp add: ValidateNodeID_Inr itoa_nat.simps digit_char_def)

section \<open>Properties\<close>

text \<open>
  C39. A control plane that has started can be reached exactly when it could listen. If it could, there is a run in which any given node registers as the first one and any given
  service is announced under the identifier of this node, and the registries then hold just these. If it could not, the error was only logged, and in every run
  its state stays the one it has started with: no node registers and no service is announced.
\<close>

theorem control_plane_reachable_iff_listening:
  fixes r :: RegisterRequest and a :: ServiceAnnouncement
  assumes "control_plane_Run (NewConfig conf) Listen c l = CpRunning p0" and "RegistrationState a = REGISTRATION_STATE_REGISTERED"
  shows "if Listen (net_JoinHostPort [] (strconv_Itoa (GRPCPort conf))) = None
    then \<exists>tr p. run (cpp_step env conf) p0 tr p \<and> alive p \<and> nodes (registry (plane p)) = [\<lparr>Host = Address r, Port = ReqPort r\<rparr>] \<and>
      services (plane p) = [''node-0'' \<mapsto> [BundleId a \<mapsto> [LocalPort a]]]
    else \<forall>tr p. run (cpp_step env conf) p0 tr p \<longrightarrow> plane p = start_control_plane c"
proof (cases "Listen (net_JoinHostPort [] (strconv_Itoa (GRPCPort conf))) = None")
  case True
  then have p0: "plane p0 = start_control_plane c" "\<not> ended p0" "listener p0 \<noteq> None" "serving p0"
    "NodeRegistryService \<in> set (grpcServices p0)" "ServiceRegistryService \<in> set (grpcServices p0)"
    using assms(1) by (auto simp: control_plane_Run_def RegisterServer_grpc_def Let_def split: if_splits)
  have "\<exists>p. exec_all (cpp_exec env conf []) p0 [CppConnect, CppPlane (CpRegister r), CppPlane (CpAnnounce ''node-0'' a)] = Some p \<and> alive p \<and>
      nodes (registry (plane p)) = [\<lparr>Host = Address r, Port = ReqPort r\<rparr>] \<and> services (plane p) = [''node-0'' \<mapsto> [BundleId a \<mapsto> [LocalPort a]]]"
    using p0 assms(2)
    by (simp add: accept_connection_def may_happen_def alive_def start_control_plane_def cp_exec_def cp_register_simp cp_announce_def
        NewNodeRegistryServer_def first_node_valid registerService_locked_simp NewServiceRegistry_def ports_of_def slices_Sort_def slices_Compact_def)
  with True show ?thesis using cppx.exec_all_run by fastforce
next
  case False
  then have "unreachable c p0"
    using assms(1) by (auto simp: control_plane_Run_def Let_def unreachable_def split: if_splits)
  then have "unreachable c p" if "run (cpp_step env conf) p0 tr p" for tr p by (rule cppi.run_inv [OF that])
  then show ?thesis unfolding if_not_P [OF False] by (simp add: unreachable_def)
qed

theorem control_plane_reachable_iff_listening_witness:
  "(\<exists>p0 tr p. control_plane_Run (NewConfig (Default ''hpc-1'')) (\<lambda>a. None) Map.empty (newLogger (\<le>) InfoLevel) = CpRunning p0 \<and>
      run (cpp_step example_env (Default ''hpc-1'')) p0 tr p \<and> services (plane p) = [''node-0'' \<mapsto> [''app'' \<mapsto> [8080]]]) \<and>
   (\<exists>p0 p. control_plane_Run (NewConfig (Default ''hpc-1'')) (\<lambda>a. Some EOF) Map.empty (newLogger (\<le>) InfoLevel) = CpRunning p0 \<and>
      run (cpp_step example_env (Default ''hpc-1'')) p0 [CppServed (Some EOF), CppSignal] p \<and> plane p = start_control_plane Map.empty)"
proof -
  let ?conf = "Default ''hpc-1''" and ?run = "\<lambda>err. control_plane_Run (NewConfig (Default ''hpc-1'')) (\<lambda>a. err) Map.empty (newLogger (\<le>) InfoLevel)"
  have started: "\<exists>p0. ?run err = CpRunning p0 \<and> alive p0 \<and> serving p0" for err
    by (simp add: control_plane_Run_def Let_def alive_def start_control_plane_def)
  obtain p0 :: "(string \<rightharpoonup> string \<times> unit resources) cp_process" where p0: "?run None = CpRunning p0" using started by blast
  have reg: "RegistrationState example_announcement = REGISTRATION_STATE_REGISTERED" by (simp add: example_announcement_def)
  have 1: "\<exists>tr p. run (cpp_step example_env ?conf) p0 tr p \<and> services (plane p) = [''node-0'' \<mapsto> [''app'' \<mapsto> [8080]]]"
    using control_plane_reachable_iff_listening [OF p0 reg, of example_env example_request] by (auto simp: example_announcement_def)
  obtain q0 :: "(string \<rightharpoonup> string \<times> unit resources) cp_process" where q0: "?run (Some EOF) = CpRunning q0" and live: "alive q0" "serving q0" using started by blast
  let ?q = "stop_process (q0\<lparr>serving := False, cpLog := LogErr (Some EOF) (cpLog q0)\<rparr>)"
  have "exec_all (cpp_exec example_env ?conf []) q0 [CppServed (Some EOF), CppSignal] = Some ?q"
    using live by (simp add: serve_returns_def alive_def)
  note run = cppx.exec_all_run [OF this]
  then have "plane ?q = start_control_plane Map.empty"
    using control_plane_reachable_iff_listening [OF q0 reg, of example_env] by simp
  with 1 p0 q0 run show ?thesis by blast
qed

end
