(* ===== verification/Container_Image.thy ===== *)
theory Container_Image
  imports Go_Prelude
begin

text \<open>
  Containers and image names: \<^verbatim>\<open>pkg/container/container.go\<close> (the data), \<^verbatim>\<open>image.go\<close> and \<^verbatim>\<open>ParseFQIN\<close> of
  \<^verbatim>\<open>docker_container_manager.go\<close>. The parser of image references, \<^verbatim>\<open>reference.ParseNormalizedNamed\<close>,
  is a package outside the repository and a parameter: it gives an error, or the normalized name and
  the tag if the reference has one.
\<close>

section \<open>Model\<close>

record Container =
  ID :: string
  FirstName :: string
  ImageName :: string
  Ports :: string
  Status :: string

record Image =
  Name :: string
  Version :: string

definition ParseImageName :: "string \<Rightarrow> Image" where
  "ParseImageName str =
     (let idx = strings_LastIndex str CHR '':'' in
      if idx \<noteq> - 1 then \<lparr>Name = take (nat idx) str, Version = drop (nat idx + 1) str\<rparr>
      else \<lparr>Name = str, Version = ''latest''\<rparr>)"

fun image_loop :: "Image list \<Rightarrow> nat \<Rightarrow> Container list \<Rightarrow> Image list" where
  "image_loop images idx [] = images"
| "image_loop images idx (c # cs) = image_loop (images[idx := ParseImageName (ImageName c)]) (Suc idx) cs"

definition ExtractImageList :: "Container list \<Rightarrow> Image list" where
  "ExtractImageList containers =
     image_loop (replicate (length containers) \<lparr>Name = [], Version = []\<rparr>) 0 containers"

text \<open>The reference \<^verbatim>\<open>name:version\<close> of an image, which the callers format.\<close>

definition image_ref :: "Image \<Rightarrow> string" where
  "image_ref i = Name i @ '':'' @ Version i"

type_synonym reference_parser = "string \<Rightarrow> go_error + string \<times> string option"

definition tag_suffix :: "string option \<Rightarrow> string" where
  "tag_suffix tag = (case tag of None \<Rightarrow> [] | Some t \<Rightarrow> '':'' @ t)"

definition ParseFQIN :: "reference_parser \<Rightarrow> string \<Rightarrow> string \<Rightarrow> (go_error + string) outcome" where
  "ParseFQIN ParseNormalizedNamed name defaultDomain =
     (case ParseNormalizedNamed name of
        Inl err \<Rightarrow> Ret (Inl err)
      | Inr (normalizedImageName, tag) \<Rightarrow>
          (let idx = strings_Index normalizedImageName CHR ''/'' in
           if idx = - 1
           then Ret (Inl (ErrorString (''invalid reference format: missing '' @ [CHR 0x27, CHR ''/'', CHR 0x27])))
           else if length normalizedImageName \<noteq> length name \<and> length name < nat (idx + 1) then Panic
           else let n = (if length normalizedImageName \<noteq> length name \<and>
                            take (nat (idx + 1)) normalizedImageName \<noteq> take (nat (idx + 1)) name
                         then defaultDomain @ drop (nat idx) normalizedImageName
                         else normalizedImageName)
                in Ret (Inr (n @ tag_suffix tag))))"

section \<open>Rules\<close>

lemma image_loop_map:
  "length images = idx + length cs \<Longrightarrow> image_loop images idx cs = take idx images @ map (ParseImageName \<circ> ImageName) cs"
proof (induction images idx cs rule: image_loop.induct)
  case (2 images idx c cs)
  then show ?case by (simp add: take_Suc_conv_app_nth)
qed simp

lemma ExtractImageList_map: "ExtractImageList cs = map (ParseImageName \<circ> ImageName) cs"
  by (simp add: ExtractImageList_def image_loop_map)

lemma ParseImageName_append:
  "CHR '':'' \<notin> set v \<Longrightarrow> ParseImageName (n @ CHR '':'' # v) = \<lparr>Name = n, Version = v\<rparr>"
  by (simp add: ParseImageName_def strings_LastIndex_append Let_def)

lemma ParseImageName_plain: "CHR '':'' \<notin> set s \<Longrightarrow> ParseImageName s = \<lparr>Name = s, Version = ''latest''\<rparr>"
  by (simp add: ParseImageName_def)

lemma split_last_colon:
  assumes "CHR '':'' \<in> set s"
  obtains n v where "s = n @ '':'' @ v" "CHR '':'' \<notin> set v"
  using split_list_last [OF assms] by auto

lemma ParseImageName_version: "CHR '':'' \<notin> set (Version (ParseImageName s))"
proof (cases "CHR '':'' \<in> set s")
  case True
  then show ?thesis by (rule split_last_colon) (simp add: ParseImageName_append)
qed (simp add: ParseImageName_plain)

lemma image_ref_Parse: "image_ref (ParseImageName s) = (if CHR '':'' \<in> set s then s else s @ '':latest'')"
proof (cases "CHR '':'' \<in> set s")
  case True
  then show ?thesis by (rule split_last_colon) (simp add: ParseImageName_append image_ref_def)
qed (simp add: ParseImageName_plain image_ref_def)

lemma ParseImageName_image_ref: "ParseImageName (image_ref (ParseImageName s)) = ParseImageName s"
  using ParseImageName_append [OF ParseImageName_version, of "Name (ParseImageName s)" s]
  by (simp add: image_ref_def)

lemma strings_Index_append [simp]: "c \<notin> set d \<Longrightarrow> strings_Index (d @ c # p) c = int (length d)"
  by (induction d) (auto simp: Let_def)

lemma ParseFQIN_eq:
  assumes "parse name = Inr (d @ ''/'' @ p, tag)" and "CHR ''/'' \<notin> set d"
  shows "ParseFQIN parse name dd =
    (if length name = length d + 1 + length p then Ret (Inr (d @ ''/'' @ p @ tag_suffix tag))
     else if length name \<le> length d then Panic
     else if take (length d + 1) name = d @ ''/'' then Ret (Inr (d @ ''/'' @ p @ tag_suffix tag))
     else Ret (Inr (dd @ ''/'' @ p @ tag_suffix tag)))"
  using assms by (auto simp: ParseFQIN_def Let_def nat_add_distrib)

section \<open>Properties\<close>

text \<open>
  Image names survive parsing and printing: printing a parsed name gives it back, with the version
  \<^verbatim>\<open>latest\<close> where it had none, and parsing that again gives the same image.
\<close>

lemma image_name_round_trip:
  "image_ref (ParseImageName s) = (if CHR '':'' \<in> set s then s else s @ '':latest'') \<and>
   ParseImageName (image_ref (ParseImageName s)) = ParseImageName s"
  by (simp add: image_ref_Parse [symmetric] ParseImageName_image_ref)

text \<open>
  A name without a tag in a registry with a port is taken apart at the port: the port and the path
  become the version, whatever they are.
\<close>

lemma registry_port_is_taken_for_version:
  assumes "CHR '':'' \<notin> set port" and "CHR '':'' \<notin> set path"
  shows "ParseImageName (host @ '':'' @ port @ ''/'' @ path) = \<lparr>Name = host, Version = port @ ''/'' @ path\<rparr>"
  using ParseImageName_append [of "port @ ''/'' @ path" host] assms by simp

text \<open>
  A reference that already names its registry is kept, tag included; one that the parser had to
  complete gets the default registry in place of the parser's, as long as it is longer than the parser's
  registry and not by chance as long as the completed name.
\<close>

lemma fqin_uses_default_domain:
  assumes "parse name = Inr (d @ ''/'' @ p, tag)" and "CHR ''/'' \<notin> set d"
  shows "(name = d @ ''/'' @ p @ tag_suffix tag \<longrightarrow> ParseFQIN parse name dd = Ret (Inr name)) \<and>
    (take (length d + 1) name \<noteq> d @ ''/'' \<and> length d < length name \<and> length name \<noteq> length (d @ ''/'' @ p) \<longrightarrow>
      ParseFQIN parse name dd = Ret (Inr (dd @ ''/'' @ p @ tag_suffix tag)))"
  using ParseFQIN_eq [of parse name d p tag, OF assms, of dd] by auto

text \<open>A parser of references that completes a name without a dot before its first slash.\<close>

definition example_parser :: reference_parser where
  "example_parser s =
     (let r = ParseImageName s;
          n = (if CHR ''.'' \<in> set (hd (strings_Split s CHR ''/'')) then Name r
               else if CHR ''/'' \<in> set s then ''docker.io/'' @ Name r else ''docker.io/library/'' @ Name r)
      in Inr (n, if CHR '':'' \<in> set s then Some (Version r) else None))"

text \<open>
  A reference that the parser completes crashes the program when it is not longer than the registry
  the parser puts in front: \<^verbatim>\<open>name[:idx+1]\<close> slices beyond its end. And one whose length, tag included, is that of the
  completed name without the tag keeps the parser's registry instead of getting the default one.
\<close>

lemma fqin_short_and_coinciding_names:
  assumes "parse name = Inr (d @ ''/'' @ p, tag)" and "CHR ''/'' \<notin> set d"
  shows "(length name \<le> length d \<longrightarrow> ParseFQIN parse name dd = Panic) \<and>
    (length name = length (d @ ''/'' @ p) \<longrightarrow> ParseFQIN parse name dd = Ret (Inr (d @ ''/'' @ p @ tag_suffix tag)))"
  by (simp add: ParseFQIN_eq [of parse name d p tag, OF assms])

end
