(* ===== verification/Container_Manager.thy ===== *)
theory Container_Manager
  imports Container_Image Json_Text
begin

text \<open>
  The interface of container managers, \<^verbatim>\<open>Manager\<close> of \<^verbatim>\<open>pkg/container/container.go\<close>, and the manager that
  only keeps a table of virtual containers, \<^verbatim>\<open>debug_container_manager.go\<close>. A manager's operations act on
  a state; an operation returns an error or a value, or panics. What the debug manager leaves to chance,
  the random identifiers and the orders of its maps, is chosen by a \<open>debug_env\<close>, draw by draw.
\<close>

section \<open>The interface\<close>

record PortBinding =
  HostIP :: string
  HostPort :: string

type_synonym port_bindings = "string \<rightharpoonup> PortBinding list"

record 'w Manager =
  Containers :: "'w \<Rightarrow> ((go_error + Container list) \<times> 'w) outcome"
  StartContainer :: "string \<Rightarrow> 'w \<Rightarrow> (go_error option \<times> 'w) outcome"
  StopContainer :: "string \<Rightarrow> 'w \<Rightarrow> (go_error option \<times> 'w) outcome"
  PullImageAndCreateContainer ::
    "string \<Rightarrow> string list \<Rightarrow> port_bindings \<Rightarrow> bool \<Rightarrow> 'w \<Rightarrow> ((go_error + string \<times> int32) \<times> 'w) outcome"
  RemoveImageAndContainer :: "string \<Rightarrow> bool \<Rightarrow> 'w \<Rightarrow> ((go_error + string \<times> int32) \<times> 'w) outcome"
  Close :: "'w \<Rightarrow> (go_error option \<times> 'w) outcome"

text \<open>
  What a client may rely on as long as \<open>inv n\<close> promises \<open>n\<close> more pulls: the manager lists the images of its
  containers, a pull adds a container for the image, a removal takes one away if there is one, and none
  of this fails.
\<close>

locale reliable_manager =
  fixes mgr :: "'w Manager" and inv :: "nat \<Rightarrow> 'w \<Rightarrow> bool" and images :: "'w \<Rightarrow> string multiset"
  assumes inv_less: "inv (Suc n) w \<Longrightarrow> inv n w"
    and list_ok: "inv n w \<Longrightarrow> \<exists>cs w'. Containers mgr w = Ret (Inr cs, w') \<and> inv n w' \<and> images w' = images w \<and>
      mset (map ImageName cs) = images w"
    and pull_ok: "inv (Suc n) w \<Longrightarrow> \<exists>r w'. PullImageAndCreateContainer mgr img args pb v w = Ret (Inr r, w') \<and> inv n w' \<and>
      images w' = add_mset img (images w)"
    and remove_ok: "inv n w \<Longrightarrow> \<exists>r w'. RemoveImageAndContainer mgr img v w = Ret (Inr r, w') \<and> inv n w' \<and>
      images w' = images w - {#img#}"
begin

lemma inv_mono: "m \<le> n \<Longrightarrow> inv n w \<Longrightarrow> inv m w"
  by (induction n rule: dec_induct) (auto dest: inv_less)

end

section \<open>The debug manager\<close>

definition wildcardIP :: string where [go_data]: "wildcardIP = ''0.0.0.0''"
definition statusRunning :: string where [go_data]: "statusRunning = ''running''"
definition statusExited :: string where [go_data]: "statusExited = ''exited''"
definition servicePortBase :: int32 where [go_data]: "servicePortBase = 8080"
definition appIdxBase :: int32 where [go_data]: "appIdxBase = 1"

record virtualContainer =
  appIdx :: int32
  vcontainer :: Container

record debug_env =
  Intn :: "nat \<Rightarrow> nat"
  container_order :: "nat \<Rightarrow> (string \<rightharpoonup> virtualContainer) \<Rightarrow> (string \<times> virtualContainer) list"
  binding_order :: "nat \<Rightarrow> port_bindings \<Rightarrow> (string \<times> PortBinding list) list"

text \<open>The number of identifiers drawn and of \<^verbatim>\<open>range\<close> loops done select the choices of the environment.\<close>

record debugContainerManager =
  stdout_text :: string
  containers :: "string \<rightharpoonup> virtualContainer"
  nextServicePort :: int32
  nextAppIdx :: int32
  draws :: nat
  ranges :: nat

definition write_out :: "string \<Rightarrow> debugContainerManager \<Rightarrow> debugContainerManager" where
  "write_out s d = d\<lparr>stdout_text := stdout_text d @ s\<rparr>"

definition NewDebugContainerManager :: debugContainerManager where
  "NewDebugContainerManager =
     \<lparr>stdout_text = ''Starting debug container manager'' @ [nl], containers = Map.empty,
      nextServicePort = servicePortBase, nextAppIdx = appIdxBase, draws = 0, ranges = 0\<rparr>"

definition alphabet :: string where
  [go_data]: "alphabet = ''abcdefghijklmnopqrstuvwxyzABCDEFGHIJKLMNOPQRSTUVWXYZ''"

definition generateRandomContainerId :: "debug_env \<Rightarrow> nat \<Rightarrow> string" where
  "generateRandomContainerId env k = map (\<lambda>i. alphabet ! Intn env (64 * k + i)) [0..<64]"

fun host_port_loop :: "nat \<Rightarrow> string \<Rightarrow> PortBinding list \<Rightarrow> string" where
  "host_port_loop idx containerPort [] = []"
| "host_port_loop idx containerPort (port # ports) =
     (if idx \<noteq> 0 then '', '' else []) @
     (if 0 < length (HostIP port) then HostIP port else wildcardIP) @ '':'' @ HostPort port @ ''->'' @ containerPort @
     host_port_loop (Suc idx) containerPort ports"

fun binding_loop :: "bool \<Rightarrow> nat \<Rightarrow> (string \<times> PortBinding list) list \<Rightarrow> string" where
  "binding_loop first n [] = []"
| "binding_loop first n ((containerPort, hostPorts) # kvs) =
     (if \<not> first \<and> 1 < n then '', '' else []) @ host_port_loop 0 containerPort hostPorts @ binding_loop False n kvs"

definition formatPortBindings :: "(string \<times> PortBinding list) list \<Rightarrow> string" where
  "formatPortBindings kvs = binding_loop True (length kvs) kvs"

text \<open>\<^verbatim>\<open>%-ns\<close> of \<^verbatim>\<open>fmt\<close> pads with blanks on the right, counting runes; an invalid byte counts as one.\<close>

fun rune_count :: "string \<Rightarrow> nat" where
  "rune_count [] = 0"
| "rune_count (b # s) = Suc (rune_count (drop (utf8_len (b # s) - 1) s))"

definition pad_right :: "nat \<Rightarrow> string \<Rightarrow> string" where
  "pad_right n s = s @ replicate (n - rune_count s) CHR '' ''"

definition table_row :: "string \<Rightarrow> string \<Rightarrow> string \<Rightarrow> string \<Rightarrow> string" where
  "table_row a b c d =
     ''|'' @ pad_right 64 a @ ''|'' @ pad_right 64 b @ ''|'' @ pad_right 10 c @ ''|'' @ pad_right 10 d @ [nl]"

definition printContainerTable :: "debug_env \<Rightarrow> debugContainerManager \<Rightarrow> debugContainerManager" where
  "printContainerTable env d =
     write_out (''currently deployed containers:'' @ [nl] @ table_row ''id'' ''image'' ''status'' ''port(s)'' @
         concat (map (\<lambda>(cid, vc). table_row cid (ImageName (vcontainer vc)) (Status (vcontainer vc)) (Ports (vcontainer vc)))
           (container_order env (ranges d) (containers d))))
       (d\<lparr>ranges := Suc (ranges d)\<rparr>)"

definition debug_Containers :: "debug_env \<Rightarrow> debugContainerManager \<Rightarrow>
    ((go_error + Container list) \<times> debugContainerManager) outcome" where
  "debug_Containers env d =
     Ret (Inr (map (vcontainer \<circ> snd) (container_order env (ranges d) (containers d))), d\<lparr>ranges := Suc (ranges d)\<rparr>)"

definition set_status :: "debug_env \<Rightarrow> string \<Rightarrow> string \<Rightarrow> string \<Rightarrow> debugContainerManager \<Rightarrow>
    (go_error option \<times> debugContainerManager) outcome" where
  "set_status env status message cid d =
     (case containers d cid of
        Some vc \<Rightarrow>
          (let d = d\<lparr>containers := (containers d)(cid \<mapsto> vc\<lparr>vcontainer := (vcontainer vc)\<lparr>Status := status\<rparr>\<rparr>)\<rparr> in
           Ret (None, printContainerTable env (write_out (message @ cid @ [nl]) d)))
      | None \<Rightarrow> Ret (Some (ErrorString (''container not found: '' @ cid)), printContainerTable env d))"

definition debug_StartContainer :: "debug_env \<Rightarrow> string \<Rightarrow> debugContainerManager \<Rightarrow>
    (go_error option \<times> debugContainerManager) outcome" where
  "debug_StartContainer env = set_status env statusRunning ''starting container with ID ''"

definition debug_StopContainer :: "debug_env \<Rightarrow> string \<Rightarrow> debugContainerManager \<Rightarrow>
    (go_error option \<times> debugContainerManager) outcome" where
  "debug_StopContainer env = set_status env statusExited ''stopping container with ID ''"

definition bundleIDFormat :: "int32 \<Rightarrow> string" where
  "bundleIDFormat idx = ''com.mercedes_benz.app_'' @ strconv_Itoa idx"

definition debug_Pull :: "debug_env \<Rightarrow> string \<Rightarrow> string list \<Rightarrow> port_bindings \<Rightarrow> bool \<Rightarrow> debugContainerManager \<Rightarrow>
    ((go_error + string \<times> int32) \<times> debugContainerManager) outcome" where
  "debug_Pull env name args portBindings verifyBundleConfig d =
     (let cid = generateRandomContainerId env (draws d);
          vc = \<lparr>appIdx = nextAppIdx d,
                vcontainer = \<lparr>ID = cid, FirstName = cid, ImageName = name,
                  Ports = formatPortBindings (binding_order env (ranges d) portBindings), Status = statusRunning\<rparr>\<rparr>;
          d = d\<lparr>containers := (containers d)(cid \<mapsto> vc), draws := Suc (draws d), ranges := Suc (ranges d)\<rparr>;
          d = printContainerTable env (write_out (''deploying image '' @ name @ '' into container with ID '' @ cid @ [nl]) d);
          bundleID = bundleIDFormat (nextAppIdx d);
          servicePort = nextServicePort d
      in Ret (Inr (bundleID, servicePort),
              d\<lparr>nextServicePort := wrap32 (nextServicePort d + 1), nextAppIdx := wrap32 (nextAppIdx d + 1)\<rparr>))"

fun find_image :: "string \<Rightarrow> (string \<times> virtualContainer) list \<Rightarrow> (string \<times> virtualContainer) option" where
  "find_image name [] = None"
| "find_image name ((cid, vc) # kvs) = (if ImageName (vcontainer vc) = name then Some (cid, vc) else find_image name kvs)"

definition debug_Remove :: "debug_env \<Rightarrow> string \<Rightarrow> bool \<Rightarrow> debugContainerManager \<Rightarrow>
    ((go_error + string \<times> int32) \<times> debugContainerManager) outcome" where
  "debug_Remove env name verifyBundleConfig d =
     (let found = find_image name (container_order env (ranges d) (containers d));
          d = d\<lparr>ranges := Suc (ranges d)\<rparr>
      in case found of
           Some (cid, vc) \<Rightarrow>
             (let d = d\<lparr>containers := (containers d)(cid := None)\<rparr>;
                  d = write_out (''removing container with ID '' @ cid @ '' based on image with name '' @ name @ [nl]) d;
                  bundleID = bundleIDFormat (appIdx vc);
                  servicePort = wrap32 (servicePortBase - 1 + appIdx vc)
              in Ret (Inr (bundleID, servicePort), printContainerTable env d))
         | None \<Rightarrow> Ret (Inr ([], - 1), printContainerTable env d))"

definition debug_Close :: "debugContainerManager \<Rightarrow> (go_error option \<times> debugContainerManager) outcome" where
  "debug_Close d = Ret (None, write_out (''shutting down container manager'' @ [nl]) d)"

definition debug_Manager :: "debug_env \<Rightarrow> debugContainerManager Manager" where
  "debug_Manager env =
     \<lparr>Containers = debug_Containers env, StartContainer = debug_StartContainer env, StopContainer = debug_StopContainer env,
      PullImageAndCreateContainer = debug_Pull env, RemoveImageAndContainer = debug_Remove env, Close = debug_Close\<rparr>"

text \<open>What an environment may choose: runes of the alphabet, and orders that list every entry of a map once.\<close>

definition debug_env_ok :: "debug_env \<Rightarrow> bool" where
  "debug_env_ok env \<longleftrightarrow>
     (\<forall>n. Intn env n < length alphabet) \<and>
     (\<forall>n m. finite (dom m) \<longrightarrow> range_of (container_order env n m) m) \<and>
     (\<forall>n m. finite (dom m) \<longrightarrow> range_of (binding_order env n m) m)"

section \<open>Invariant\<close>

definition debug_images :: "debugContainerManager \<Rightarrow> string multiset" where
  "debug_images d = image_mset (\<lambda>cid. ImageName (vcontainer (the (containers d cid)))) (mset_set (dom (containers d)))"

text \<open>The next \<open>n\<close> identifiers to be drawn are not taken, and none comes twice.\<close>

definition ids_fresh :: "debug_env \<Rightarrow> nat \<Rightarrow> debugContainerManager \<Rightarrow> bool" where
  "ids_fresh env n d \<longleftrightarrow>
     (\<forall>k \<in> {draws d..<draws d + n}. containers d (generateRandomContainerId env k) = None) \<and>
     inj_on (generateRandomContainerId env) {draws d..<draws d + n}"

definition vc_ok :: "string \<Rightarrow> virtualContainer \<Rightarrow> bool" where
  "vc_ok cid vc \<longleftrightarrow> ID (vcontainer vc) = cid \<and> Status (vcontainer vc) \<in> {statusRunning, statusExited}"

definition debug_inv :: "debug_env \<Rightarrow> debugContainerManager \<Rightarrow> bool" where
  "debug_inv env d \<longleftrightarrow> debug_env_ok env \<and> finite (dom (containers d)) \<and>
     nextServicePort d = wrap32 (servicePortBase - 1 + nextAppIdx d) \<and>
     (\<forall>cid vc. containers d cid = Some vc \<longrightarrow> vc_ok cid vc)"

lemma write_out_simps [simp]:
  "containers (write_out s d) = containers d" "nextServicePort (write_out s d) = nextServicePort d"
  "nextAppIdx (write_out s d) = nextAppIdx d" "draws (write_out s d) = draws d" "ranges (write_out s d) = ranges d"
  by (simp_all add: write_out_def)

lemma printContainerTable_simps [simp]:
  "containers (printContainerTable env d) = containers d" "nextServicePort (printContainerTable env d) = nextServicePort d"
  "nextAppIdx (printContainerTable env d) = nextAppIdx d" "draws (printContainerTable env d) = draws d"
  by (simp_all add: printContainerTable_def)

lemma container_order_mem:
  "debug_env_ok env \<Longrightarrow> finite (dom m) \<Longrightarrow> (cid, vc) \<in> set (container_order env n m) \<longleftrightarrow> m cid = Some vc"
  by (simp add: debug_env_ok_def range_of_mem)

lemma range_of_mset: "range_of kvs m \<Longrightarrow> mset (map (f \<circ> snd) kvs) = image_mset (\<lambda>k. f (the (m k))) (mset_set (dom m))"
proof -
  assume r: "range_of kvs m"
  then have "dom m = set (map fst kvs)" and d: "distinct (map fst kvs)"
    by (force simp: range_of_def dom_map_of_conv_image_fst)+
  then have dom: "mset_set (dom m) = mset (map fst kvs)" by (metis mset_set_set)
  have "f (snd kv) = f (the (m (fst kv)))" if "kv \<in> set kvs" for kv
    using range_of_mem [OF r, of "fst kv" "snd kv"] that by simp
  then have "image_mset (f \<circ> snd) (mset kvs) = image_mset (\<lambda>kv. f (the (m (fst kv)))) (mset kvs)"
    by (intro image_mset_cong) simp
  then show ?thesis by (simp add: dom multiset.map_comp comp_def)
qed

lemma find_image_Some: "find_image n kvs = Some (cid, vc) \<Longrightarrow> (cid, vc) \<in> set kvs \<and> ImageName (vcontainer vc) = n"
  by (induction n kvs rule: find_image.induct) (auto split: if_splits)

lemma find_image_None: "find_image n kvs = None \<Longrightarrow> (cid, vc) \<in> set kvs \<Longrightarrow> ImageName (vcontainer vc) \<noteq> n"
  by (induction n kvs rule: find_image.induct) (auto split: if_splits)

lemma wrap32_add: "wrap32 (a + wrap32 b) = wrap32 (a + b)" "wrap32 (wrap32 a + b) = wrap32 (a + b)"
proof -
  show "wrap32 (a + wrap32 b) = wrap32 (a + b)" for a b
    using mod_add_right_eq [of a "b + 2 ^ 31" "2 ^ 32"] by (simp add: wrap32_def algebra_simps)
  then show "wrap32 (wrap32 a + b) = wrap32 (a + b)" by (metis add.commute)
qed

subsection \<open>Steps\<close>

text \<open>The calls of a manager with what they return.\<close>

datatype debug_call =
    DContainers | DStart string | DStop string | DClose
  | DPull string "string list" port_bindings bool "string \<times> int32"
  | DRemove string bool "string \<times> int32"

inductive debug_step :: "debug_env \<Rightarrow> debugContainerManager \<Rightarrow> debug_call \<Rightarrow> debugContainerManager \<Rightarrow> bool" for env where
  d_list: "debug_Containers env d = Ret (r, d') \<Longrightarrow> debug_step env d DContainers d'"
| d_start: "debug_StartContainer env cid d = Ret (r, d') \<Longrightarrow> debug_step env d (DStart cid) d'"
| d_stop: "debug_StopContainer env cid d = Ret (r, d') \<Longrightarrow> debug_step env d (DStop cid) d'"
| d_close: "debug_Close d = Ret (r, d') \<Longrightarrow> debug_step env d DClose d'"
| d_pull: "debug_Pull env n args pb v d = Ret (Inr r, d') \<Longrightarrow> debug_step env d (DPull n args pb v r) d'"
| d_remove: "debug_Remove env n v d = Ret (Inr r, d') \<Longrightarrow> debug_step env d (DRemove n v r) d'"

text \<open>What a pull returned for a container that is still there.\<close>

definition issued :: "virtualContainer \<Rightarrow> string \<times> int32" where
  "issued vc = (bundleIDFormat (appIdx vc), wrap32 (servicePortBase - 1 + appIdx vc))"

lemma set_status_containers:
  "set_status env st msg cid d = Ret (r, d') \<Longrightarrow> containers d' =
     (case containers d cid of None \<Rightarrow> containers d
      | Some vc \<Rightarrow> (containers d)(cid \<mapsto> vc\<lparr>vcontainer := (vcontainer vc)\<lparr>Status := st\<rparr>\<rparr>)) \<and>
     nextServicePort d' = nextServicePort d \<and> nextAppIdx d' = nextAppIdx d"
  by (auto simp: set_status_def Let_def split: option.splits)

lemma debug_Remove_cases:
  assumes "debug_Remove env n v d = Ret (r, d')" and "debug_env_ok env" and "finite (dom (containers d))"
  obtains (found) cid vc where "containers d cid = Some vc" "ImageName (vcontainer vc) = n" "r = Inr (issued vc)"
      "containers d' = (containers d)(cid := None)"
  | (missing) "r = Inr ([], - 1)" "containers d' = containers d"
      "\<And>cid vc. containers d cid = Some vc \<Longrightarrow> ImageName (vcontainer vc) \<noteq> n"
proof (cases "find_image n (container_order env (ranges d) (containers d))")
  case None
  with assms(1) have "r = Inr ([], - 1)" "containers d' = containers d" by (auto simp: debug_Remove_def)
  then show thesis
    using missing find_image_None [OF None] container_order_mem [OF assms(2,3)] by blast
next
  case (Some kv)
  obtain cid vc where kv: "kv = (cid, vc)" by fastforce
  have "r = Inr (issued vc)" "containers d' = (containers d)(cid := None)"
    using assms(1) Some kv by (auto simp: debug_Remove_def issued_def Let_def)
  then show thesis
    using found find_image_Some [of n _ cid vc] Some kv container_order_mem [OF assms(2,3)] by blast
qed

lemma debug_Remove_total: "\<exists>r d'. debug_Remove env n v d = Ret (Inr r, d')"
  by (auto simp: debug_Remove_def Let_def split: option.split)

lemma debug_Remove_next:
  "debug_Remove env n v d = Ret (r, d') \<Longrightarrow>
     nextServicePort d' = nextServicePort d \<and> nextAppIdx d' = nextAppIdx d \<and> draws d' = draws d"
  by (auto simp: debug_Remove_def Let_def split: option.splits)

lemma debug_Pull_fields:
  assumes "debug_Pull env n args pb v d = Ret (r, d')"
  shows "\<exists>vc. containers d' = (containers d)(generateRandomContainerId env (draws d) \<mapsto> vc) \<and>
    vc_ok (generateRandomContainerId env (draws d)) vc \<and> ImageName (vcontainer vc) = n \<and>
    r = Inr (bundleIDFormat (nextAppIdx d), nextServicePort d) \<and> appIdx vc = nextAppIdx d \<and>
    nextServicePort d' = wrap32 (nextServicePort d + 1) \<and> nextAppIdx d' = wrap32 (nextAppIdx d + 1) \<and> draws d' = Suc (draws d)"
  using assms by (auto simp: debug_Pull_def Let_def vc_ok_def)

lemma debug_inv_step: "debug_inv env d \<Longrightarrow> debug_step env d e d' \<Longrightarrow> debug_inv env d'"
proof -
  assume inv: "debug_inv env d" and "debug_step env d e d'"
  from this(2) show "debug_inv env d'"
  proof cases
    case (d_remove n v r)
    from d_remove(2) show ?thesis
      by (rule debug_Remove_cases) (use inv debug_Remove_next [OF d_remove(2)] in \<open>auto simp: debug_inv_def split: if_splits\<close>)
  next
    case (d_start cid r)
    with inv set_status_containers [of env statusRunning _ cid d r d'] show ?thesis
      by (auto simp: debug_inv_def debug_StartContainer_def vc_ok_def split: option.splits if_splits)
  next
    case (d_stop cid r)
    with inv set_status_containers [of env statusExited _ cid d r d'] show ?thesis
      by (auto simp: debug_inv_def debug_StopContainer_def vc_ok_def split: option.splits if_splits)
  next
    case (d_pull n args pb v r)
    have "wrap32 (wrap32 (servicePortBase - 1 + nextAppIdx d) + 1) = wrap32 (servicePortBase - 1 + wrap32 (nextAppIdx d + 1))"
      by (simp only: wrap32_add) (simp add: algebra_simps)
    with inv debug_Pull_fields [OF d_pull(2)] show ?thesis
      by (auto simp: debug_inv_def split: if_splits)
  qed (use inv in \<open>auto simp: debug_inv_def debug_Containers_def debug_Close_def\<close>)
qed

interpretation dbi: step_invariant "debug_step env" "debug_inv env" for env
  by unfold_locales (rule debug_inv_step)

lemma debug_inv_New [simp]: "debug_env_ok env \<Longrightarrow> debug_inv env NewDebugContainerManager"
  by (simp add: debug_inv_def NewDebugContainerManager_def go_data wrap32_def)

lemma not_in_debug_images:
  assumes "finite (dom (containers d))" and "\<And>cid vc. containers d cid = Some vc \<Longrightarrow> ImageName (vcontainer vc) \<noteq> n"
  shows "n \<notin># debug_images d"
proof
  assume "n \<in># debug_images d"
  then obtain cid where "cid \<in> dom (containers d)" "ImageName (vcontainer (the (containers d cid))) = n"
    using assms(1) by (auto simp: debug_images_def)
  with assms(2) [of cid "the (containers d cid)"] show False by auto
qed

lemma debug_images_upd:
  "finite (dom m) \<Longrightarrow> m cid = None \<Longrightarrow>
     image_mset (\<lambda>k. f (the ((m(cid \<mapsto> vc)) k))) (mset_set (dom (m(cid \<mapsto> vc)))) =
     add_mset (f vc) (image_mset (\<lambda>k. f (the (m k))) (mset_set (dom m)))"
proof -
  assume fin: "finite (dom m)" and new: "m cid = None"
  then have "cid \<notin># mset_set (dom m)" by auto
  then have "image_mset (\<lambda>k. f (the ((m(cid \<mapsto> vc)) k))) (mset_set (dom m)) = image_mset (\<lambda>k. f (the (m k))) (mset_set (dom m))"
    by (intro image_mset_cong) auto
  with fin new show ?thesis by (simp add: domIff)
qed

lemma debug_images_del:
  "finite (dom m) \<Longrightarrow> m cid = Some vc \<Longrightarrow>
     image_mset (\<lambda>k. f (the ((m(cid := None)) k))) (mset_set (dom (m(cid := None)))) =
     image_mset (\<lambda>k. f (the (m k))) (mset_set (dom m)) - {#f vc#}"
  using debug_images_upd [of "m(cid := None)" cid f vc] by (simp add: fun_upd_idem)

lemma debug_list_ok:
  assumes "debug_inv env d" and "ids_fresh env n d"
  shows "\<exists>cs d'. debug_Containers env d = Ret (Inr cs, d') \<and> (debug_inv env d' \<and> ids_fresh env n d') \<and>
    debug_images d' = debug_images d \<and> mset (map ImageName cs) = debug_images d"
proof -
  have "range_of (container_order env (ranges d) (containers d)) (containers d)"
    using assms(1) by (simp add: debug_inv_def debug_env_ok_def)
  from range_of_mset [OF this, of "ImageName \<circ> vcontainer"] assms show ?thesis
    by (auto simp: debug_Containers_def debug_images_def ids_fresh_def debug_inv_def comp_def multiset.map_comp)
qed

lemma debug_remove_ok:
  assumes "debug_inv env d" and "ids_fresh env n d"
  shows "\<exists>r d'. debug_Remove env img v d = Ret (Inr r, d') \<and> (debug_inv env d' \<and> ids_fresh env n d') \<and>
    debug_images d' = debug_images d - {#img#}"
proof -
  have ok: "debug_env_ok env" "finite (dom (containers d))" using assms(1) by (auto simp: debug_inv_def)
  obtain r d' where rm: "debug_Remove env img v d = Ret (Inr r, d')"
    using debug_Remove_total by blast
  then have "debug_inv env d'" using assms(1) by (auto intro: debug_inv_step d_remove)
  moreover from rm ok have "ids_fresh env n d' \<and> debug_images d' = debug_images d - {#img#}"
  proof (cases rule: debug_Remove_cases)
    case (found cid vc)
    with assms(2) debug_Remove_next [OF rm] debug_images_del [OF ok(2) found(1), of "ImageName \<circ> vcontainer"] show ?thesis
      by (auto simp: ids_fresh_def debug_images_def)
  next
    case missing
    have "img \<notin># debug_images d" using ok(2) missing(3) by (rule not_in_debug_images)
    with assms(2) missing(2) debug_Remove_next [OF rm] show ?thesis
      by (auto simp: ids_fresh_def debug_images_def)
  qed
  ultimately show ?thesis using rm by blast
qed

lemma debug_pull_ok:
  assumes "debug_inv env d" and "ids_fresh env (Suc n) d"
  shows "\<exists>r d'. debug_Pull env img args pb v d = Ret (Inr r, d') \<and> (debug_inv env d' \<and> ids_fresh env n d') \<and>
    debug_images d' = add_mset img (debug_images d)"
proof -
  let ?id = "generateRandomContainerId env (draws d)"
  have fin: "finite (dom (containers d))" using assms(1) by (simp add: debug_inv_def)
  obtain r d' where pull: "debug_Pull env img args pb v d = Ret (Inr r, d')"
    by (auto simp: debug_Pull_def Let_def)
  then have "debug_inv env d'" using assms(1) by (auto intro: debug_inv_step d_pull)
  have "containers d ?id = None" and inj: "inj_on (generateRandomContainerId env) {draws d..<draws d + Suc n}"
    and fr: "\<forall>k \<in> {draws d..<draws d + Suc n}. containers d (generateRandomContainerId env k) = None"
    using assms(2) by (auto simp: ids_fresh_def)
  moreover have "\<forall>k \<in> {Suc (draws d)..<draws d + Suc n}. generateRandomContainerId env k \<noteq> ?id"
    using inj by (auto dest: inj_onD)
  ultimately have "ids_fresh env n d' \<and> debug_images d' = add_mset img (debug_images d)"
    using debug_Pull_fields [OF pull] debug_images_upd [OF fin, of ?id "ImageName \<circ> vcontainer"]
    by (auto simp: ids_fresh_def debug_images_def intro: inj_on_subset [OF inj])
  with pull \<open>debug_inv env d'\<close> show ?thesis by blast
qed

text \<open>The debug manager keeps the contract as long as the identifiers it draws are fresh.\<close>

interpretation dbg: reliable_manager "debug_Manager env" "\<lambda>n d. debug_inv env d \<and> ids_fresh env n d" debug_images for env
proof unfold_locales
  show "debug_inv env d \<and> ids_fresh env n d" if "debug_inv env d \<and> ids_fresh env (Suc n) d" for n d
    using that by (auto simp: ids_fresh_def intro: inj_on_subset)
qed (unfold debug_Manager_def Manager.simps, (erule conjE, rule debug_list_ok debug_pull_ok debug_remove_ok, assumption, assumption)+)

section \<open>Properties\<close>

lemma debug_step_containers:
  assumes "debug_inv env d" and "debug_step env d e d'" and "containers d' cid = Some vc"
  shows "(\<exists>vc0. containers d cid = Some vc0 \<and> appIdx vc0 = appIdx vc \<and> ImageName (vcontainer vc0) = ImageName (vcontainer vc)) \<or>
    (\<exists>args pb v. e = DPull (ImageName (vcontainer vc)) args pb v (issued vc))"
  using assms(2)
proof cases
  case (d_remove n v r)
  have "debug_env_ok env" "finite (dom (containers d))" using assms(1) by (auto simp: debug_inv_def)
  with d_remove(2) show ?thesis
    by (rule debug_Remove_cases) (use assms(3) in \<open>auto split: if_splits\<close>)
next
  case (d_pull n args pb v r)
  with debug_Pull_fields [OF d_pull(2)] assms(1,3) show ?thesis
    by (auto simp: issued_def debug_inv_def split: if_splits)
next
  case (d_start c r)
  with set_status_containers [of env statusRunning _ c d r d'] assms(3) show ?thesis
    by (auto simp: debug_StartContainer_def split: option.splits if_splits)
next
  case (d_stop c r)
  with set_status_containers [of env statusExited _ c d r d'] assms(3) show ?thesis
    by (auto simp: debug_StopContainer_def split: option.splits if_splits)
qed (use assms(3) in \<open>auto simp: debug_Containers_def debug_Close_def\<close>)

lemma run_containers_pulled:
  "run (debug_step env) d0 tr d \<Longrightarrow> debug_inv env d0 \<Longrightarrow> containers d0 = Map.empty \<Longrightarrow> containers d cid = Some vc \<Longrightarrow>
     \<exists>args pb v. DPull (ImageName (vcontainer vc)) args pb v (issued vc) \<in> set tr"
proof (induction arbitrary: vc rule: run.induct)
  case (run_snoc tr d e d')
  then have "debug_inv env d" by (auto intro: dbi.run_inv)
  from debug_step_containers [OF this run_snoc(2,6)] show ?case
  proof
    assume "\<exists>vc0. containers d cid = Some vc0 \<and> appIdx vc0 = appIdx vc \<and> ImageName (vcontainer vc0) = ImageName (vcontainer vc)"
    then obtain vc0 where vc0: "containers d cid = Some vc0" "issued vc0 = issued vc" "ImageName (vcontainer vc0) = ImageName (vcontainer vc)"
      by (auto simp: issued_def)
    from run_snoc.IH [OF run_snoc(4,5) vc0(1)] vc0(2,3) show ?thesis by auto
  qed auto
qed simp

text \<open>
  C20. The debug manager hands out one bundle identifier and port per container: what a removal returns,
  to be unregistered, is what a pull of the same image has returned, to be registered, after any
  sequence of calls and for all widths of the counters; without such a container it returns no bundle.
\<close>

theorem removal_returns_what_pull_returned:
  assumes "debug_env_ok env" and "run (debug_step env) NewDebugContainerManager tr d"
    and "debug_Remove env name verify d = Ret (r, d')"
  shows "(\<exists>args pb v b. r = Inr b \<and> DPull name args pb v b \<in> set tr) \<or>
    (r = Inr ([], - 1) \<and> name \<notin># debug_images d)"
proof -
  have inv: "debug_inv env d" using assms(1,2) by (auto intro: dbi.run_inv)
  then have "finite (dom (containers d))" by (simp add: debug_inv_def)
  from assms(3,1) this show ?thesis
  proof (cases rule: debug_Remove_cases)
    case (found cid vc)
    have "containers NewDebugContainerManager = Map.empty" by (simp add: NewDebugContainerManager_def)
    from run_containers_pulled [OF assms(2) debug_inv_New [OF assms(1)] this found(1)] found(2,3) show ?thesis by blast
  next
    case missing
    have "name \<notin># debug_images d" using \<open>finite (dom (containers d))\<close> missing(3) by (rule not_in_debug_images)
    with missing(1) show ?thesis by simp
  qed
qed

text \<open>An environment that takes the maps in the order of their keys and draws its identifiers from \<open>f\<close>.\<close>

definition sorted_order :: "(string \<rightharpoonup> 'v) \<Rightarrow> (string \<times> 'v) list" where
  "sorted_order m = map (\<lambda>k. (k, the (m k))) (sorted_list_of_set (dom m))"

definition example_debug_env :: "(nat \<Rightarrow> nat) \<Rightarrow> debug_env" where
  "example_debug_env f = \<lparr>Intn = \<lambda>n. f n mod length alphabet, container_order = \<lambda>_. sorted_order, binding_order = \<lambda>_. sorted_order\<rparr>"

lemma range_of_keys:
  assumes "set (map fst kvs) = dom m" and "distinct (map fst kvs)" and "\<And>k v. (k, v) \<in> set kvs \<Longrightarrow> v = the (m k)"
  shows "range_of kvs m"
proof -
  have "map_of kvs k = m k" for k
  proof (cases "map_of kvs k")
    case None
    then show ?thesis using assms(1) by (auto simp: map_of_eq_None_iff)
  next
    case (Some v)
    then have "k \<in> dom m" "v = the (m k)" using assms(1,3) by (force dest: map_of_SomeD)+
    with Some show ?thesis by auto
  qed
  with assms(2) show ?thesis by (auto simp: range_of_def)
qed

lemma range_of_sorted_order: "finite (dom m) \<Longrightarrow> range_of (sorted_order m) m"
  by (rule range_of_keys) (auto simp: sorted_order_def comp_def)

lemma alphabet_nonempty: "alphabet \<noteq> []"
  by (simp add: alphabet_def)

lemma example_debug_env_ok: "debug_env_ok (example_debug_env f)"
  by (simp add: debug_env_ok_def example_debug_env_def range_of_sorted_order alphabet_nonempty)

theorem removal_returns_what_pull_returned_witness:
  "\<exists>b d1 d2. debug_Pull (example_debug_env id) ''app:1'' [] Map.empty True NewDebugContainerManager = Ret (Inr b, d1) \<and>
     debug_Remove (example_debug_env id) ''app:1'' True d1 = Ret (Inr b, d2)"
proof -
  let ?env = "example_debug_env id"
  have ok: "debug_env_ok ?env" by (rule example_debug_env_ok)
  have "ids_fresh ?env (Suc 0) NewDebugContainerManager"
    by (simp add: ids_fresh_def NewDebugContainerManager_def)
  with dbg.pull_ok [where env = ?env and n = 0 and w = NewDebugContainerManager and img = "''app:1''" and args = "[]" and pb = Map.empty and v = True] debug_inv_New [OF ok]
  obtain b d1 where pull: "debug_Pull ?env ''app:1'' [] Map.empty True NewDebugContainerManager = Ret (Inr b, d1)"
    and d1: "debug_inv ?env d1 \<and> ids_fresh ?env 0 d1" "''app:1'' \<in># debug_images d1" by (auto simp: debug_Manager_def)
  from dbg.remove_ok [OF d1(1), of "''app:1''" True]
  obtain r d2 where remove: "debug_Remove ?env ''app:1'' True d1 = Ret (Inr r, d2)" by (auto simp: debug_Manager_def)
  have "run (debug_step ?env) NewDebugContainerManager [DPull ''app:1'' [] Map.empty True b] d1"
    by (rule run_single) (rule debug_step.d_pull [OF pull])
  from removal_returns_what_pull_returned [OF ok this remove] d1(2) have "r = b" by auto
  with pull remove show ?thesis by blast
qed

end
