(* ===== verification/Orchestrator.thy ===== *)
theory Orchestrator
  imports Container_Manager Deployment Config
begin

text \<open>
  The orchestrator of a node, \<^verbatim>\<open>cmd/carisma-orchestrator/app/orchestrator.go\<close> and \<^verbatim>\<open>envoy.go\<close>: it compares
  the running containers with a deployment configuration, removes and installs images through a
  container manager and reports the bundles to two handlers; and it runs the Envoy proxy. The state \<open>'w\<close>
  is what the manager and the handlers act on. Log output is left out.
\<close>

section \<open>Model\<close>

definition unmanagedContainerNamePrefix :: string where
  [go_data]: "unmanagedContainerNamePrefix = ''/carisma-keep-''"

definition envoyContainerImageName :: string where
  [go_data]: "envoyContainerImageName = ''envoyproxy/envoy:distroless-v1.27-latest''"

fun remember :: "(string \<rightharpoonup> string) \<Rightarrow> Image list \<Rightarrow> (string \<rightharpoonup> string)" where
  "remember memory [] = memory"
| "remember memory (i # a) = remember (memory(Name i \<mapsto> Version i)) a"

fun missing_loop :: "(string \<rightharpoonup> string) \<Rightarrow> Image list \<Rightarrow> Image list \<Rightarrow> Image list" where
  "missing_loop memory missing [] = missing"
| "missing_loop memory missing (i # b) =
     (if (case memory (Name i) of None \<Rightarrow> True | Some version \<Rightarrow> version \<noteq> Version i)
      then missing_loop memory (missing @ [i]) b else missing_loop memory missing b)"

definition diff :: "Image list \<Rightarrow> Image list \<Rightarrow> Image list" where
  "diff a b = missing_loop (remember Map.empty a) [] b"

record 'w orchestrator =
  cfg :: Config
  cntMgr :: "'w Manager"
  hReg :: "string \<Rightarrow> int32 \<Rightarrow> 'w \<Rightarrow> 'w"
  hUnreg :: "string \<Rightarrow> int32 \<Rightarrow> 'w \<Rightarrow> 'w"

definition newOrchestrator :: "Config \<Rightarrow> 'w Manager \<Rightarrow> (string \<Rightarrow> int32 \<Rightarrow> 'w \<Rightarrow> 'w) \<Rightarrow> (string \<Rightarrow> int32 \<Rightarrow> 'w \<Rightarrow> 'w) \<Rightarrow> 'w orchestrator" where
  "newOrchestrator c m reg unreg = \<lparr>cfg = c, cntMgr = m, hReg = reg, hUnreg = unreg\<rparr>"

text \<open>The loop that moves the containers to keep to the front of the slice it walks over.\<close>

definition managed_and_up :: "Container \<Rightarrow> bool" where
  "managed_and_up c \<longleftrightarrow>
     \<not> strings_HasPrefix (FirstName c) unmanagedContainerNamePrefix \<and> strings_HasPrefix (Status c) ''Up''"

function keep_loop :: "Container list \<Rightarrow> nat \<Rightarrow> nat \<Rightarrow> Container list" where
  "keep_loop cs i idx =
     (if i < length cs
      then if managed_and_up (cs ! i) then keep_loop (cs[idx := cs ! i]) (Suc i) (Suc idx) else keep_loop cs (Suc i) idx
      else take idx cs)"
  by auto
termination by (relation "measure (\<lambda>(cs, i, idx). length cs - i)") auto

declare keep_loop.simps [simp del]

fun qualify_loop :: "reference_parser \<Rightarrow> string \<Rightarrow> Image list \<Rightarrow> (go_error + Image list) outcome" where
  "qualify_loop parse domain [] = Ret (Inr [])"
| "qualify_loop parse domain (i # is) =
     (case ParseFQIN parse (Name i) domain of
        Panic \<Rightarrow> Panic
      | Ret (Inl err) \<Rightarrow> Ret (Inl err)
      | Ret (Inr fqin) \<Rightarrow>
          (case qualify_loop parse domain is of
             Panic \<Rightarrow> Panic
           | Ret (Inl err) \<Rightarrow> Ret (Inl err)
           | Ret (Inr rest) \<Rightarrow> Ret (Inr (i\<lparr>Name := fqin\<rparr> # rest))))"

definition is_envoy :: "Image \<Rightarrow> bool" where
  "is_envoy i \<longleftrightarrow> strings_HasSuffix (Name i) (Name (ParseImageName envoyContainerImageName))"

fun remove_loop :: "'w orchestrator \<Rightarrow> Image list \<Rightarrow> 'w \<Rightarrow> 'w outcome" where
  "remove_loop o' [] w = Ret w"
| "remove_loop o' (i # is) w =
     (if is_envoy i then remove_loop o' is w
      else case RemoveImageAndContainer (cntMgr o') (image_ref i) True w of
             Panic \<Rightarrow> Panic
           | Ret (Inl err, w) \<Rightarrow>
               (case RemoveImageAndContainer (cntMgr o') (image_ref i) False w of
                  Panic \<Rightarrow> Panic
                | Ret (_, w) \<Rightarrow> remove_loop o' is w)
           | Ret (Inr (bundleID, servicePort), w) \<Rightarrow> remove_loop o' is (hUnreg o' bundleID servicePort w))"

fun install_loop :: "'w orchestrator \<Rightarrow> Image list \<Rightarrow> 'w \<Rightarrow> 'w outcome" where
  "install_loop o' [] w = Ret w"
| "install_loop o' (i # is) w =
     (case PullImageAndCreateContainer (cntMgr o') (image_ref i) [] Map.empty True w of
        Panic \<Rightarrow> Panic
      | Ret (Inl err, w) \<Rightarrow> install_loop o' is w
      | Ret (Inr (bundleID, servicePort), w) \<Rightarrow> install_loop o' is (hReg o' bundleID servicePort w))"

definition process :: "reference_parser \<Rightarrow> 'w orchestrator \<Rightarrow> DeploymentConfig \<Rightarrow> 'w \<Rightarrow> (go_error option \<times> 'w) outcome" where
  "process parse o' dplmCfg w =
     (case dplmCfg (NodeHostname (cfg o')) of
        None \<Rightarrow> Ret (None, w)
      | Some node \<Rightarrow>
          (case Containers (cntMgr o') w of
             Panic \<Rightarrow> Panic
           | Ret (Inl err, w) \<Rightarrow> Ret (Some err, w)
           | Ret (Inr currContainers, w) \<Rightarrow>
               (let currDeploymentConfig = ExtractImageList (keep_loop currContainers 0 0) in
                case qualify_loop parse (DefaultContainerRegistryDomain (cfg o')) (map ParseImageName (image_list node)) of
                  Panic \<Rightarrow> Panic
                | Ret (Inl err) \<Rightarrow> Ret (Some err, w)
                | Ret (Inr newDeploymentConfig) \<Rightarrow>
                    (case remove_loop o' (diff newDeploymentConfig currDeploymentConfig) w of
                       Panic \<Rightarrow> Panic
                     | Ret w \<Rightarrow>
                         (case install_loop o' (diff currDeploymentConfig newDeploymentConfig) w of
                            Panic \<Rightarrow> Panic
                          | Ret w \<Rightarrow> Ret (None, w))))))"

subsection \<open>Envoy\<close>

definition envoy_ports :: "Config \<Rightarrow> port_bindings" where
  "envoy_ports c =
     Map.empty(strconv_Itoa (IngressPort c) \<mapsto> [\<lparr>HostIP = [], HostPort = strconv_Itoa (IngressPort c)\<rparr>],
               strconv_Itoa (EgressPort c) \<mapsto> [\<lparr>HostIP = [], HostPort = strconv_Itoa (EgressPort c)\<rparr>],
               strconv_Itoa (AdminPort c) \<mapsto> [\<lparr>HostIP = [], HostPort = strconv_Itoa (AdminPort c)\<rparr>])"

text \<open>The two packages that pack and print the bootstrap message are parameters.\<close>

definition runEnvoy :: "('any any_msg \<Rightarrow> go_error + 'any) \<Rightarrow> ('any Bootstrap \<Rightarrow> string) \<Rightarrow> reference_parser \<Rightarrow>
    'w Manager \<Rightarrow> Config \<Rightarrow> string \<Rightarrow> 'w \<Rightarrow> (go_error option \<times> 'w) outcome" where
  "runEnvoy anypb_New protojson_Format parse containerManager c nodeID w =
     (case EnvoyBootstrapConfigWithNodeID anypb_New c nodeID of
        Panic \<Rightarrow> Panic
      | Ret bootstrap \<Rightarrow>
          (case ParseFQIN parse envoyContainerImageName (DefaultContainerRegistryDomain c) of
             Panic \<Rightarrow> Panic
           | Ret (Inl err) \<Rightarrow> Ret (Some err, w)
           | Ret (Inr imgName) \<Rightarrow>
               (case PullImageAndCreateContainer containerManager imgName
                      [''--config-yaml'', protojson_Format bootstrap] (envoy_ports c) False w of
                  Panic \<Rightarrow> Panic
                | Ret (Inl err, w) \<Rightarrow> Ret (Some err, w)
                | Ret (Inr _, w) \<Rightarrow> Ret (None, w))))"

definition stopEnvoy :: "reference_parser \<Rightarrow> 'w Manager \<Rightarrow> Config \<Rightarrow> 'w \<Rightarrow> (go_error option \<times> 'w) outcome" where
  "stopEnvoy parse containerManager c w =
     (case ParseFQIN parse envoyContainerImageName (DefaultContainerRegistryDomain c) of
        Panic \<Rightarrow> Panic
      | Ret (Inl err) \<Rightarrow> Ret (Some err, w)
      | Ret (Inr imgName) \<Rightarrow>
          (case RemoveImageAndContainer containerManager imgName False w of
             Panic \<Rightarrow> Panic
           | Ret (Inl err, w) \<Rightarrow> Ret (Some err, w)
           | Ret (Inr _, w) \<Rightarrow> Ret (None, w)))"

section \<open>Comparing deployments\<close>

lemma remember_last: "remember m a = m ++ map_of (rev (map (\<lambda>i. (Name i, Version i)) a))"
  by (induction a arbitrary: m) (simp_all add: map_add_assoc [symmetric])

lemma missing_loop_filter: "missing_loop m acc b = acc @ filter (\<lambda>i. m (Name i) \<noteq> Some (Version i)) b"
  by (induction m acc b rule: missing_loop.induct) (auto split: option.splits)

text \<open>The version an image has in a list, the last one where it occurs more than once.\<close>

definition version_in :: "Image list \<Rightarrow> string \<Rightarrow> string option" where
  "version_in a = map_of (rev (map (\<lambda>i. (Name i, Version i)) a))"

lemma diff_filter: "diff a b = filter (\<lambda>i. version_in a (Name i) \<noteq> Some (Version i)) b"
  by (simp add: diff_def missing_loop_filter remember_last version_in_def)

lemma version_in_distinct:
  fixes i :: Image
  assumes "distinct (map Name a)"
  shows "version_in a (Name i) = Some (Version i) \<longleftrightarrow> i \<in> set a"
proof -
  let ?nv = "\<lambda>i. (Name i, Version i)"
  have "distinct (map fst (rev (map ?nv a)))"
    using assms by (simp add: rev_map [symmetric] comp_def)
  then have "version_in a (Name i) = Some (Version i) \<longleftrightarrow> ?nv i \<in> ?nv ` set a"
    by (simp add: version_in_def)
  also have "\<dots> \<longleftrightarrow> i \<in> set a"
    by (rule inj_image_mem_iff) (auto intro!: injI Image.equality)
  finally show ?thesis .
qed

lemma diff_distinct: "distinct (map Name a) \<Longrightarrow> diff a b = filter (\<lambda>i. i \<notin> set a) b"
  by (simp add: diff_filter version_in_distinct)

lemma keep_loop_filter:
  "idx \<le> i \<Longrightarrow> i \<le> length cs \<Longrightarrow> keep_loop cs i idx = take idx cs @ filter managed_and_up (drop i cs)"
proof (induction cs i idx rule: keep_loop.induct)
  case (1 cs i idx)
  show ?case
  proof (cases "i < length cs")
    case True
    with 1 show ?thesis
      by (subst keep_loop.simps) (simp add: Cons_nth_drop_Suc [symmetric] take_Suc_conv_app_nth)
  qed (use 1 in \<open>subst keep_loop.simps, simp\<close>)
qed

lemma keep_loop_eq: "keep_loop cs 0 0 = filter managed_and_up cs"
  by (simp add: keep_loop_filter)

text \<open>What a node runs, as the orchestrator sees it, and the images a configuration asks for.\<close>

definition running_images :: "Container list \<Rightarrow> Image list" where
  "running_images cs = map (ParseImageName \<circ> ImageName) (filter managed_and_up cs)"

lemma process_eq:
  assumes "dc (NodeHostname (cfg o')) = Some node"
  shows "process parse o' dc w =
    (case Containers (cntMgr o') w of
       Panic \<Rightarrow> Panic
     | Ret (Inl err, w) \<Rightarrow> Ret (Some err, w)
     | Ret (Inr cs, w) \<Rightarrow>
         (case qualify_loop parse (DefaultContainerRegistryDomain (cfg o')) (map ParseImageName (image_list node)) of
            Panic \<Rightarrow> Panic
          | Ret (Inl err) \<Rightarrow> Ret (Some err, w)
          | Ret (Inr new) \<Rightarrow>
              (case remove_loop o' (diff new (running_images cs)) w of
                 Panic \<Rightarrow> Panic
               | Ret w \<Rightarrow> (case install_loop o' (diff (running_images cs) new) w of Panic \<Rightarrow> Panic | Ret w \<Rightarrow> Ret (None, w)))))"
  using assms by (auto simp: process_def keep_loop_eq ExtractImageList_map running_images_def Let_def split: outcome.split sum.split)

section \<open>Working with a reliable manager\<close>

context reliable_manager
begin

text \<open>Handlers that leave the containers alone.\<close>

definition quiet :: "'w orchestrator \<Rightarrow> bool" where
  "quiet o' \<longleftrightarrow> cntMgr o' = mgr \<and>
     (\<forall>n b p w. inv n w \<longrightarrow> inv n (hReg o' b p w) \<and> images (hReg o' b p w) = images w) \<and>
     (\<forall>n b p w. inv n w \<longrightarrow> inv n (hUnreg o' b p w) \<and> images (hUnreg o' b p w) = images w)"

lemma remove_loop_images:
  "quiet o' \<Longrightarrow> inv n w \<Longrightarrow> \<exists>w'. remove_loop o' is w = Ret w' \<and> inv n w' \<and>
     images w' = images w - mset (map image_ref (filter (\<lambda>i. \<not> is_envoy i) is))"
proof (induction "is" arbitrary: w)
  case (Cons i "is")
  obtain b p w1 where rm: "RemoveImageAndContainer mgr (image_ref i) True w = Ret (Inr (b, p), w1)" "inv n w1"
    "images w1 = images w - {#image_ref i#}"
    using remove_ok [OF Cons.prems(2), of "image_ref i" True] by auto
  then have "inv n (hUnreg o' b p w1) \<and> images (hUnreg o' b p w1) = images w1"
    using Cons.prems(1) by (simp add: quiet_def)
  with rm Cons.IH [OF Cons.prems(1), of "hUnreg o' b p w1"] Cons.IH [OF Cons.prems] Cons.prems(1) show ?case
    by (auto simp: quiet_def)
qed simp

lemma install_loop_images:
  "quiet o' \<Longrightarrow> inv (n + length is) w \<Longrightarrow>
     \<exists>w'. install_loop o' is w = Ret w' \<and> inv n w' \<and> images w' = images w + mset (map image_ref is)"
proof (induction "is" arbitrary: w)
  case (Cons i "is")
  have "inv (Suc (n + length is)) w" using Cons.prems(2) by simp
  from pull_ok [OF this, of "image_ref i" "[]" Map.empty True]
  obtain b p w1 where pl: "PullImageAndCreateContainer mgr (image_ref i) [] Map.empty True w = Ret (Inr (b, p), w1)"
    "inv (n + length is) w1" "images w1 = add_mset (image_ref i) (images w)" by auto
  then have "inv (n + length is) (hReg o' b p w1) \<and> images (hReg o' b p w1) = images w1"
    using Cons.prems(1) by (simp add: quiet_def)
  with pl Cons.IH [OF Cons.prems(1), of "hReg o' b p w1"] Cons.prems(1) show ?case
    by (auto simp: quiet_def)
qed simp

lemma process_images:
  assumes "quiet o'" and "inv (n + length new) w" and "dc (NodeHostname (cfg o')) = Some node"
    and "qualify_loop parse (DefaultContainerRegistryDomain (cfg o')) (map ParseImageName (image_list node)) = Ret (Inr new)"
  shows "\<exists>cs w0 w'. Containers mgr w = Ret (Inr cs, w0) \<and> process parse o' dc w = Ret (None, w') \<and> inv n w' \<and>
    images w' = images w - mset (map image_ref (filter (\<lambda>i. \<not> is_envoy i) (diff new (running_images cs)))) +
      mset (map image_ref (diff (running_images cs) new))"
proof -
  obtain cs w0 where l: "Containers mgr w = Ret (Inr cs, w0)" "inv (n + length new) w0" "images w0 = images w"
    using list_ok [OF assms(2)] by blast
  obtain w1 where r: "remove_loop o' (diff new (running_images cs)) w0 = Ret w1" "inv (n + length new) w1"
    "images w1 = images w0 - mset (map image_ref (filter (\<lambda>i. \<not> is_envoy i) (diff new (running_images cs))))"
    using remove_loop_images [OF assms(1) l(2)] by blast
  have "inv (n + length (diff (running_images cs) new)) w1"
    by (rule inv_mono [OF _ r(2)]) (simp add: diff_filter)
  then obtain w2 where i: "install_loop o' (diff (running_images cs) new) w1 = Ret w2" "inv n w2"
    "images w2 = images w1 + mset (map image_ref (diff (running_images cs) new))"
    using install_loop_images [OF assms(1)] by blast
  have "cntMgr o' = mgr" using assms(1) by (simp add: quiet_def)
  with l r i show ?thesis by (simp add: process_eq [of dc o' node, OF assms(3)] assms(4))
qed

lemma run_and_stop_envoy:
  assumes "inv (Suc n) w" and "anypb_New AnyHttp2ProtocolOptions = Inr a"
    and "ParseFQIN parse envoyContainerImageName (DefaultContainerRegistryDomain c) = Ret (Inr img)"
  shows "\<exists>w1 w2. runEnvoy anypb_New fmt parse mgr c nodeID w = Ret (None, w1) \<and> inv n w1 \<and> images w1 = add_mset img (images w) \<and>
    stopEnvoy parse mgr c w1 = Ret (None, w2) \<and> inv n w2 \<and> images w2 = images w"
proof -
  obtain bs where bs: "EnvoyBootstrapConfigWithNodeID anypb_New c nodeID = Ret bs"
    using assms(2) by (simp add: EnvoyBootstrapConfigWithNodeID_def HTTP2ProtocolOptions_def)
  obtain r w1 where 1: "PullImageAndCreateContainer mgr img [''--config-yaml'', fmt bs] (envoy_ports c) False w = Ret (Inr r, w1)"
    "inv n w1" "images w1 = add_mset img (images w)" using pull_ok [OF assms(1)] by blast
  obtain r' w2 where 2: "RemoveImageAndContainer mgr img False w1 = Ret (Inr r', w2)" "inv n w2" "images w2 = images w"
    using remove_ok [OF 1(2), of img False] 1(3) by auto
  from 1 2 show ?thesis by (auto simp: runEnvoy_def stopEnvoy_def bs assms(3))
qed

end

lemma qualify_loop_append:
  "qualify_loop parse domain (xs @ ys) =
     (case qualify_loop parse domain xs of
        Panic \<Rightarrow> Panic | Ret (Inl e) \<Rightarrow> Ret (Inl e)
      | Ret (Inr xs') \<Rightarrow>
          (case qualify_loop parse domain ys of Panic \<Rightarrow> Panic | Ret (Inl e) \<Rightarrow> Ret (Inl e) | Ret (Inr ys') \<Rightarrow> Ret (Inr (xs' @ ys'))))"
  by (induction parse domain xs rule: qualify_loop.induct) (auto split: outcome.splits sum.splits)

text \<open>An orchestrator over the debug manager; its handlers do not touch the containers.\<close>

definition debug_orchestrator :: "debug_env \<Rightarrow> Config \<Rightarrow> debugContainerManager orchestrator" where
  "debug_orchestrator env c = \<lparr>cfg = c, cntMgr = debug_Manager env, hReg = \<lambda>_ _ d. d, hUnreg = \<lambda>_ _ d. d\<rparr>"

lemma debug_orchestrator_quiet: "dbg.quiet env (debug_orchestrator env c)"
  by (simp add: dbg.quiet_def debug_orchestrator_def)

lemma debug_nothing_running:
  assumes "debug_inv env d" and "debug_Containers env d = Ret (Inr cs, d')"
  shows "running_images cs = []"
proof -
  have "\<not> managed_and_up c" if c: "c \<in> set cs" for c
  proof -
    have ok: "debug_env_ok env" "finite (dom (containers d))" using assms(1) by (auto simp: debug_inv_def)
    obtain cid vc where "(cid, vc) \<in> set (container_order env (ranges d) (containers d))" and vc: "c = vcontainer vc"
      using c assms(2) by (auto simp: debug_Containers_def)
    then have "containers d cid = Some vc" using container_order_mem [OF ok] by blast
    with vc have "Status c \<in> {statusRunning, statusExited}" using assms(1) by (auto simp: debug_inv_def vc_ok_def)
    then show ?thesis by (auto simp: managed_and_up_def strings_HasPrefix_def go_data)
  qed
  then show ?thesis by (simp add: running_images_def filter_empty_conv)
qed

section \<open>The calls of the orchestrator\<close>

text \<open>What the orchestrator does, call by call, with what the manager returns.\<close>

datatype orch_event =
    EvList "go_error + Container list"
  | EvRemove string bool "go_error + string \<times> int32"
  | EvPull string bool "go_error + string \<times> int32"
  | EvReg string int32
  | EvUnreg string int32

definition recorded :: "('r \<Rightarrow> orch_event) \<Rightarrow> ('w \<Rightarrow> ('r \<times> 'w) outcome) \<Rightarrow> 'w \<times> orch_event list \<Rightarrow>
    ('r \<times> 'w \<times> orch_event list) outcome" where
  "recorded ev f wt = (case f (fst wt) of Panic \<Rightarrow> Panic | Ret (r, w) \<Rightarrow> Ret (r, w, snd wt @ [ev r]))"

definition silent :: "('w \<Rightarrow> ('r \<times> 'w) outcome) \<Rightarrow> 'w \<times> orch_event list \<Rightarrow> ('r \<times> 'w \<times> orch_event list) outcome" where
  "silent f wt = (case f (fst wt) of Panic \<Rightarrow> Panic | Ret (r, w) \<Rightarrow> Ret (r, w, snd wt))"

definition traced :: "'w orchestrator \<Rightarrow> ('w \<times> orch_event list) orchestrator" where
  "traced o' =
     \<lparr>cfg = cfg o',
      cntMgr =
        \<lparr>Containers = recorded EvList (Containers (cntMgr o')),
         StartContainer = \<lambda>cid. silent (StartContainer (cntMgr o') cid),
         StopContainer = \<lambda>cid. silent (StopContainer (cntMgr o') cid),
         PullImageAndCreateContainer = \<lambda>n args pb v. recorded (EvPull n v) (PullImageAndCreateContainer (cntMgr o') n args pb v),
         RemoveImageAndContainer = \<lambda>n v. recorded (EvRemove n v) (RemoveImageAndContainer (cntMgr o') n v),
         Close = silent (Close (cntMgr o'))\<rparr>,
      hReg = \<lambda>b p (w, tr). (hReg o' b p w, tr @ [EvReg b p]),
      hUnreg = \<lambda>b p (w, tr). (hUnreg o' b p w, tr @ [EvUnreg b p])\<rparr>"

text \<open>The calls for one image that is to go: a removal that is reported, or a second one after a failure.\<close>

definition removal_block :: "Image \<Rightarrow> orch_event list \<Rightarrow> bool" where
  "removal_block i evs \<longleftrightarrow>
     (\<exists>b p. evs = [EvRemove (image_ref i) True (Inr (b, p)), EvUnreg b p]) \<or>
     (\<exists>e r. evs = [EvRemove (image_ref i) True (Inl e), EvRemove (image_ref i) False r])"

text \<open>The calls for one image that is to come: a pull, reported when it succeeds.\<close>

definition install_block :: "Image \<Rightarrow> orch_event list \<Rightarrow> bool" where
  "install_block i evs \<longleftrightarrow>
     (\<exists>b p. evs = [EvPull (image_ref i) True (Inr (b, p)), EvReg b p]) \<or>
     (\<exists>e. evs = [EvPull (image_ref i) True (Inl e)])"

lemma traced_simps [simp]:
  "RemoveImageAndContainer (cntMgr (traced o')) n v (w, tr) =
     (case RemoveImageAndContainer (cntMgr o') n v w of Panic \<Rightarrow> Panic | Ret (r, w) \<Rightarrow> Ret (r, w, tr @ [EvRemove n v r]))"
  "PullImageAndCreateContainer (cntMgr (traced o')) n args pb v (w, tr) =
     (case PullImageAndCreateContainer (cntMgr o') n args pb v w of Panic \<Rightarrow> Panic | Ret (r, w) \<Rightarrow> Ret (r, w, tr @ [EvPull n v r]))"
  "hReg (traced o') b p (w, tr) = (hReg o' b p w, tr @ [EvReg b p])"
  "hUnreg (traced o') b p (w, tr) = (hUnreg o' b p w, tr @ [EvUnreg b p])"
  by (simp_all add: traced_def recorded_def split: outcome.split)

lemma remove_step_traced:
  assumes "remove_loop (traced o') (i # is) (w, tr) = Ret x" and "\<not> is_envoy i"
  shows "\<exists>blk w1. removal_block i blk \<and> remove_loop (traced o') is (w1, tr @ blk) = Ret x"
proof (cases "RemoveImageAndContainer (cntMgr o') (image_ref i) True w")
  case (Ret rw)
  obtain r w1 where rw: "rw = (r, w1)" by fastforce
  show ?thesis
  proof (cases r)
    case (Inl e)
    with assms Ret rw obtain r2 w2 where "RemoveImageAndContainer (cntMgr o') (image_ref i) False w1 = Ret (r2, w2)"
      by (auto split: outcome.splits)
    with assms Ret rw Inl show ?thesis
      by (intro exI [of _ "[EvRemove (image_ref i) True (Inl e), EvRemove (image_ref i) False r2]"] exI [of _ w2])
        (simp add: removal_block_def)
  next
    case (Inr bp)
    with assms Ret rw show ?thesis
      by (intro exI [of _ "[EvRemove (image_ref i) True (Inr bp), EvUnreg (fst bp) (snd bp)]"] exI [of _ "hUnreg o' (fst bp) (snd bp) w1"])
        (cases bp, simp add: removal_block_def)
  qed
qed (use assms in simp)

lemma remove_loop_traced:
  "remove_loop (traced o') is (w, tr) = Ret (w', tr') \<Longrightarrow>
     \<exists>bs. tr' = tr @ concat bs \<and> list_all2 removal_block (filter (\<lambda>i. \<not> is_envoy i) is) bs"
proof (induction "is" arbitrary: w tr)
  case (Cons i "is")
  show ?case
  proof (cases "is_envoy i")
    case False
    obtain blk w1 where blk: "removal_block i blk" and "remove_loop (traced o') is (w1, tr @ blk) = Ret (w', tr')"
      using remove_step_traced [OF Cons.prems False] by blast
    from Cons.IH [OF this(2)] obtain bs where "tr' = tr @ blk @ concat bs" "list_all2 removal_block (filter (\<lambda>i. \<not> is_envoy i) is) bs"
      by auto
    with blk False show ?thesis by (intro exI [of _ "blk # bs"]) simp
  qed (use Cons in simp)
qed simp

lemma install_step_traced:
  assumes "install_loop (traced o') (i # is) (w, tr) = Ret x"
  shows "\<exists>blk w1. install_block i blk \<and> install_loop (traced o') is (w1, tr @ blk) = Ret x"
proof (cases "PullImageAndCreateContainer (cntMgr o') (image_ref i) [] Map.empty True w")
  case (Ret rw)
  obtain r w1 where rw: "rw = (r, w1)" by fastforce
  show ?thesis
  proof (cases r)
    case (Inl e)
    with assms Ret rw show ?thesis
      by (intro exI [of _ "[EvPull (image_ref i) True (Inl e)]"] exI [of _ w1]) (simp add: install_block_def)
  next
    case (Inr bp)
    with assms Ret rw show ?thesis
      by (intro exI [of _ "[EvPull (image_ref i) True (Inr bp), EvReg (fst bp) (snd bp)]"] exI [of _ "hReg o' (fst bp) (snd bp) w1"])
        (cases bp, simp add: install_block_def)
  qed
qed (use assms in simp)

lemma install_loop_traced:
  "install_loop (traced o') is (w, tr) = Ret (w', tr') \<Longrightarrow>
     \<exists>bs. tr' = tr @ concat bs \<and> list_all2 install_block is bs"
proof (induction "is" arbitrary: w tr)
  case (Cons i "is")
  obtain blk w1 where blk: "install_block i blk" and "install_loop (traced o') is (w1, tr @ blk) = Ret (w', tr')"
    using install_step_traced [OF Cons.prems] by blast
  from Cons.IH [OF this(2)] obtain bs where "tr' = tr @ blk @ concat bs" "list_all2 install_block is bs" by auto
  with blk show ?case by (intro exI [of _ "blk # bs"]) simp
qed simp

subsection \<open>An example\<close>

definition example_env2 :: debug_env where
  "example_env2 = example_debug_env (\<lambda>n. n div 64)"

definition example_deployment :: "string \<Rightarrow> DeploymentConfig" where
  "example_deployment img = [''hpc-1'' \<mapsto> \<lparr>State = NodeStateRunning, Images = Some [img]\<rparr>]"

lemma example_inv: "debug_inv example_env2 NewDebugContainerManager"
  by (simp add: example_env2_def example_debug_env_ok)

lemma example_qualify:
  "qualify_loop example_parser ''docker.io'' [ParseImageName ''gcr.io/app:1''] = Ret (Inr [\<lparr>Name = ''gcr.io/app'', Version = ''1''\<rparr>])"
  by (simp add: ParseImageName_def ParseFQIN_def example_parser_def tag_suffix_def)

section \<open>Properties\<close>

text \<open>
  The two differences reconcile a node with its configuration: when no image occurs twice, removing
  from the running images what the first difference lists and adding what the second one lists gives
  the images asked for, nothing that runs already is installed again, and a node that runs what it
  should has nothing to do.
\<close>

lemma differences_reconcile:
  assumes "distinct (map Name running)" and "distinct (map Name desired)"
  shows "set (filter (\<lambda>i. i \<notin> set (diff desired running)) running) \<union> set (diff running desired) = set desired \<and>
    set (diff running desired) \<inter> set running = {} \<and> diff running running = []"
  using assms by (auto simp: diff_distinct)

text \<open>
  C3. The exact calls of one round that ends without an error, whatever the manager does: the containers
  are listed; then every running image that is not asked for, Envoy excepted, is removed, and reported as
  gone if the first removal succeeds; then every image that is asked for and does not run is pulled, and
  reported as there if the pull succeeds. Nothing else is removed, pulled or reported.
\<close>

theorem process_calls:
  assumes "dc (NodeHostname (cfg o')) = Some node"
    and "process parse (traced o') dc (w, []) = Ret (None, w', tr)"
  shows "\<exists>cs new rbs ibs.
    qualify_loop parse (DefaultContainerRegistryDomain (cfg o')) (map ParseImageName (image_list node)) = Ret (Inr new) \<and>
    tr = EvList (Inr cs) # concat rbs @ concat ibs \<and>
    list_all2 removal_block (filter (\<lambda>i. \<not> is_envoy i) (diff new (running_images cs))) rbs \<and>
    list_all2 install_block (diff (running_images cs) new) ibs"
proof -
  have c: "cfg (traced o') = cfg o'" by (simp add: traced_def)
  have "dc (NodeHostname (cfg (traced o'))) = Some node" using assms(1) c by simp
  note eq = process_eq [of dc "traced o'" node, OF this, of parse "(w, [])", unfolded assms(2) c]
  from eq obtain cs w0 new w1 tr1 where
    "qualify_loop parse (DefaultContainerRegistryDomain (cfg o')) (map ParseImageName (image_list node)) = Ret (Inr new)"
    and r: "remove_loop (traced o') (diff new (running_images cs)) (w0, [EvList (Inr cs)]) = Ret (w1, tr1)"
    and i: "install_loop (traced o') (diff (running_images cs) new) (w1, tr1) = Ret (w', tr)"
    by (auto simp: traced_def recorded_def split: outcome.splits sum.splits prod.splits)
  with remove_loop_traced [OF r] install_loop_traced [OF i] show ?thesis by fastforce
qed

theorem process_calls_witness:
  "\<exists>w' tr cs rbs ibs.
     process example_parser (traced (debug_orchestrator example_env2 (Default ''hpc-1''))) (example_deployment ''gcr.io/app:1'')
       (NewDebugContainerManager, []) = Ret (None, w', tr) \<and>
     tr = EvList (Inr cs) # concat rbs @ concat ibs \<and>
     list_all2 install_block (diff (running_images cs) [\<lparr>Name = ''gcr.io/app'', Version = ''1''\<rparr>]) ibs"
proof -
  let ?dc = "example_deployment ''gcr.io/app:1''" and ?o = "debug_orchestrator example_env2 (Default ''hpc-1'')"
  let ?node = "\<lparr>State = NodeStateRunning, Images = Some [''gcr.io/app:1'']\<rparr>"
  have n: "?dc (NodeHostname (cfg ?o)) = Some ?node" by (simp add: example_deployment_def Default_def debug_orchestrator_def)
  have q: "qualify_loop example_parser (DefaultContainerRegistryDomain (cfg ?o)) (map ParseImageName (image_list ?node)) =
      Ret (Inr [\<lparr>Name = ''gcr.io/app'', Version = ''1''\<rparr>])"
    using example_qualify by (simp add: image_list_def Default_def debug_orchestrator_def)
  have "\<exists>w' tr. process example_parser (traced ?o) ?dc (NewDebugContainerManager, []) = Ret (None, w', tr)"
    using example_qualify by (simp add: process_def example_deployment_def debug_orchestrator_def Default_def traced_def recorded_def
        debug_Manager_def debug_Containers_def NewDebugContainerManager_def example_env2_def example_debug_env_def sorted_order_def
        image_list_def keep_loop_eq ExtractImageList_def diff_filter version_in_def debug_Pull_def Let_def)
  then obtain w' tr where p: "process example_parser (traced ?o) ?dc (NewDebugContainerManager, []) = Ret (None, w', tr)" by blast
  from process_calls [of ?dc ?o, OF n p] p q show ?thesis by fastforce
qed

text \<open>
  Over the debug manager the orchestrator installs everything again each time: the manager reports
  containers as running or exited, the orchestrator only counts those whose status starts with \<^verbatim>\<open>Up\<close>. Every round
  adds all the images of the configuration to what is there and removes nothing.
\<close>

lemma debug_manager_installs_everything_again:
  assumes "debug_inv env d" and "ids_fresh env (n + length new) d" and "dc (NodeHostname c) = Some node"
    and "qualify_loop parse (DefaultContainerRegistryDomain c) (map ParseImageName (image_list node)) = Ret (Inr new)"
  shows "\<exists>d'. process parse (debug_orchestrator env c) dc d = Ret (None, d') \<and> debug_inv env d' \<and> ids_fresh env n d' \<and>
    debug_images d' = debug_images d + mset (map image_ref new)"
proof -
  have c: "cfg (debug_orchestrator env c) = c" by (simp add: debug_orchestrator_def)
  from dbg.process_images [where w = d and n = n and new = new and env = env and o' = "debug_orchestrator env c" and dc = dc and node = node,
      OF debug_orchestrator_quiet, unfolded c, OF _ assms(3,4)] assms(1,2)
  obtain cs d0 d' where "debug_Containers env d = Ret (Inr cs, d0)"
    and d': "process parse (debug_orchestrator env c) dc d = Ret (None, d')" "debug_inv env d'" "ids_fresh env n d'"
      "debug_images d' = debug_images d - mset (map image_ref (filter (\<lambda>i. \<not> is_envoy i) (diff new (running_images cs)))) +
        mset (map image_ref (diff (running_images cs) new))"
    by (auto simp: debug_Manager_def)
  then have "running_images cs = []" using debug_nothing_running [OF assms(1)] by blast
  with d' show ?thesis by (simp add: diff_filter version_in_def)
qed

text \<open>
  An image name that is short and names no registry crashes the orchestrator: when the parser completes a name with a
  registry at least as long as the name, the round panics before anything is removed or installed.
\<close>

lemma short_image_name_crashes_process:
  assumes "dc (NodeHostname (cfg o')) = Some node" and "image_list node = pre @ img # post"
    and "qualify_loop parse (DefaultContainerRegistryDomain (cfg o')) (map ParseImageName pre) = Ret (Inr new)"
    and "parse (Name (ParseImageName img)) = Inr (d @ ''/'' @ p, tag)" and "CHR ''/'' \<notin> set d"
    and "length (Name (ParseImageName img)) \<le> length d" and "Containers (cntMgr o') w = Ret (Inr cs, w1)"
  shows "process parse o' dc w = Panic"
proof -
  have "ParseFQIN parse (Name (ParseImageName img)) (DefaultContainerRegistryDomain (cfg o')) = Panic"
    using ParseFQIN_eq [of parse "Name (ParseImageName img)" d p tag, OF assms(4,5)] assms(6) by simp
  then show ?thesis
    by (simp add: process_eq [of dc o' node, OF assms(1)] assms(2,3,7) qualify_loop_append)
qed

text \<open>
  Over the debug manager, stopping Envoy takes back what running it created: one container of the
  Envoy image, and no other.
\<close>

lemma stopEnvoy_undoes_runEnvoy:
  assumes "debug_inv env d" and "ids_fresh env 1 d" and "anypb_New AnyHttp2ProtocolOptions = Inr a"
    and "ParseFQIN parse envoyContainerImageName (DefaultContainerRegistryDomain c) = Ret (Inr img)"
  shows "\<exists>d1 d2. runEnvoy anypb_New fmt parse (debug_Manager env) c nodeID d = Ret (None, d1) \<and>
    debug_images d1 = add_mset img (debug_images d) \<and>
    stopEnvoy parse (debug_Manager env) c d1 = Ret (None, d2) \<and> debug_images d2 = debug_images d"
  using dbg.run_and_stop_envoy [where w = d and n = 0 and anypb_New = anypb_New and a = a and parse = parse and c = c and img = img and env = env,
      OF _ assms(3,4)] assms(1,2) by fastforce

end
