(* ===== verification/Deployment_State.thy ===== *)
theory Deployment_State
  imports Orchestrator
begin

text \<open>
  How the orchestrator of the central node keeps the actual state of all nodes, the goroutine of
  \<^verbatim>\<open>cmd/carisma-orchestrator/app/app.go\<close> that receives deployment configurations: what a received configuration
  changes, and how the result is merged into the file that was written before. A map read from JSON may
  be nil (\<open>None\<close>): reading it finds nothing, assigning to it panics.
\<close>

section \<open>Model\<close>

text \<open>
  The \<^verbatim>\<open>switch\<close> over a received configuration: the new actual states and how often a difference of the file of
  desired states is forced. \<open>n\<close> is the length of the map.
\<close>

fun receive_loop :: "nat \<Rightarrow> (string \<times> NodeConfig) list \<Rightarrow> DeploymentConfig \<times> nat \<Rightarrow> DeploymentConfig \<times> nat" where
  "receive_loop n [] acc = acc"
| "receive_loop n ((hostname, node) # kvs) (globalActual, diffs) =
     receive_loop n kvs
       (if State node = NodeStateStarting then (globalActual, if n = 1 then Suc diffs else diffs)
        else if State node = NodeStateRunning \<or> State node = NodeStateStopped then (globalActual(hostname \<mapsto> node), diffs)
        else (globalActual, diffs))"

definition receive_config :: "(string \<times> NodeConfig) list \<Rightarrow> DeploymentConfig \<Rightarrow> DeploymentConfig \<times> nat" where
  "receive_config kvs globalActual = receive_loop (length kvs) kvs (globalActual, 0)"

text \<open>Reading a nil map, or a missing key, gives the zero value, whose state is empty.\<close>

definition prev_state :: "DeploymentConfig option \<Rightarrow> string \<Rightarrow> NodeState" where
  "prev_state prev hostname =
     (case prev of None \<Rightarrow> [] | Some m \<Rightarrow> (case m hostname of None \<Rightarrow> [] | Some node \<Rightarrow> State node))"

definition merge_node :: "NodeState \<Rightarrow> NodeConfig \<Rightarrow> NodeConfig" where
  "merge_node prev node =
     (let node = (if prev = NodeStateStopping \<and> State node = NodeStateRunning
                  then node\<lparr>State := NodeStateStopping\<rparr> else node)
      in if prev = NodeStateStarting \<and> State node = NodeStateStopped
         then node\<lparr>State := NodeStateStarting\<rparr> else node)"

fun merge_loop :: "(string \<times> NodeConfig) list \<Rightarrow> DeploymentConfig option \<Rightarrow> DeploymentConfig option outcome" where
  "merge_loop [] prev = Ret prev"
| "merge_loop ((hostname, node) # kvs) prev =
     (case prev of
        None \<Rightarrow> Panic
      | Some m \<Rightarrow> merge_loop kvs (Some (m(hostname \<mapsto> merge_node (prev_state prev hostname) node))))"

section \<open>Rules\<close>

lemma merge_loop_result:
  "distinct (map fst kvs) \<Longrightarrow>
     merge_loop kvs (Some m) = Ret (Some (\<lambda>h. case map_of kvs h of None \<Rightarrow> m h
       | Some node \<Rightarrow> Some (merge_node (prev_state (Some m) h) node)))"
proof (induction kvs arbitrary: m)
  case (Cons kv kvs)
  obtain h n where kv: "kv = (h, n)" by fastforce
  with Cons.prems have "map_of kvs h = None" by (auto simp: map_of_eq_None_iff)
  with Cons kv show ?case
    by (auto simp: prev_state_def fun_eq_iff split: option.split)
qed simp

end
