(* ===== verification/Docker_Manager.thy ===== *)
theory Docker_Manager
  imports Container_Manager Deployment_Json
begin

text \<open>
  The manager over a Docker engine, \<^verbatim>\<open>pkg/container/docker_container_manager.go\<close>. The client of the engine is a record of
  operations on a state \<open>'w\<close>, the reader of archives is an argument. What the engine promises is the predicate
  \<open>engine_laws\<close>: it says what a call that succeeds did, never that a call succeeds.
\<close>

section \<open>The client\<close>

record port =
  IP :: string
  PrivatePort :: nat
  PublicPort :: nat
  PortType :: string

record summary =
  SummaryID :: string
  SummaryNames :: "string list"
  SummaryImage :: string
  SummaryImageID :: string
  SummaryPorts :: "port list"
  SummaryStatus :: string

record list_options =
  All :: bool
  Ancestor :: "string option"

record host_config =
  NetworkMode :: string
  PublishAllPorts :: bool
  PortBindings :: port_bindings

text \<open>
  The reader of \<^verbatim>\<open>ImagePull\<close> is the sequence of its reads up to the one that returns an error; what a read does to the
  engine is its element. \<^verbatim>\<open>ContainerInspect\<close> gives the port bindings in the order in which the loop over the map sees them.
\<close>

record 'w docker_client =
  Info :: "'w \<Rightarrow> go_error option \<times> 'w"
  ContainerList :: "list_options \<Rightarrow> 'w \<Rightarrow> (go_error + summary list) \<times> 'w"
  ContainerStart :: "string \<Rightarrow> 'w \<Rightarrow> go_error option \<times> 'w"
  ContainerStop :: "string \<Rightarrow> 'w \<Rightarrow> go_error option \<times> 'w"
  ImagePull :: "string \<Rightarrow> 'w \<Rightarrow> (go_error + ('w \<Rightarrow> 'w) list) \<times> 'w"
  ContainerCreate :: "string \<Rightarrow> string list \<Rightarrow> host_config \<Rightarrow> 'w \<Rightarrow> (go_error + string) \<times> 'w"
  CopyFromContainer :: "string \<Rightarrow> string \<Rightarrow> 'w \<Rightarrow> (go_error + string) \<times> 'w"
  ContainerInspect :: "string \<Rightarrow> 'w \<Rightarrow> (go_error + (string \<times> PortBinding list) list) \<times> 'w"
  ContainerRemove :: "string \<Rightarrow> bool \<Rightarrow> 'w \<Rightarrow> go_error option \<times> 'w"
  ImageRemove :: "string \<Rightarrow> bool \<Rightarrow> 'w \<Rightarrow> go_error option \<times> 'w"
  ClientClose :: "'w \<Rightarrow> go_error option \<times> 'w"

text \<open>An archive: its entries and the error that ends it, \<^verbatim>\<open>io.EOF\<close> if it is complete.\<close>

record tar_entry =
  Typeflag :: char
  EntryName :: string
  EntryContent :: "go_error + string"

type_synonym untar = "string \<Rightarrow> tar_entry list \<times> go_error"

section \<open>Model\<close>

definition bundleConfigFileName :: string where [go_data]: "bundleConfigFileName = ''info.json''"
definition TypeReg :: char where [go_data]: "TypeReg = CHR ''0''"

record BundleConfig =
  BundleID :: string

fun ports_loop :: "nat \<Rightarrow> port list \<Rightarrow> string" where
  "ports_loop idx [] = []"
| "ports_loop idx (p # ps) =
     (if idx \<noteq> 0 then '', '' else []) @
     (if 0 < length (IP p) then IP p else wildcardIP) @ '':'' @ itoa_nat (PublicPort p) @ ''->'' @ itoa_nat (PrivatePort p) @ ''/'' @ PortType p @
     ports_loop (Suc idx) ps"

definition formatPorts :: "port list \<Rightarrow> string" where
  "formatPorts ports = ports_loop 0 ports"

definition decode_BundleConfig :: "BundleConfig decoder" where
  "decode_BundleConfig =
     decode_struct [''bundle_id''] (\<lambda>_ j c. let (s, e) = decode_string j (BundleID c) in (c\<lparr>BundleID := s\<rparr>, e))"

fun tar_loop :: "string \<Rightarrow> tar_entry list \<Rightarrow> go_error \<Rightarrow> go_error + BundleConfig" where
  "tar_loop containerID [] err =
     (if err = EOF then Inl (ErrorString (''cannot extract deployment config from container '' @ containerID @ [nl])) else Inl err)"
| "tar_loop containerID (header # hs) err =
     (if Typeflag header = TypeReg \<and> EntryName header = bundleConfigFileName then
        (case EntryContent header of
           Inl e \<Rightarrow> Inl e
         | Inr b \<Rightarrow>
             (case json_Unmarshal decode_BundleConfig b \<lparr>BundleID = []\<rparr> of
                (c, Some e) \<Rightarrow> Inl e
              | (c, None) \<Rightarrow> Inr c))
      else tar_loop containerID hs err)"

definition bundleConfiguration :: "untar \<Rightarrow> 'w docker_client \<Rightarrow> string \<Rightarrow> 'w \<Rightarrow> (go_error + BundleConfig) \<times> 'w" where
  "bundleConfiguration untar cl containerID w =
     (case CopyFromContainer cl containerID bundleConfigFileName w of
        (Inl err, w) \<Rightarrow> (Inl err, w)
      | (Inr r, w) \<Rightarrow> (case untar r of (entries, err) \<Rightarrow> tar_loop containerID entries err, w))"

text \<open>The loop over the bindings returns in its first pass.\<close>

definition first_host_port :: "(string \<times> PortBinding list) list \<Rightarrow> (go_error + int32) outcome" where
  "first_host_port kvs =
     (case kvs of
        [] \<Rightarrow> Ret (Inr (- 1))
      | (_, binding) # _ \<Rightarrow>
          (case binding of
             [] \<Rightarrow> Panic
           | b # _ \<Rightarrow> (case strconv_Atoi (HostPort b) of Inl err \<Rightarrow> Ret (Inl err) | Inr servicePort \<Rightarrow> Ret (Inr (wrap32 servicePort)))))"

definition containerServicePort :: "'w docker_client \<Rightarrow> string \<Rightarrow> 'w \<Rightarrow> ((go_error + int32) \<times> 'w) outcome" where
  "containerServicePort cl cid w =
     (case ContainerInspect cl cid w of
        (Inl err, w) \<Rightarrow> Ret (Inl err, w)
      | (Inr kvs, w) \<Rightarrow> (case first_host_port kvs of Panic \<Rightarrow> Panic | Ret r \<Rightarrow> Ret (r, w)))"

text \<open>Bundle and port of a container, as both operations read them when they verify the bundle.\<close>

definition bundle_and_port :: "untar \<Rightarrow> 'w docker_client \<Rightarrow> string \<Rightarrow> 'w \<Rightarrow> ((go_error + string \<times> int32) \<times> 'w) outcome" where
  "bundle_and_port untar cl cid w =
     (case bundleConfiguration untar cl cid w of
        (Inl err, w) \<Rightarrow> Ret (Inl err, w)
      | (Inr bundleConfig, w) \<Rightarrow>
          (case containerServicePort cl cid w of
             Panic \<Rightarrow> Panic
           | Ret (Inl err, w) \<Rightarrow> Ret (Inl err, w)
           | Ret (Inr servicePort, w) \<Rightarrow> Ret (Inr (BundleID bundleConfig, servicePort), w)))"

fun containers_loop :: "summary list \<Rightarrow> Container list outcome" where
  "containers_loop [] = Ret []"
| "containers_loop (c # cs) =
     (case SummaryNames c of
        [] \<Rightarrow> Panic
      | name # _ \<Rightarrow>
          (case containers_loop cs of
             Panic \<Rightarrow> Panic
           | Ret rest \<Rightarrow>
               Ret (\<lparr>ID = SummaryID c, FirstName = name, ImageName = SummaryImage c, Ports = formatPorts (SummaryPorts c),
                     Status = SummaryStatus c\<rparr> # rest)))"

definition docker_Containers :: "'w docker_client \<Rightarrow> 'w \<Rightarrow> ((go_error + Container list) \<times> 'w) outcome" where
  "docker_Containers cl w =
     (case ContainerList cl \<lparr>All = True, Ancestor = None\<rparr> w of
        (Inl err, w) \<Rightarrow> Ret (Inl err, w)
      | (Inr containerList, w) \<Rightarrow>
          (case containers_loop containerList of Panic \<Rightarrow> Panic | Ret cs \<Rightarrow> Ret (Inr cs, w)))"

definition docker_StartContainer :: "'w docker_client \<Rightarrow> string \<Rightarrow> 'w \<Rightarrow> (go_error option \<times> 'w) outcome" where
  "docker_StartContainer cl cid w = (case ContainerStart cl cid w of (Some err, w) \<Rightarrow> Ret (Some err, w) | (None, w) \<Rightarrow> Ret (None, w))"

definition docker_StopContainer :: "'w docker_client \<Rightarrow> string \<Rightarrow> 'w \<Rightarrow> (go_error option \<times> 'w) outcome" where
  "docker_StopContainer cl cid w = (case ContainerStop cl cid w of (Some err, w) \<Rightarrow> Ret (Some err, w) | (None, w) \<Rightarrow> Ret (None, w))"

text \<open>Reading until there is an error waits for the download to finish.\<close>

fun drain :: "('w \<Rightarrow> 'w) list \<Rightarrow> 'w \<Rightarrow> 'w" where
  "drain [] w = w"
| "drain (r # rs) w = drain rs (r w)"

definition docker_Pull :: "untar \<Rightarrow> 'w docker_client \<Rightarrow> string \<Rightarrow> string list \<Rightarrow> port_bindings \<Rightarrow> bool \<Rightarrow> 'w \<Rightarrow>
    ((go_error + string \<times> int32) \<times> 'w) outcome" where
  "docker_Pull untar cl name args portBindings verifyBundleConfig w =
     (case ImagePull cl name w of
        (Inl err, w) \<Rightarrow> Ret (Inl err, w)
      | (Inr rs, w) \<Rightarrow>
          (case ContainerCreate cl name args
                  \<lparr>NetworkMode = ''slirp4netns'', PublishAllPorts = True, PortBindings = portBindings\<rparr> (drain rs w) of
             (Inl err, w) \<Rightarrow> Ret (Inl err, w)
           | (Inr cid, w) \<Rightarrow>
               (case ContainerStart cl cid w of
                  (Some err, w) \<Rightarrow> Ret (Inl err, w)
                | (None, w) \<Rightarrow>
                    if verifyBundleConfig then bundle_and_port untar cl cid w else Ret (Inr ([], - 1), w))))"

definition docker_Remove :: "untar \<Rightarrow> 'w docker_client \<Rightarrow> string \<Rightarrow> bool \<Rightarrow> 'w \<Rightarrow> ((go_error + string \<times> int32) \<times> 'w) outcome" where
  "docker_Remove untar cl imageName verifyBundleConfig w =
     (case ContainerList cl \<lparr>All = False, Ancestor = Some imageName\<rparr> w of
        (Inl err, w) \<Rightarrow> Ret (Inl err, w)
      | (Inr [], w) \<Rightarrow> Ret (Inl (ErrorString ''can not not find container(s) running the supplied image''), w)
      | (Inr (c # _), w) \<Rightarrow>
          (case (if verifyBundleConfig then bundle_and_port untar cl (SummaryID c) w else Ret (Inr ([], - 1), w)) of
             Panic \<Rightarrow> Panic
           | Ret (Inl err, w) \<Rightarrow> Ret (Inl err, w)
           | Ret (Inr r, w) \<Rightarrow>
               (case ContainerRemove cl (SummaryID c) True w of
                  (Some err, w) \<Rightarrow> Ret (Inl err, w)
                | (None, w) \<Rightarrow>
                    (case ImageRemove cl (SummaryImageID c) True w of
                       (Some err, w) \<Rightarrow> Ret (Inl err, w)
                     | (None, w) \<Rightarrow> Ret (Inr r, w)))))"

definition docker_Close :: "'w docker_client \<Rightarrow> 'w \<Rightarrow> (go_error option \<times> 'w) outcome" where
  "docker_Close cl w = (case ClientClose cl w of (Some err, w) \<Rightarrow> Ret (Some err, w) | (None, w) \<Rightarrow> Ret (None, w))"

definition docker_Manager :: "untar \<Rightarrow> 'w docker_client \<Rightarrow> 'w Manager" where
  "docker_Manager untar cl =
     \<lparr>Containers = docker_Containers cl, StartContainer = docker_StartContainer cl, StopContainer = docker_StopContainer cl,
      PullImageAndCreateContainer = docker_Pull untar cl, RemoveImageAndContainer = docker_Remove untar cl, Close = docker_Close cl\<rparr>"

definition NewDockerContainerManager :: "untar \<Rightarrow> go_error + 'w docker_client \<Rightarrow> 'w \<Rightarrow> (go_error + 'w Manager) \<times> 'w" where
  "NewDockerContainerManager untar newClient w =
     (case newClient of
        Inl err \<Rightarrow> (Inl err, w)
      | Inr cl \<Rightarrow> (case Info cl w of (Some err, w) \<Rightarrow> (Inl err, w) | (None, w) \<Rightarrow> (Inr (docker_Manager untar cl), w)))"

section \<open>What the engine promises\<close>

record engine_container =
  engineImage :: string
  engineRunning :: bool
  engineNames :: "string list"
  engineFiles :: "string \<rightharpoonup> string"
  engineBindings :: port_bindings

text \<open>
  \<open>conts\<close> are the containers of the engine by identifier, \<open>anc img c\<close> says that the image of \<open>c\<close> is \<open>img\<close> or derived
  from it.
\<close>

definition listed :: "(string \<Rightarrow> engine_container \<Rightarrow> bool) \<Rightarrow> list_options \<Rightarrow> engine_container \<Rightarrow> bool" where
  "listed anc opts c \<longleftrightarrow>
     (All opts \<or> engineRunning c) \<and> (case Ancestor opts of None \<Rightarrow> True | Some img \<Rightarrow> anc img c)"

definition list_law :: "(string \<Rightarrow> engine_container \<Rightarrow> bool) \<Rightarrow> ('w \<Rightarrow> (string \<rightharpoonup> engine_container)) \<Rightarrow> 'w docker_client \<Rightarrow> bool" where
  "list_law anc conts cl \<longleftrightarrow>
     (\<forall>opts w ss w'. ContainerList cl opts w = (Inr ss, w') \<longrightarrow> conts w' = conts w \<and> distinct (map SummaryID ss) \<and>
        (\<forall>cid. cid \<in> SummaryID ` set ss \<longleftrightarrow> (\<exists>c. conts w cid = Some c \<and> listed anc opts c)))"

definition pull_law :: "('w \<Rightarrow> (string \<rightharpoonup> engine_container)) \<Rightarrow> 'w docker_client \<Rightarrow> bool" where
  "pull_law conts cl \<longleftrightarrow>
     (\<forall>img w rs w'. ImagePull cl img w = (Inr rs, w') \<longrightarrow> conts w' = conts w \<and> (\<forall>r \<in> set rs. \<forall>w. conts (r w) = conts w))"

definition create_law :: "('w \<Rightarrow> (string \<rightharpoonup> engine_container)) \<Rightarrow> 'w docker_client \<Rightarrow> bool" where
  "create_law conts cl \<longleftrightarrow>
     (\<forall>img args hc w cid w'. ContainerCreate cl img args hc w = (Inr cid, w') \<longrightarrow>
        conts w cid = None \<and> (\<exists>c. engineImage c = img \<and> conts w' = (conts w)(cid \<mapsto> c)))"

text \<open>The names that containers get which are created without one.\<close>

definition name_law :: "(string list \<Rightarrow> bool) \<Rightarrow> ('w \<Rightarrow> (string \<rightharpoonup> engine_container)) \<Rightarrow> 'w docker_client \<Rightarrow> bool" where
  "name_law P conts cl \<longleftrightarrow>
     (\<forall>img args hc w cid w' c. ContainerCreate cl img args hc w = (Inr cid, w') \<longrightarrow> conts w' cid = Some c \<longrightarrow> P (engineNames c))"

definition start_law :: "('w \<Rightarrow> (string \<rightharpoonup> engine_container)) \<Rightarrow> 'w docker_client \<Rightarrow> bool" where
  "start_law conts cl \<longleftrightarrow>
     (\<forall>cid w w'. ContainerStart cl cid w = (None, w') \<longrightarrow>
        (\<exists>c. conts w cid = Some c \<and> conts w' = (conts w)(cid \<mapsto> c\<lparr>engineRunning := True\<rparr>)))"

definition copy_law :: "('w \<Rightarrow> (string \<rightharpoonup> engine_container)) \<Rightarrow> 'w docker_client \<Rightarrow> bool" where
  "copy_law conts cl \<longleftrightarrow>
     (\<forall>cid path w r w'. CopyFromContainer cl cid path w = (r, w') \<longrightarrow>
        conts w' = conts w \<and> (\<forall>b. r = Inr b \<longrightarrow> (\<exists>c. conts w cid = Some c \<and> engineFiles c path = Some b)))"

definition inspect_law :: "('w \<Rightarrow> (string \<rightharpoonup> engine_container)) \<Rightarrow> 'w docker_client \<Rightarrow> bool" where
  "inspect_law conts cl \<longleftrightarrow>
     (\<forall>cid w r w'. ContainerInspect cl cid w = (r, w') \<longrightarrow>
        conts w' = conts w \<and> (\<forall>kvs. r = Inr kvs \<longrightarrow> (\<exists>c. conts w cid = Some c \<and> range_of kvs (engineBindings c))))"

definition remove_law :: "('w \<Rightarrow> (string \<rightharpoonup> engine_container)) \<Rightarrow> 'w docker_client \<Rightarrow> bool" where
  "remove_law conts cl \<longleftrightarrow>
     (\<forall>cid f w w'. ContainerRemove cl cid f w = (None, w') \<longrightarrow> conts w' = (conts w)(cid := None)) \<and>
     (\<forall>img f w w'. ImageRemove cl img f w = (None, w') \<longrightarrow> conts w' = conts w)"

definition ancestor_law :: "(string \<Rightarrow> engine_container \<Rightarrow> bool) \<Rightarrow> bool" where
  "ancestor_law anc \<longleftrightarrow>
     (\<forall>c. anc (engineImage c) c) \<and> (\<forall>img c b. anc img (c\<lparr>engineRunning := b\<rparr>) = anc img c)"

definition engine_laws :: "(string \<Rightarrow> engine_container \<Rightarrow> bool) \<Rightarrow> ('w \<Rightarrow> (string \<rightharpoonup> engine_container)) \<Rightarrow> 'w docker_client \<Rightarrow> bool" where
  "engine_laws anc conts cl \<longleftrightarrow>
     ancestor_law anc \<and> list_law anc conts cl \<and> pull_law conts cl \<and> create_law conts cl \<and> start_law conts cl \<and>
     copy_law conts cl \<and> inspect_law conts cl \<and> remove_law conts cl"

lemma engine_list:
  "engine_laws anc conts cl \<Longrightarrow> ContainerList cl opts w = (Inr ss, w') \<Longrightarrow> conts w' = conts w \<and> distinct (map SummaryID ss) \<and>
     (\<forall>cid. cid \<in> SummaryID ` set ss \<longleftrightarrow> (\<exists>c. conts w cid = Some c \<and> listed anc opts c))"
  unfolding engine_laws_def list_law_def by metis

lemma engine_create:
  "engine_laws anc conts cl \<Longrightarrow> ContainerCreate cl img args hc w = (Inr cid, w') \<Longrightarrow>
     conts w cid = None \<and> (\<exists>c. engineImage c = img \<and> conts w' = (conts w)(cid \<mapsto> c))"
  unfolding engine_laws_def create_law_def by metis

lemma engine_start:
  "engine_laws anc conts cl \<Longrightarrow> ContainerStart cl cid w = (None, w') \<Longrightarrow>
     \<exists>c. conts w cid = Some c \<and> conts w' = (conts w)(cid \<mapsto> c\<lparr>engineRunning := True\<rparr>)"
  unfolding engine_laws_def start_law_def by metis

lemma engine_copy:
  "engine_laws anc conts cl \<Longrightarrow> CopyFromContainer cl cid path w = (r, w') \<Longrightarrow>
     conts w' = conts w \<and> (\<forall>b. r = Inr b \<longrightarrow> (\<exists>c. conts w cid = Some c \<and> engineFiles c path = Some b))"
  unfolding engine_laws_def copy_law_def by metis

lemma engine_inspect:
  "engine_laws anc conts cl \<Longrightarrow> ContainerInspect cl cid w = (r, w') \<Longrightarrow>
     conts w' = conts w \<and> (\<forall>kvs. r = Inr kvs \<longrightarrow> (\<exists>c. conts w cid = Some c \<and> range_of kvs (engineBindings c)))"
  unfolding engine_laws_def inspect_law_def by metis

lemma engine_remove:
  "engine_laws anc conts cl \<Longrightarrow> ContainerRemove cl cid f w = (None, w') \<Longrightarrow> conts w' = (conts w)(cid := None)"
  "engine_laws anc conts cl \<Longrightarrow> ImageRemove cl img f w = (None, w') \<Longrightarrow> conts w' = conts w"
  unfolding engine_laws_def remove_law_def by metis+

lemma engine_pull:
  assumes "engine_laws anc conts cl" "ImagePull cl img w = (Inr rs, w')"
  shows "conts (drain rs w') = conts w"
proof -
  have "\<forall>r \<in> set rs. \<forall>w. conts (r w) = conts w" and w': "conts w' = conts w"
    using assms unfolding engine_laws_def pull_law_def by metis+
  then have "conts (drain rs v) = conts v" for v
    by (induction rs arbitrary: v) auto
  with w' show ?thesis by simp
qed

section \<open>Bundle and port of a container\<close>

text \<open>What a container says about its bundle, and the ports its bindings allow.\<close>

definition bundle_of :: "untar \<Rightarrow> string \<Rightarrow> engine_container \<Rightarrow> string option" where
  "bundle_of untar cid c =
     (case engineFiles c bundleConfigFileName of
        None \<Rightarrow> None
      | Some r \<Rightarrow> (case untar r of (entries, err) \<Rightarrow> (case tar_loop cid entries err of Inl e \<Rightarrow> None | Inr b \<Rightarrow> Some (BundleID b))))"

definition port_of :: "engine_container \<Rightarrow> int32 \<Rightarrow> bool" where
  "port_of c p \<longleftrightarrow> (\<exists>kvs. range_of kvs (engineBindings c) \<and> first_host_port kvs = Ret (Inr p))"

lemma bundle_and_port_ok:
  assumes "engine_laws anc conts cl" and "bundle_and_port untar cl cid w = Ret (Inr (b, p), w')"
  shows "conts w' = conts w \<and> (\<exists>c. conts w cid = Some c \<and> bundle_of untar cid c = Some b \<and> port_of c p)"
proof -
  obtain bc w1 where bc: "bundleConfiguration untar cl cid w = (Inr bc, w1)" "BundleID bc = b"
    and sp: "containerServicePort cl cid w1 = Ret (Inr p, w')"
    using assms(2) by (auto simp: bundle_and_port_def split: prod.splits sum.splits outcome.splits)
  from bc obtain r es err where r: "CopyFromContainer cl cid bundleConfigFileName w = (Inr r, w1)" "untar r = (es, err)" "tar_loop cid es err = Inr bc"
    by (auto simp: bundleConfiguration_def split: prod.splits sum.splits)
  from sp obtain kvs where kvs: "ContainerInspect cl cid w1 = (Inr kvs, w')" "first_host_port kvs = Ret (Inr p)"
    by (auto simp: containerServicePort_def split: prod.splits sum.splits outcome.splits)
  from engine_copy [OF assms(1) r(1)] engine_inspect [OF assms(1) kvs(1)] r bc(2) kvs(2) show ?thesis
    by (auto simp: bundle_of_def port_of_def)
qed

lemma bundle_and_port_conts:
  assumes "engine_laws anc conts cl" and "bundle_and_port untar cl cid w = Ret (r, w')"
  shows "conts w' = conts w"
  using assms(2) engine_copy [OF assms(1)] engine_inspect [OF assms(1)]
  by (fastforce simp: bundle_and_port_def bundleConfiguration_def containerServicePort_def split: prod.splits sum.splits outcome.splits)

lemma docker_pull_started:
  assumes "engine_laws anc conts cl" and "ImagePull cl img w = (Inr rs, w1)"
    and "ContainerCreate cl img args \<lparr>NetworkMode = ''slirp4netns'', PublishAllPorts = True, PortBindings = pb\<rparr> (drain rs w1) = (Inr cid, w2)"
    and "ContainerStart cl cid w2 = (None, w3)"
  shows "conts w cid = None \<and>
    (\<exists>c. engineImage c = img \<and> engineRunning c \<and> conts w3 = (conts w)(cid \<mapsto> c) \<and> (\<forall>P. name_law P conts cl \<longrightarrow> P (engineNames c)))"
proof -
  obtain c where c: "conts w cid = None" "engineImage c = img" "conts w2 = (conts w)(cid \<mapsto> c)"
    using engine_create [OF assms(1,3)] engine_pull [OF assms(1,2)] by auto
  have "P (engineNames c)" if "name_law P conts cl" for P
    using that assms(3) c(3) unfolding name_law_def by (metis fun_upd_same)
  with engine_start [OF assms(1,4)] c show ?thesis
    by (auto intro!: exI [of _ "c\<lparr>engineRunning := True\<rparr>"])
qed

lemma docker_pull_ok:
  assumes "engine_laws anc conts cl" and "docker_Pull untar cl img args pb v w = Ret (Inr (b, p), w')"
  shows "\<exists>cid c. conts w cid = None \<and> engineImage c = img \<and> engineRunning c \<and> conts w' = (conts w)(cid \<mapsto> c) \<and>
    (if v then bundle_of untar cid c = Some b \<and> port_of c p else b = [] \<and> p = - 1) \<and> (\<forall>P. name_law P conts cl \<longrightarrow> P (engineNames c))"
proof -
  obtain rs w1 cid w2 w3 where run: "ImagePull cl img w = (Inr rs, w1)"
    "ContainerCreate cl img args \<lparr>NetworkMode = ''slirp4netns'', PublishAllPorts = True, PortBindings = pb\<rparr> (drain rs w1) = (Inr cid, w2)"
    "ContainerStart cl cid w2 = (None, w3)"
    and v: "(if v then bundle_and_port untar cl cid w3 else Ret (Inr ([], - 1), w3)) = Ret (Inr (b, p), w')"
    using assms(2) by (auto simp: docker_Pull_def split: prod.splits sum.splits option.splits)
  obtain c where c: "conts w cid = None" "engineImage c = img" "engineRunning c" "conts w3 = (conts w)(cid \<mapsto> c)" "\<forall>P. name_law P conts cl \<longrightarrow> P (engineNames c)"
    using docker_pull_started [OF assms(1) run] by blast
  have "conts w' = conts w3 \<and> (if v then bundle_of untar cid c = Some b \<and> port_of c p else b = [] \<and> p = - 1)"
    using v c(4) bundle_and_port_ok [of anc conts cl untar cid w3 b p w', OF assms(1)] by (auto split: if_splits)
  with c show ?thesis by metis
qed

lemma docker_remove_ok:
  assumes "engine_laws anc conts cl" and "docker_Remove untar cl img v w = Ret (Inr (b, p), w')"
  shows "\<exists>cid c. conts w cid = Some c \<and> engineRunning c \<and> anc img c \<and> conts w' = (conts w)(cid := None) \<and>
    (if v then bundle_of untar cid c = Some b \<and> port_of c p else b = [] \<and> p = - 1)"
proof -
  obtain s ss w1 w2 w3 where l: "ContainerList cl \<lparr>All = False, Ancestor = Some img\<rparr> w = (Inr (s # ss), w1)"
    and v: "(if v then bundle_and_port untar cl (SummaryID s) w1 else Ret (Inr ([], - 1), w1)) = Ret (Inr (b, p), w2)"
    and r: "ContainerRemove cl (SummaryID s) True w2 = (None, w3)" "ImageRemove cl (SummaryImageID s) True w3 = (None, w')"
    using assms(2) by (auto simp: docker_Remove_def split: prod.splits sum.splits list.splits outcome.splits option.splits)
  from engine_list [OF assms(1) l] obtain c where c: "conts w1 = conts w" "conts w (SummaryID s) = Some c" "engineRunning c" "anc img c"
    by (auto simp: listed_def)
  have "conts w2 = conts w1 \<and> (if v then bundle_of untar (SummaryID s) c = Some b \<and> port_of c p else b = [] \<and> p = - 1)"
    using v c bundle_and_port_ok [of anc conts cl untar "SummaryID s" w1 b p w2, OF assms(1)] by (auto split: if_splits)
  with c r engine_remove [OF assms(1)] show ?thesis by metis
qed

lemma finite_range_of: "finite (dom m) \<Longrightarrow> \<exists>kvs. range_of kvs m"
proof -
  assume "finite (dom m)"
  from finite_distinct_list [OF this] obtain ks where ks: "set ks = dom m" "distinct ks" by auto
  have "map_of (map (\<lambda>k. (k, the (m k))) ks) = m"
    using ks(1) by (rule map_of_map_keys)
  with ks show ?thesis by (intro exI [of _ "map (\<lambda>k. (k, the (m k))) ks"]) (simp add: range_of_def comp_def)
qed

text \<open>With at most one binding the port does not depend on the order of the map.\<close>

lemma port_of_unique:
  assumes "port_of c p" "port_of c q" "card (dom (engineBindings c)) \<le> 1"
  shows "p = q"
proof -
  obtain k1 k2 where k: "range_of k1 (engineBindings c)" "range_of k2 (engineBindings c)"
    "first_host_port k1 = Ret (Inr p)" "first_host_port k2 = Ret (Inr q)"
    using assms(1,2) by (auto simp: port_of_def)
  have one: "length k \<le> 1" if "range_of k (engineBindings c)" for k
  proof -
    have "card (dom (engineBindings c)) = length k"
      using that distinct_card [of "map fst k"] dom_map_of_conv_image_fst [of k] by (simp add: range_of_def)
    with assms(3) show ?thesis by simp
  qed
  have "set k1 = set k2" using k(1,2) map_of_inject_set by (metis range_of_def)
  with one [OF k(1)] one [OF k(2)] have "k1 = k2"
    by (cases k1; cases k2) auto
  with k show ?thesis by simp
qed

section \<open>An engine\<close>

text \<open>An engine with room for one container, whose files and bindings are given; archives are single files.\<close>

type_synonym slot = "(string \<times> bool) option"

definition slot_container :: "(string \<rightharpoonup> string) \<Rightarrow> (string \<times> PortBinding list) list \<Rightarrow> string \<times> bool \<Rightarrow> engine_container" where
  "slot_container files kvs s =
     \<lparr>engineImage = fst s, engineRunning = snd s, engineNames = [''/c1''], engineFiles = files, engineBindings = map_of kvs\<rparr>"

definition slot_conts :: "(string \<rightharpoonup> string) \<Rightarrow> (string \<times> PortBinding list) list \<Rightarrow> slot \<Rightarrow> (string \<rightharpoonup> engine_container)" where
  "slot_conts files kvs w = (case w of None \<Rightarrow> Map.empty | Some s \<Rightarrow> [''c1'' \<mapsto> slot_container files kvs s])"

definition same_image :: "string \<Rightarrow> engine_container \<Rightarrow> bool" where
  "same_image img c \<longleftrightarrow> engineImage c = img"

definition slot_client :: "(string \<rightharpoonup> string) \<Rightarrow> (string \<times> PortBinding list) list \<Rightarrow> slot docker_client" where
  "slot_client files kvs =
     (let no = ExternalError ''no such container'' in
      \<lparr>Info = \<lambda>w. (None, w),
       ContainerList = \<lambda>opts w.
         (Inr (case w of
                 None \<Rightarrow> []
               | Some s \<Rightarrow>
                   if listed same_image opts (slot_container files kvs s)
                   then [\<lparr>SummaryID = ''c1'', SummaryNames = [''/c1''], SummaryImage = fst s, SummaryImageID = fst s, SummaryPorts = [],
                          SummaryStatus = if snd s then ''Up'' else ''Exited''\<rparr>]
                   else []), w),
       ContainerStart = \<lambda>cid w. if cid = ''c1'' \<and> w \<noteq> None then (None, map_option (\<lambda>s. (fst s, True)) w) else (Some no, w),
       ContainerStop = \<lambda>cid w. if cid = ''c1'' \<and> w \<noteq> None then (None, map_option (\<lambda>s. (fst s, False)) w) else (Some no, w),
       ImagePull = \<lambda>img w. (Inr [id], w),
       ContainerCreate = \<lambda>img args hc w. if w = None then (Inr ''c1'', Some (img, False)) else (Inl no, w),
       CopyFromContainer = \<lambda>cid path w.
         (if cid = ''c1'' \<and> w \<noteq> None then (case files path of None \<Rightarrow> Inl no | Some r \<Rightarrow> Inr r) else Inl no, w),
       ContainerInspect = \<lambda>cid w. (if cid = ''c1'' \<and> w \<noteq> None then Inr kvs else Inl no, w),
       ContainerRemove = \<lambda>cid f w. if cid = ''c1'' \<and> w \<noteq> None then (None, None) else (Some no, w),
       ImageRemove = \<lambda>img f w. (None, w),
       ClientClose = \<lambda>w. (None, w)\<rparr>)"

lemma slot_conts_lookup:
  "slot_conts files kvs (Some s) cid = Some c \<longleftrightarrow> cid = ''c1'' \<and> c = slot_container files kvs s"
  "slot_conts files kvs None = Map.empty"
  by (auto simp: slot_conts_def)

lemma slot_list_law: "list_law same_image (slot_conts files kvs) (slot_client files kvs)"
  unfolding list_law_def
proof (intro allI impI)
  fix opts w ss w'
  assume "ContainerList (slot_client files kvs) opts w = (Inr ss, w')"
  then show "slot_conts files kvs w' = slot_conts files kvs w \<and> distinct (map SummaryID ss) \<and>
      (\<forall>cid. cid \<in> SummaryID ` set ss \<longleftrightarrow> (\<exists>c. slot_conts files kvs w cid = Some c \<and> listed same_image opts c))"
    by (cases w; cases "listed same_image opts (slot_container files kvs (the w))")
      (simp_all add: slot_client_def Let_def slot_conts_lookup, (auto simp: slot_conts_lookup)?)
qed

lemma slot_create_law: "create_law (slot_conts files kvs) (slot_client files kvs)"
proof -
  have "\<exists>c. engineImage c = img \<and> slot_conts files kvs (Some (img, b)) = [''c1'' \<mapsto> c]" for img b
    by (intro exI [of _ "slot_container files kvs (img, b)"]) (simp add: slot_conts_def slot_container_def)
  then show ?thesis
    by (simp add: create_law_def slot_client_def Let_def) (simp add: slot_conts_def)
qed

lemma slot_start_law: "start_law (slot_conts files kvs) (slot_client files kvs)"
  by (auto simp: start_law_def slot_client_def Let_def slot_conts_def slot_container_def split: if_splits)

lemma slot_copy_law: "copy_law (slot_conts files kvs) (slot_client files kvs)"
  by (auto simp: copy_law_def slot_client_def Let_def slot_conts_def slot_container_def split: if_splits option.splits)

lemma slot_other_laws:
  "ancestor_law same_image" "pull_law (slot_conts files kvs) (slot_client files kvs)" "remove_law (slot_conts files kvs) (slot_client files kvs)"
  by (simp_all add: ancestor_law_def same_image_def pull_law_def remove_law_def slot_client_def Let_def slot_conts_def split: option.splits)

lemma slot_engine: "distinct (map fst kvs) \<Longrightarrow> engine_laws same_image (slot_conts files kvs) (slot_client files kvs)"
  unfolding engine_laws_def
  by (simp add: slot_list_law slot_create_law slot_start_law slot_copy_law slot_other_laws) (auto simp: inspect_law_def slot_client_def Let_def slot_conts_def slot_container_def range_of_def)

definition plain_file :: untar where
  "plain_file r = ([\<lparr>Typeflag = CHR ''0'', EntryName = ''info.json'', EntryContent = Inr r\<rparr>], EOF)"

definition app_info :: string where
  "app_info = json_indent 0 (JObj [(''bundle_id'', JStr ''app'')])"

definition app_bindings :: "(string \<times> PortBinding list) list" where
  "app_bindings = [(''80/tcp'', [\<lparr>HostIP = [], HostPort = ''8080''\<rparr>])]"

definition app_client :: "slot docker_client" where
  "app_client = slot_client [''info.json'' \<mapsto> app_info] app_bindings"

lemma app_engine: "engine_laws same_image (slot_conts [''info.json'' \<mapsto> app_info] app_bindings) app_client"
  unfolding app_client_def by (rule slot_engine) (simp add: app_bindings_def)

lemma read_app_bundle:
  assumes "CopyFromContainer cl cid ''info.json'' w = (Inr app_info, w)" and "ContainerInspect cl cid w = (Inr app_bindings, w)"
  shows "bundle_and_port plain_file cl cid w = Ret (Inr (''app'', 8080), w)"
proof -
  have "json_read app_info = Some (JObj [(''bundle_id'', JStr ''app'')])"
    unfolding app_info_def by (rule json_read_indent) (simp_all add: utf8_len_def byte_in_def maxNestingDepth_def)
  moreover have "strconv_Atoi ''8080'' = Inr 8080"
    by (simp add: strconv_Atoi_def is_digit_def digit_val_def)
  ultimately show ?thesis
    using assms by (simp add: bundle_and_port_def bundleConfiguration_def containerServicePort_def plain_file_def first_host_port_def app_bindings_def
        go_data json_Unmarshal_def decode_BundleConfig_def decode_struct_def decode_string_def field_of_def in_int32_def)
qed

lemma app_bundle: "bundle_and_port plain_file app_client ''c1'' (Some s) = Ret (Inr (''app'', 8080), Some s)"
  by (rule read_app_bundle) (simp_all add: app_client_def slot_client_def Let_def)

lemma app_list: "docker_Containers app_client w =
    Ret (Inr (case w of None \<Rightarrow> [] | Some s \<Rightarrow>
      [\<lparr>ID = ''c1'', FirstName = ''/c1'', ImageName = fst s, Ports = [], Status = if snd s then ''Up'' else ''Exited''\<rparr>]), w)"
  by (cases w) (simp_all add: docker_Containers_def app_client_def slot_client_def Let_def listed_def formatPorts_def)

lemma app_client_calls:
  "ImagePull app_client img w = (Inr [id], w)"
  "ContainerCreate app_client img args hc None = (Inr ''c1'', Some (img, False))"
  "ContainerStart app_client ''c1'' (Some s) = (None, Some (fst s, True))"
  "ContainerList app_client \<lparr>All = False, Ancestor = Some img\<rparr> (Some (img, True)) =
     (Inr [\<lparr>SummaryID = ''c1'', SummaryNames = [''/c1''], SummaryImage = img, SummaryImageID = img, SummaryPorts = [], SummaryStatus = ''Up''\<rparr>],
      Some (img, True))"
  "ContainerRemove app_client ''c1'' f (Some s) = (None, None)"
  "ImageRemove app_client img f w = (None, w)"
  by (simp_all add: app_client_def slot_client_def Let_def listed_def same_image_def slot_container_def)

lemma app_pull: "docker_Pull plain_file app_client img [] Map.empty True None = Ret (Inr (''app'', 8080), Some (img, True))"
  by (simp add: docker_Pull_def app_bundle app_client_calls)

lemma app_remove: "docker_Remove plain_file app_client img True (Some (img, True)) = Ret (Inr (''app'', 8080), None)"
  by (simp add: docker_Remove_def app_bundle app_client_calls)

section \<open>Properties\<close>



text \<open>
  C19. A removal takes back a pull, with an engine that keeps its promises: when the pull and the removal both succeed, no running container belonged to the image
  before, and the container that the pull makes has at most one port binding, then both return the same
  bundle and port and the engine has the same containers as before.
\<close>

theorem docker_remove_undoes_pull:
  assumes "engine_laws anc conts cl"
    and "\<forall>cid c. conts w cid = Some c \<longrightarrow> engineRunning c \<longrightarrow> \<not> anc img c"
    and "docker_Pull untar cl img args pb v w = Ret (Inr r, w1)"
    and "\<forall>cid c. conts w cid = None \<longrightarrow> conts w1 cid = Some c \<longrightarrow> card (dom (engineBindings c)) \<le> 1"
    and "docker_Remove untar cl img v w1 = Ret (Inr r', w2)"
  shows "r' = r \<and> conts w2 = conts w"
proof -
  obtain b p b' p' where r: "r = (b, p)" "r' = (b', p')" by fastforce
  obtain cid c where 1: "conts w cid = None" "engineImage c = img" "engineRunning c" "conts w1 = (conts w)(cid \<mapsto> c)"
    "if v then bundle_of untar cid c = Some b \<and> port_of c p else b = [] \<and> p = - 1"
    using docker_pull_ok [OF assms(1), of untar img args pb v w b p w1] assms(3) r by auto
  obtain cid' c' where 2: "conts w1 cid' = Some c'" "engineRunning c'" "anc img c'" "conts w2 = (conts w1)(cid' := None)"
    "if v then bundle_of untar cid' c' = Some b' \<and> port_of c' p' else b' = [] \<and> p' = - 1"
    using docker_remove_ok [OF assms(1), of untar img v w1 b' p' w2] assms(5) r by auto
  have "cid' = cid" using assms(2) 1 2 by (auto split: if_splits)
  moreover from this 1 2 have "c' = c" by simp
  moreover have "card (dom (engineBindings c)) \<le> 1" using assms(4) [rule_format, of cid c] 1(1,4) by simp
  ultimately show ?thesis
    using 1 2 r port_of_unique [of c p p'] by (auto split: if_splits simp: fun_upd_idem)
qed

theorem docker_remove_undoes_pull_witness:
  "\<exists>r w1 w2. docker_Pull plain_file app_client ''app:1'' [] Map.empty True None = Ret (Inr r, w1) \<and>
     docker_Remove plain_file app_client ''app:1'' True w1 = Ret (Inr r, w2) \<and>
     slot_conts [''info.json'' \<mapsto> app_info] app_bindings w2 = slot_conts [''info.json'' \<mapsto> app_info] app_bindings None"
proof -
  have "\<forall>cid c. slot_conts [''info.json'' \<mapsto> app_info] app_bindings None cid = None \<longrightarrow>
      slot_conts [''info.json'' \<mapsto> app_info] app_bindings (Some (''app:1'', True)) cid = Some c \<longrightarrow> card (dom (engineBindings c)) \<le> 1"
    by (auto simp: slot_conts_lookup slot_container_def app_bindings_def)
  from docker_remove_undoes_pull [OF app_engine _ app_pull this app_remove] app_pull [of "''app:1''"] app_remove [of "''app:1''"] show ?thesis
    by (fastforce simp: slot_conts_lookup)
qed

text \<open>
  C33. A bundle that cannot be verified, because its configuration file is missing or malformed or its port is not a number, is reported
  as an error, but its container stays and runs: the next round finds the image running and never announces the bundle.
\<close>

theorem unverified_bundle_keeps_running:
  assumes "engine_laws anc conts cl" and "ImagePull cl img w = (Inr rs, w1)"
    and "ContainerCreate cl img args \<lparr>NetworkMode = ''slirp4netns'', PublishAllPorts = True, PortBindings = pb\<rparr> (drain rs w1) = (Inr cid, w2)"
    and "ContainerStart cl cid w2 = (None, w3)"
    and "bundle_and_port untar cl cid w3 = Ret (Inl err, w4)"
  shows "docker_Pull untar cl img args pb True w = Ret (Inl err, w4) \<and>
    (\<exists>c. conts w4 cid = Some c \<and> engineImage c = img \<and> engineRunning c)"
proof -
  have "docker_Pull untar cl img args pb True w = Ret (Inl err, w4)"
    using assms(2-5) by (simp add: docker_Pull_def)
  moreover have "conts w4 = conts w3" by (rule bundle_and_port_conts [OF assms(1,5)])
  ultimately show ?thesis
    using docker_pull_started [OF assms(1-4)] by auto
qed

theorem unverified_bundle_keeps_running_witness:
  "\<exists>err w. docker_Pull plain_file (slot_client Map.empty []) ''app:1'' [] Map.empty True None = Ret (Inl err, w) \<and>
     (\<exists>c. slot_conts Map.empty [] w ''c1'' = Some c \<and> engineRunning c)"
proof -
  let ?cl = "slot_client Map.empty []"
  have "engine_laws same_image (slot_conts Map.empty []) ?cl" by (rule slot_engine) simp
  moreover have "ImagePull ?cl ''app:1'' None = (Inr [id], None)" by (simp add: slot_client_def Let_def)
  moreover have "ContainerCreate ?cl ''app:1'' [] \<lparr>NetworkMode = ''slirp4netns'', PublishAllPorts = True, PortBindings = Map.empty\<rparr> (drain [id] None) =
      (Inr ''c1'', Some (''app:1'', False))" by (simp add: slot_client_def Let_def)
  moreover have "ContainerStart ?cl ''c1'' (Some (''app:1'', False)) = (None, Some (''app:1'', True))" by (auto simp: slot_client_def Let_def)
  moreover have "bundle_and_port plain_file ?cl ''c1'' (Some (''app:1'', True)) = Ret (Inl (ExternalError ''no such container''), Some (''app:1'', True))"
    by (simp add: bundle_and_port_def bundleConfiguration_def slot_client_def Let_def)
  ultimately show ?thesis
    using unverified_bundle_keeps_running [of same_image "slot_conts Map.empty []" ?cl "''app:1''" None "[id]" None "[]" Map.empty "''c1''"
        "Some (''app:1'', False)" "Some (''app:1'', True)" plain_file "ExternalError ''no such container''" "Some (''app:1'', True)"]
    by blast
qed

text \<open>
  The port of a container with several bindings is a matter of chance: any of its bindings may come first in the
  loop over the map, so a removal may report another port than the pull did.
\<close>

lemma service_port_depends_on_map_order:
  assumes "finite (dom (engineBindings c))" and "engineBindings c k = Some (pb # pbs)" and "strconv_Atoi (HostPort pb) = Inr i"
  shows "port_of c (wrap32 i)"
proof -
  obtain rest where "range_of rest ((engineBindings c)(k := None))"
    using finite_range_of [of "(engineBindings c)(k := None)"] assms(1) by auto
  then have "range_of ((k, pb # pbs) # rest) (engineBindings c)"
    using assms(2) by (auto simp: range_of_def fun_eq_iff map_of_eq_None_iff [symmetric])
  then show ?thesis
    using assms(3) by (auto simp: port_of_def first_host_port_def intro!: exI [of _ "(k, pb # pbs) # rest"])
qed

end
