(* ===== verification/File_Watcher.thy ===== *)
theory File_Watcher
  imports Go_Prelude
begin

text \<open>
  The file watcher of \<^verbatim>\<open>pkg/io/file_watcher.go\<close>. The state \<open>'w\<close> is what the handler acts on. An event of
  the notification library comes with what the file system answers while the watcher handles it: the results of
  \<^verbatim>\<open>os.Stat\<close>, one per round of the waiting loop, and the result of \<^verbatim>\<open>os.ReadFile\<close>.
\<close>

section \<open>Model\<close>

record 'w FileWatcher =
  filePath :: string
  lastRead :: string
  handler :: "(string \<Rightarrow> string \<Rightarrow> 'w \<Rightarrow> 'w) option"
  watched :: "string list"

text \<open>The notification library's watcher is the list of paths it watches; adding one may fail.\<close>

definition NewFileWatcher :: "string \<Rightarrow> go_error option \<Rightarrow> go_error option \<Rightarrow> go_error + 'w FileWatcher" where
  "NewFileWatcher path newErr addErr =
     (case newErr of
        Some err \<Rightarrow> Inl err
      | None \<Rightarrow>
          (case addErr of
             Some err \<Rightarrow> Inl err
           | None \<Rightarrow> Inr \<lparr>filePath = path, lastRead = [], handler = None, watched = [path]\<rparr>))"

definition HandleDiff :: "(string \<Rightarrow> string \<Rightarrow> 'w \<Rightarrow> 'w) \<Rightarrow> 'w FileWatcher \<Rightarrow> 'w FileWatcher" where
  "HandleDiff h c = c\<lparr>handler := Some h\<rparr>"

definition FileWatcher_Close :: "'w FileWatcher \<Rightarrow> 'w FileWatcher" where
  "FileWatcher_Close c = c\<lparr>watched := []\<rparr>"

datatype stat_result = StatOk | StatNotExist | StatError go_error

text \<open>The waiting loop: \<open>None\<close> as long as the file has not been found.\<close>

fun waitUntilFind :: "stat_result list \<Rightarrow> go_error option option" where
  "waitUntilFind [] = None"
| "waitUntilFind (StatNotExist # rs) = waitUntilFind rs"
| "waitUntilFind (StatError err # rs) = Some (Some err)"
| "waitUntilFind (StatOk # rs) = Some None"

text \<open>
  What reaches the loop of \<^verbatim>\<open>Watch\<close>: an event (a rename or not) with the answers of the file system and whether
  watching the path again fails, an error of the library, or the reset that \<^verbatim>\<open>Diff(true)\<close> makes before it sends its event.
\<close>

datatype watch_input =
    FsEvent bool "stat_result list" "go_error + string" "go_error option"
  | FsError go_error
  | ForceReset

definition Watch_event :: "bool \<Rightarrow> (go_error + string) \<Rightarrow> go_error option \<Rightarrow> 'w FileWatcher \<Rightarrow> 'w \<Rightarrow> 'w FileWatcher \<times> 'w" where
  "Watch_event isRename readFile addErr c w =
     (case readFile of
        Inl err \<Rightarrow> (c, w)
      | Inr content \<Rightarrow>
          (let w = (case handler c of None \<Rightarrow> w | Some h \<Rightarrow> h (lastRead c) content w);
               c = c\<lparr>lastRead := content\<rparr>
           in (if isRename \<and> addErr = None then c\<lparr>watched := watched c @ [filePath c]\<rparr> else c, w)))"

fun Watch :: "'w FileWatcher \<Rightarrow> watch_input list \<Rightarrow> 'w \<Rightarrow> ('w FileWatcher \<times> 'w) option" where
  "Watch c [] w = Some (c, w)"
| "Watch c (FsEvent isRename stats readFile addErr # is) w =
     (case waitUntilFind stats of
        None \<Rightarrow> None
      | Some (Some err) \<Rightarrow> Watch c is w
      | Some None \<Rightarrow> (case Watch_event isRename readFile addErr c w of (c', w') \<Rightarrow> Watch c' is w'))"
| "Watch c (FsError err # is) w = Watch c is w"
| "Watch c (ForceReset # is) w = Watch (c\<lparr>lastRead := []\<rparr>) is w"

text \<open>\<^verbatim>\<open>Diff\<close> as it reaches the loop: its event is no rename.\<close>

definition Diff_inputs :: "bool \<Rightarrow> stat_result list \<Rightarrow> go_error + string \<Rightarrow> watch_input list" where
  "Diff_inputs force stats readFile = (if force then [ForceReset] else []) @ [FsEvent False stats readFile None]"

section \<open>Specification\<close>

text \<open>The contents the watcher reads; a reset counts as an empty content.\<close>

fun contents :: "watch_input list \<Rightarrow> string list" where
  "contents [] = []"
| "contents (FsEvent r stats (Inr content) a # is) =
     (if waitUntilFind stats = Some None then content # contents is else contents is)"
| "contents (ForceReset # is) = [] # contents is"
| "contents (e # is) = contents is"

fun resets :: "watch_input list \<Rightarrow> bool" where
  "resets [] = False"
| "resets (ForceReset # is) = True"
| "resets (e # is) = resets is"

text \<open>The pairs of old and new content of the calls; a forced difference makes the old content empty.\<close>

fun calls_of :: "string \<Rightarrow> watch_input list \<Rightarrow> (string \<times> string) list" where
  "calls_of l [] = []"
| "calls_of l (FsEvent r stats (Inr content) a # is) =
     (if waitUntilFind stats = Some None then (l, content) # calls_of content is else calls_of l is)"
| "calls_of l (ForceReset # is) = calls_of [] is"
| "calls_of l (e # is) = calls_of l is"

lemma Watch_fold:
  "handler c = Some h \<Longrightarrow> Watch c is w = Some (c', w') \<Longrightarrow> w' = fold (\<lambda>(a, b). h a b) (calls_of (lastRead c) is) w"
proof (induction c "is" w rule: Watch.induct)
  case (2 c r stats rf a "is" w)
  then show ?case
    by (cases rf) (auto simp: Watch_event_def Let_def split: option.splits if_splits)
qed auto

lemma calls_of_contents: "\<not> resets is \<Longrightarrow> calls_of l is = zip (l # contents is) (contents is)"
  by (induction l "is" rule: calls_of.induct) auto

text \<open>A handler that records its calls.\<close>

definition record_call :: "string \<Rightarrow> string \<Rightarrow> (string \<times> string) list \<Rightarrow> (string \<times> string) list" where
  "record_call a b calls = calls @ [(a, b)]"

lemma fold_record_call: "fold (\<lambda>(a, b). record_call a b) xs calls = calls @ xs"
  by (induction xs arbitrary: calls) (auto simp: record_call_def)

lemma changes_of_calls:
  "map snd (filter (\<lambda>(a, b). a \<noteq> b) (zip (x # xs) xs)) = tl (remdups_adj (x # xs))"
  by (induction xs arbitrary: x) auto

section \<open>Properties\<close>

text \<open>
  As long as no difference is forced, the handler is called once for every content that is read, in order, and
  always with the content of the call before as the old one; the calls in which the two differ, on
  which the orchestrator acts, are exactly the changes of the file.
\<close>

lemma handler_sees_every_change:
  assumes "handler c = Some record_call" and "\<not> resets is" and "Watch c is [] = Some (c', calls)"
  shows "calls = zip (lastRead c # contents is) (contents is) \<and>
    map snd (filter (\<lambda>(a, b). a \<noteq> b) calls) = tl (remdups_adj (lastRead c # contents is))"
  using Watch_fold [OF assms(1,3)] calls_of_contents [OF assms(2)] fold_record_call changes_of_calls [of "lastRead c" "contents is"] by simp

text \<open>
  A watcher that was just set up hands its handler the content of the file as something new, a forced difference does so again, and a closed watcher watches nothing.
\<close>

lemma forced_difference_starts_over:
  assumes "NewFileWatcher path None None = Inr c"
  shows "\<exists>c'. Watch (HandleDiff h c) (Diff_inputs False [StatOk] (Inr content) @ Diff_inputs True [StatOk] (Inr content)) w =
      Some (c', h [] content (h [] content w)) \<and> lastRead c' = content \<and> watched (FileWatcher_Close c') = []"
  using assms by (auto simp: NewFileWatcher_def HandleDiff_def Diff_inputs_def Watch_event_def FileWatcher_Close_def)

end
