(* ===== verification/Orchestrator_App.thy ===== *)
theory Orchestrator_App
  imports Deployment_State Docker_Manager Registry File_Watcher
begin

text \<open>
  The process of the orchestrator, \<^verbatim>\<open>cmd/carisma-orchestrator/app/app.go\<close>, after it has connected: the orchestrator with the
  handlers that announce services, the handler of the file of desired states, the goroutine that keeps the file of
  actual states, the periodic report and the loop that receives deployment configurations. What the process
  sends is part of its state; an error of a send is only logged.
\<close>

section \<open>Model\<close>

record 'w app =
  runtime :: 'w
  announced :: "ServiceAnnouncement list"
  nodeSent :: "DeploymentConfiguration list"

definition lift_app :: "('w \<Rightarrow> ('r \<times> 'w) outcome) \<Rightarrow> 'w app \<Rightarrow> ('r \<times> 'w app) outcome" where
  "lift_app f a = (case f (runtime a) of Panic \<Rightarrow> Panic | Ret (r, w) \<Rightarrow> Ret (r, a\<lparr>runtime := w\<rparr>))"

definition app_Manager :: "'w Manager \<Rightarrow> 'w app Manager" where
  "app_Manager m =
     \<lparr>Containers = lift_app (Containers m),
      StartContainer = \<lambda>cid. lift_app (StartContainer m cid),
      StopContainer = \<lambda>cid. lift_app (StopContainer m cid),
      PullImageAndCreateContainer = \<lambda>n args pb v. lift_app (PullImageAndCreateContainer m n args pb v),
      RemoveImageAndContainer = \<lambda>n v. lift_app (RemoveImageAndContainer m n v),
      Close = lift_app (Close m)\<rparr>"

definition announce_service :: "int32 \<Rightarrow> string \<Rightarrow> int32 \<Rightarrow> 'w app \<Rightarrow> 'w app" where
  "announce_service state bundleID servicePort a =
     a\<lparr>announced := announced a @ [\<lparr>BundleId = bundleID, LocalPort = servicePort, RegistrationState = state\<rparr>]\<rparr>"

definition send_config :: "int32 \<Rightarrow> string \<Rightarrow> 'w app \<Rightarrow> 'w app" where
  "send_config stateType json a = a\<lparr>nodeSent := nodeSent a @ [\<lparr>Json = json, StateType = stateType\<rparr>]\<rparr>"

definition app_orchestrator :: "Config \<Rightarrow> 'w Manager \<Rightarrow> 'w app orchestrator" where
  "app_orchestrator c m =
     newOrchestrator c (app_Manager m) (announce_service REGISTRATION_STATE_REGISTERED)
       (announce_service REGISTRATION_STATE_UNREGISTERED)"

text \<open>A nil map has no entries.\<close>

definition entries_of :: "DeploymentConfig option \<Rightarrow> DeploymentConfig" where
  "entries_of d = (case d of None \<Rightarrow> Map.empty | Some m \<Rightarrow> m)"

definition process_and_log :: "reference_parser \<Rightarrow> 'w orchestrator \<Rightarrow> DeploymentConfig \<Rightarrow> 'w \<Rightarrow> 'w outcome" where
  "process_and_log parse o' d w = (case process parse o' d w of Panic \<Rightarrow> Panic | Ret (err, w) \<Rightarrow> Ret w)"

text \<open>The handler of the file of desired states.\<close>

definition desired_handler :: "reference_parser \<Rightarrow> 'w app orchestrator \<Rightarrow> string \<Rightarrow> string \<Rightarrow> 'w app \<Rightarrow> 'w app outcome" where
  "desired_handler parse o' a b st =
     (if a = b then Ret st
      else case DeploymentConfigFromJSON b of
             (d, Some err) \<Rightarrow> Ret st
           | (d, None) \<Rightarrow> process_and_log parse o' (entries_of d) (send_config STATE_TYPE_DESIRED b st))"

text \<open>The report of every few seconds; the goroutine ends when the containers cannot be listed.\<close>

definition report :: "Config \<Rightarrow> Container list \<Rightarrow> (string \<times> NodeConfig) list" where
  "report c currContainers =
     [(NodeHostname c,
       \<lparr>State = NodeStateRunning, Images = Some (map image_ref (ExtractImageList (keep_loop currContainers 0 0)))\<rparr>)]"

definition tick :: "Config \<Rightarrow> 'w Manager \<Rightarrow> 'w app \<Rightarrow> (bool \<times> 'w app) outcome" where
  "tick c m st =
     (case Containers (app_Manager m) st of
        Panic \<Rightarrow> Panic
      | Ret (Inl err, st) \<Rightarrow> Ret (False, st)
      | Ret (Inr currContainers, st) \<Rightarrow>
          (case DeploymentConfig_JSON (Some (report c currContainers)) of
             Inl err \<Rightarrow> Ret (True, st)
           | Inr j \<Rightarrow> Ret (True, send_config STATE_TYPE_ACTUAL j st)))"

text \<open>The loop at the end of \<^verbatim>\<open>Run\<close>: whether it has ended, and the state.\<close>

fun receive_main :: "reference_parser \<Rightarrow> 'w app orchestrator \<Rightarrow> DeploymentConfiguration recv list \<Rightarrow> 'w app \<Rightarrow> (bool \<times> 'w app) outcome" where
  "receive_main parse o' [] st = Ret (False, st)"
| "receive_main parse o' (RecvErr err # rs) st = Ret (True, st)"
| "receive_main parse o' (RecvMsg msg # rs) st =
     (case DeploymentConfigFromJSON (Json msg) of
        (d, Some err) \<Rightarrow> receive_main parse o' rs st
      | (d, None) \<Rightarrow>
          (case process_and_log parse o' (entries_of d) st of
             Panic \<Rightarrow> Panic
           | Ret st \<Rightarrow> receive_main parse o' rs st))"

text \<open>
  The goroutine of the central node. \<open>ord k\<close> is the order of the \<open>k\<close>-th loop over a map; \<open>readFile\<close> is what reading the
  file of actual states returns. The result are the actual states, how often a difference of the desired file is
  forced, and the text to write, if any.
\<close>

definition actual_recv :: "(nat \<Rightarrow> DeploymentConfig \<Rightarrow> (string \<times> NodeConfig) list) \<Rightarrow> go_error + string \<Rightarrow> DeploymentConfiguration \<Rightarrow>
    DeploymentConfig \<Rightarrow> (DeploymentConfig \<times> nat \<times> string option) outcome" where
  "actual_recv ord readFile msg globalActual =
     (if StateType msg \<noteq> STATE_TYPE_ACTUAL then Ret (globalActual, 0, None)
      else case DeploymentConfigFromJSON (Json msg) of
             (d, Some err) \<Rightarrow> Ret (globalActual, 0, None)
           | (d, None) \<Rightarrow>
               (case receive_config (ord 0 (entries_of d)) globalActual of
                  (globalActual, diffs) \<Rightarrow>
                    (let prev = (case readFile of Inl err \<Rightarrow> Some Map.empty | Inr j \<Rightarrow> fst (DeploymentConfigFromJSON j)) in
                     case merge_loop (ord 1 globalActual) prev of
                       Panic \<Rightarrow> Panic
                     | Ret prev \<Rightarrow>
                         (case DeploymentConfig_JSON (map_option (ord 2) prev) of
                            Inl err \<Rightarrow> Ret (globalActual, diffs, None)
                          | Inr j \<Rightarrow> Ret (globalActual, diffs, Some j)))))"

text \<open>
  What happens to the goroutine and its file: a message, with what a failed \<^verbatim>\<open>os.WriteFile\<close> leaves behind (the file may be truncated or written
  in part; \<open>None\<close> when the write succeeds), and changes of the file by others.
\<close>

datatype actual_event = ActualMsg DeploymentConfiguration "(go_error + string) option" | FileChange "go_error + string"

definition written_file :: "(go_error + string) option \<Rightarrow> string \<Rightarrow> go_error + string" where
  "written_file left j = (case left of None \<Rightarrow> Inr j | Some f \<Rightarrow> f)"

fun actual_loop :: "(nat \<Rightarrow> DeploymentConfig \<Rightarrow> (string \<times> NodeConfig) list) \<Rightarrow> actual_event list \<Rightarrow> go_error + string \<Rightarrow> DeploymentConfig \<Rightarrow>
    (DeploymentConfig \<times> (go_error + string)) outcome" where
  "actual_loop ord [] file ga = Ret (ga, file)"
| "actual_loop ord (FileChange file' # es) file ga = actual_loop ord es file' ga"
| "actual_loop ord (ActualMsg msg left # es) file ga =
     (case actual_recv ord file msg ga of
        Panic \<Rightarrow> Panic
      | Ret (ga', diffs, w) \<Rightarrow> actual_loop ord es (case w of Some j \<Rightarrow> written_file left j | None \<Rightarrow> file) ga')"

section \<open>Rules\<close>

text \<open>Any order of the loops over the maps.\<close>

definition ord_ok :: "(nat \<Rightarrow> DeploymentConfig \<Rightarrow> (string \<times> NodeConfig) list) \<Rightarrow> bool" where
  "ord_ok ord \<longleftrightarrow> (\<forall>k m. finite (dom m) \<longrightarrow> range_of (ord k m) m)"

text \<open>The actual states after a report, and when it asks for the desired states.\<close>

definition take_over :: "DeploymentConfig \<Rightarrow> DeploymentConfig \<Rightarrow> DeploymentConfig" where
  "take_over d ga h =
     (case d h of
        None \<Rightarrow> ga h
      | Some n \<Rightarrow> if State n = NodeStateRunning \<or> State n = NodeStateStopped then Some n else ga h)"

definition merged_states :: "DeploymentConfig \<Rightarrow> DeploymentConfig \<Rightarrow> DeploymentConfig" where
  "merged_states prev ga h =
     (case ga h of None \<Rightarrow> prev h | Some n \<Rightarrow> Some (merge_node (prev_state (Some prev) h) n))"

lemma receive_loop_states:
  "distinct (map fst kvs) \<Longrightarrow> fst (receive_loop n kvs acc) = take_over (map_of kvs) (fst acc)"
proof (induction n kvs acc rule: receive_loop.induct)
  case (2 n h nd kvs ga k)
  then have "map_of kvs h = None" by (auto simp: map_of_eq_None_iff)
  with 2 show ?case by (auto simp: take_over_def fun_eq_iff go_data split: option.splits)
qed (simp add: take_over_def fun_eq_iff)

lemma receive_loop_diffs: "n \<noteq> 1 \<Longrightarrow> snd (receive_loop n kvs acc) = snd acc"
  by (induction n kvs acc rule: receive_loop.induct) auto

lemma receive_config_diffs:
  "snd (receive_config kvs ga) = (if \<exists>h n. kvs = [(h, n)] \<and> State n = NodeStateStarting then 1 else 0)"
proof (cases "length kvs = 1")
  case True
  then obtain h n where "kvs = [(h, n)]" by (cases kvs) auto
  then show ?thesis by (simp add: receive_config_def go_data)
qed (auto simp: receive_config_def receive_loop_diffs)

lemma range_of_single: "range_of kvs m \<Longrightarrow> kvs = [(h, n)] \<longleftrightarrow> m = [h \<mapsto> n]"
proof
  assume r: "range_of kvs m" and "m = [h \<mapsto> n]"
  then have "set kvs = {(h, n)}" using range_of_mem [OF r] by (auto split: if_splits)
  then have "length (map fst kvs) = 1" using distinct_card [of "map fst kvs"] r by (simp add: range_of_def)
  with \<open>set kvs = {(h, n)}\<close> show "kvs = [(h, n)]" by (cases kvs) auto
qed (auto simp: range_of_def)

lemma entries_of_utf8: "DeploymentConfigFromJSON str = (d, e) \<Longrightarrow> config_utf8 (entries_of d)"
  using DeploymentConfigFromJSON_utf8 [of str _ e] by (cases d) (auto simp: entries_of_def config_utf8_def)

lemma take_over_utf8: "config_utf8 d \<Longrightarrow> config_utf8 ga \<Longrightarrow> config_utf8 (take_over d ga)"
proof -
  assume a: "config_utf8 d" "config_utf8 ga"
  have "dom (take_over d ga) \<subseteq> dom d \<union> dom ga" by (auto simp: take_over_def split: option.splits if_splits)
  with a have "finite (dom (take_over d ga))" by (auto simp: config_utf8_def intro: finite_subset)
  with a show ?thesis by (auto simp: config_utf8_def take_over_def split: option.splits if_splits)
qed

lemma utf8_node_states: "utf8_valid NodeStateStopping" "utf8_valid NodeStateStarting"
  by (simp_all add: go_data utf8_len_def byte_in_def)

lemma merge_node_utf8: "node_utf8 n \<Longrightarrow> node_utf8 (merge_node s n)"
  by (simp add: merge_node_def node_utf8_def image_list_def Let_def utf8_node_states)

lemma merged_states_utf8: "config_utf8 prev \<Longrightarrow> config_utf8 ga \<Longrightarrow> config_utf8 (merged_states prev ga)"
proof -
  assume a: "config_utf8 prev" "config_utf8 ga"
  have "dom (merged_states prev ga) \<subseteq> dom prev \<union> dom ga" by (auto simp: merged_states_def split: option.splits)
  with a have "finite (dom (merged_states prev ga))" by (auto simp: config_utf8_def intro: finite_subset)
  with a show ?thesis by (auto simp: config_utf8_def merged_states_def merge_node_utf8 split: option.splits)
qed

lemma merge_loop_states:
  "range_of kvs ga \<Longrightarrow> merge_loop kvs (Some prev) = Ret (Some (merged_states prev ga))"
  by (auto simp: range_of_def merge_loop_result merged_states_def fun_eq_iff)

lemma merge_loop_nil: "range_of kvs ga \<Longrightarrow> merge_loop kvs None = (if ga = Map.empty then Ret None else Panic)"
  by (cases kvs) (auto simp: range_of_def)

lemma receive_config_states: "range_of kvs d \<Longrightarrow> fst (receive_config kvs ga) = take_over d ga"
  by (simp add: receive_config_def receive_loop_states range_of_def)

text \<open>One message, when a map could be read from the file, or the file could not be read.\<close>

lemma actual_recv_merges:
  assumes ord: "ord_ok ord" and ga: "config_utf8 ga" and d: "StateType msg = STATE_TYPE_ACTUAL" "DeploymentConfigFromJSON (Json msg) = (d, None)"
    and prev: "(case readFile of Inl err \<Rightarrow> Some Map.empty | Inr j \<Rightarrow> fst (DeploymentConfigFromJSON j)) = Some prev"
  shows "\<exists>j. actual_recv ord readFile msg ga =
      Ret (take_over (entries_of d) ga, snd (receive_config (ord 0 (entries_of d)) ga), Some j) \<and>
    DeploymentConfigFromJSON j = (Some (merged_states prev (take_over (entries_of d) ga)), None)"
proof -
  let ?ga = "take_over (entries_of d) ga"
  have e: "config_utf8 (entries_of d)" using entries_of_utf8 [OF d(2)] .
  have p: "config_utf8 prev"
  proof (cases readFile)
    case (Inr j)
    then obtain err where "DeploymentConfigFromJSON j = (Some prev, err)" using prev by (metis prod.collapse sum.simps(6))
    then show ?thesis by (rule DeploymentConfigFromJSON_utf8)
  qed (use prev in \<open>auto simp: config_utf8_def\<close>)
  have g: "config_utf8 ?ga" by (rule take_over_utf8 [OF e ga])
  have m: "config_utf8 (merged_states prev ?ga)" by (rule merged_states_utf8 [OF p g])
  have r: "range_of (ord k x) x" if "config_utf8 x" for k x
    using ord that by (simp add: ord_ok_def config_utf8_def)
  obtain j where j: "DeploymentConfig_JSON (Some (ord 2 (merged_states prev ?ga))) = Inr j"
    "DeploymentConfigFromJSON j = (Some (merged_states prev ?ga), None)"
    using json_round_trip [OF r [OF m] config_utf8_entries [OF r [OF m] m]] r [OF m] by blast
  obtain k where rc: "receive_config (ord 0 (entries_of d)) ga = (?ga, k)"
    using receive_config_states [OF r [OF e]] by (metis prod.collapse)
  have "actual_recv ord readFile msg ga = Ret (?ga, k, Some j)"
    using d prev j(1) merge_loop_states [OF r [OF g]] by (simp add: actual_recv_def rc)
  with j(2) rc show ?thesis by auto
qed

lemma actual_recv_keeps:
  assumes ord: "ord_ok ord" and ga: "config_utf8 ga" and recv: "actual_recv ord f msg ga = Ret (ga', diffs, w)"
  shows "config_utf8 ga' \<and> (\<forall>j. w = Some j \<longrightarrow> snd (DeploymentConfigFromJSON j) = None)"
proof (cases "StateType msg = STATE_TYPE_ACTUAL \<and> snd (DeploymentConfigFromJSON (Json msg)) = None")
  case True
  then obtain d where d: "StateType msg = STATE_TYPE_ACTUAL" "DeploymentConfigFromJSON (Json msg) = (d, None)"
    by (metis prod.collapse)
  have r: "range_of (ord k x) x" if "config_utf8 x" for k x
    using ord that by (simp add: ord_ok_def config_utf8_def)
  let ?prev = "case f of Inl err \<Rightarrow> Some Map.empty | Inr j \<Rightarrow> fst (DeploymentConfigFromJSON j)"
  have g: "config_utf8 (take_over (entries_of d) ga)" by (rule take_over_utf8 [OF entries_of_utf8 [OF d(2)] ga])
  show ?thesis
  proof (cases ?prev)
    case None
    obtain k where rc: "receive_config (ord 0 (entries_of d)) ga = (take_over (entries_of d) ga, k)"
      using receive_config_states [OF r [OF entries_of_utf8 [OF d(2)]]] by (metis prod.collapse)
    have "DeploymentConfigFromJSON (json_indent 0 JNull) = (None, None)"
      using json_read_indent [of JNull 0] by (simp add: DeploymentConfigFromJSON_def json_Unmarshal_def decode_DeploymentConfig_def)
    with recv d None rc g merge_loop_nil [OF r [OF g]] show ?thesis
      by (auto simp: actual_recv_def DeploymentConfig_JSON_def split: if_splits)
  next
    case (Some prev)
    with recv g actual_recv_merges [OF ord ga d Some] show ?thesis by auto
  qed
qed (use ga recv in \<open>auto simp: actual_recv_def split: if_splits prod.splits option.splits\<close>)

lemma actual_loop_keeps:
  assumes "ord_ok ord"
  shows "actual_loop ord es f ga = Ret (ga', f') \<Longrightarrow> config_utf8 ga \<Longrightarrow>
    config_utf8 ga' \<and> (f' = f \<or> FileChange f' \<in> set es \<or> (\<exists>msg. ActualMsg msg (Some f') \<in> set es) \<or> (\<exists>j. f' = Inr j \<and> snd (DeploymentConfigFromJSON j) = None))"
proof (induction es arbitrary: f ga)
  case (Cons e es)
  show ?case
  proof (cases e)
    case (ActualMsg msg left)
    with Cons.prems(1) obtain ga1 diffs w where recv: "actual_recv ord f msg ga = Ret (ga1, diffs, w)"
      and rest: "actual_loop ord es (case w of Some j \<Rightarrow> written_file left j | None \<Rightarrow> f) ga1 = Ret (ga', f')"
      by (auto split: outcome.splits)
    from actual_recv_keeps [OF assms Cons.prems(2) recv] Cons.IH [OF rest] ActualMsg show ?thesis
      by (auto simp: written_file_def split: option.splits if_splits)
  qed (use Cons in auto)
qed auto

subsection \<open>A round\<close>

lemma app_Manager_simps [simp]:
  "Containers (app_Manager m) st = lift_app (Containers m) st"
  "RemoveImageAndContainer (app_Manager m) n v st = lift_app (RemoveImageAndContainer m n v) st"
  "PullImageAndCreateContainer (app_Manager m) n args pb v st = lift_app (PullImageAndCreateContainer m n args pb v) st"
  by (simp_all add: app_Manager_def)

lemma app_orchestrator_simps [simp]:
  "cfg (app_orchestrator c m) = c" "cntMgr (app_orchestrator c m) = app_Manager m"
  "hReg (app_orchestrator c m) = announce_service REGISTRATION_STATE_REGISTERED"
  "hUnreg (app_orchestrator c m) = announce_service REGISTRATION_STATE_UNREGISTERED"
  by (simp_all add: app_orchestrator_def newOrchestrator_def)

definition announcement :: "int32 \<Rightarrow> string \<times> int32 \<Rightarrow> ServiceAnnouncement" where
  "announcement state bp = \<lparr>BundleId = fst bp, LocalPort = snd bp, RegistrationState = state\<rparr>"

text \<open>The bundles that removals and pulls of a trace of calls have returned.\<close>

fun removed_bundle :: "orch_event \<Rightarrow> (string \<times> int32) list" where
  "removed_bundle (EvRemove n True (Inr bp)) = [bp]"
| "removed_bundle e = []"

fun pulled_bundle :: "orch_event \<Rightarrow> (string \<times> int32) list" where
  "pulled_bundle (EvPull n True (Inr bp)) = [bp]"
| "pulled_bundle e = []"

definition removed_bundles :: "orch_event list \<Rightarrow> (string \<times> int32) list" where
  "removed_bundles tr = concat (map removed_bundle tr)"

definition pulled_bundles :: "orch_event list \<Rightarrow> (string \<times> int32) list" where
  "pulled_bundles tr = concat (map pulled_bundle tr)"

text \<open>A manager whose calls are recorded.\<close>

abbreviation traced_Manager :: "'w Manager \<Rightarrow> ('w \<times> orch_event list) Manager" where
  "traced_Manager m \<equiv> cntMgr (traced \<lparr>cfg = Default [], cntMgr = m, hReg = \<lambda>_ _ w. w, hUnreg = \<lambda>_ _ w. w\<rparr>)"

text \<open>The state of the process after it has announced and recorded more.\<close>

definition extends :: "(string \<times> int32) list \<Rightarrow> (string \<times> int32) list \<Rightarrow> ('w \<times> orch_event list) app \<Rightarrow> ('w \<times> orch_event list) app \<Rightarrow> bool" where
  "extends gone new st st' \<longleftrightarrow>
     announced st' = announced st @ map (announcement REGISTRATION_STATE_UNREGISTERED) gone @ map (announcement REGISTRATION_STATE_REGISTERED) new \<and>
     nodeSent st' = nodeSent st \<and>
     removed_bundles (snd (runtime st')) = removed_bundles (snd (runtime st)) @ gone \<and>
     pulled_bundles (snd (runtime st')) = pulled_bundles (snd (runtime st)) @ new"

lemma remove_loop_app:
  "remove_loop (app_orchestrator c (traced_Manager m)) is st = Ret st' \<Longrightarrow> \<exists>gone. extends gone [] st st'"
proof (induction "is" arbitrary: st)
  case Nil
  then show ?case by (auto simp: extends_def)
next
  case (Cons i "is")
  obtain w tr where st: "runtime st = (w, tr)" by fastforce
  show ?case
  proof (cases "is_envoy i")
    case False
    let ?n = "image_ref i"
    from Cons.prems False consider
      (gone) b p w1 where "remove_loop (app_orchestrator c (traced_Manager m)) is
        (announce_service REGISTRATION_STATE_UNREGISTERED b p (st\<lparr>runtime := (w1, tr @ [EvRemove ?n True (Inr (b, p))])\<rparr>)) = Ret st'"
      | (left) e r w1 where "remove_loop (app_orchestrator c (traced_Manager m)) is
        (st\<lparr>runtime := (w1, tr @ [EvRemove ?n True (Inl e), EvRemove ?n False r])\<rparr>) = Ret st'"
      by (auto simp: lift_app_def st split: outcome.splits sum.splits)
    then show ?thesis
    proof cases
      case gone
      from Cons.IH [OF this] obtain g where "extends g [] (announce_service REGISTRATION_STATE_UNREGISTERED b p
          (st\<lparr>runtime := (w1, tr @ [EvRemove ?n True (Inr (b, p))])\<rparr>)) st'" ..
      then have "extends ((b, p) # g) [] st st'"
        by (simp add: extends_def announce_service_def announcement_def removed_bundles_def pulled_bundles_def st)
      then show ?thesis ..
    next
      case left
      from Cons.IH [OF this] show ?thesis
        by (simp add: extends_def removed_bundles_def pulled_bundles_def st)
    qed
  qed (use Cons in simp)
qed

lemma install_loop_app:
  "install_loop (app_orchestrator c (traced_Manager m)) is st = Ret st' \<Longrightarrow> \<exists>new. extends [] new st st'"
proof (induction "is" arbitrary: st)
  case Nil
  then show ?case by (auto simp: extends_def)
next
  case (Cons i "is")
  obtain w tr where st: "runtime st = (w, tr)" by fastforce
  let ?n = "image_ref i"
  from Cons.prems consider
    (new) b p w1 where "install_loop (app_orchestrator c (traced_Manager m)) is
      (announce_service REGISTRATION_STATE_REGISTERED b p (st\<lparr>runtime := (w1, tr @ [EvPull ?n True (Inr (b, p))])\<rparr>)) = Ret st'"
    | (failed) e w1 where "install_loop (app_orchestrator c (traced_Manager m)) is
      (st\<lparr>runtime := (w1, tr @ [EvPull ?n True (Inl e)])\<rparr>) = Ret st'"
    by (auto simp: lift_app_def st split: outcome.splits sum.splits)
  then show ?case
  proof cases
    case new
    from Cons.IH [OF this] obtain g where "extends [] g (announce_service REGISTRATION_STATE_REGISTERED b p
        (st\<lparr>runtime := (w1, tr @ [EvPull ?n True (Inr (b, p))])\<rparr>)) st'" ..
    then have "extends [] ((b, p) # g) st st'"
      by (simp add: extends_def announce_service_def announcement_def removed_bundles_def pulled_bundles_def st)
    then show ?thesis ..
  next
    case failed
    from Cons.IH [OF this] show ?thesis
      by (simp add: extends_def removed_bundles_def pulled_bundles_def st)
  qed
qed

lemma extends_trans: "extends gone [] st st1 \<Longrightarrow> extends [] new st1 st2 \<Longrightarrow> extends gone new st st2"
  by (simp add: extends_def)

lemma process_app:
  assumes "process parse (app_orchestrator c (traced_Manager m)) d st = Ret (err, st')"
  shows "\<exists>gone new. extends gone new st st'"
proof (cases "d (NodeHostname c)")
  case None
  with assms have "extends [] [] st st'" by (simp add: process_def extends_def)
  then show ?thesis by blast
next
  case (Some node)
  obtain w tr where st: "runtime st = (w, tr)" by fastforce
  have l: "extends gone new (st\<lparr>runtime := (w', tr @ [EvList r])\<rparr>) st2 \<Longrightarrow> extends gone new st st2" for gone new w' r st2
    by (simp add: extends_def removed_bundles_def pulled_bundles_def st)
  have cl: "lift_app (Containers (traced_Manager m)) st =
      (case Containers m w of Panic \<Rightarrow> Panic | Ret (r, w1) \<Rightarrow> Ret (r, st\<lparr>runtime := (w1, tr @ [EvList r])\<rparr>))"
    by (simp add: lift_app_def st traced_def recorded_def split: outcome.splits)
  note eq = process_eq [of d "app_orchestrator c (traced_Manager m)" node parse st, unfolded app_orchestrator_simps, OF Some]
  from assms [unfolded eq] consider
    (stop) w1 r where "st' = st\<lparr>runtime := (w1, tr @ [EvList r])\<rparr>"
    | (go) w1 r a b st1 where "remove_loop (app_orchestrator c (traced_Manager m)) a (st\<lparr>runtime := (w1, tr @ [EvList r])\<rparr>) = Ret st1"
      "install_loop (app_orchestrator c (traced_Manager m)) b st1 = Ret st'"
    by (auto simp: cl split: outcome.splits sum.splits)
  then show ?thesis
  proof cases
    case stop
    then have "extends [] [] (st\<lparr>runtime := (w1, tr @ [EvList r])\<rparr>) st'" by (simp add: extends_def)
    from l [OF this] show ?thesis by blast
  next
    case go
    from remove_loop_app [OF go(1)] install_loop_app [OF go(2)] obtain gone new where
      "extends gone new (st\<lparr>runtime := (w1, tr @ [EvList r])\<rparr>) st'" using extends_trans by blast
    from l [OF this] show ?thesis by blast
  qed
qed

lemma announcements_of_round:
  "foldl (announce nodeID) E (map (announcement REGISTRATION_STATE_UNREGISTERED) gone @ map (announcement REGISTRATION_STATE_REGISTERED) new) =
     E - {(nodeID, b, p) | b p. (b, p) \<in> set gone} \<union> {(nodeID, b, p) | b p. (b, p) \<in> set new}"
proof -
  have "foldl (announce nodeID) E (map (announcement REGISTRATION_STATE_UNREGISTERED) gone) = E - {(nodeID, b, p) | b p. (b, p) \<in> set gone}" for E
    by (induction gone arbitrary: E) (auto simp: announce_def announcement_def go_data)
  moreover have "foldl (announce nodeID) E (map (announcement REGISTRATION_STATE_REGISTERED) new) = E \<union> {(nodeID, b, p) | b p. (b, p) \<in> set new}" for E
    by (induction new arbitrary: E) (auto simp: announce_def announcement_def)
  ultimately show ?thesis by simp
qed

subsection \<open>Examples\<close>

text \<open>An order of the maps: sorted by hostname.\<close>

definition by_name :: "nat \<Rightarrow> DeploymentConfig \<Rightarrow> (string \<times> NodeConfig) list" where
  "by_name k m = map (\<lambda>h. (h, the (m h))) (sorted_list_of_set (dom m))"

lemma by_name_ok: "ord_ok by_name"
  by (auto simp: ord_ok_def by_name_def range_of_def comp_def map_of_map_keys)

definition running_node :: NodeConfig where
  "running_node = \<lparr>State = NodeStateRunning, Images = Some []\<rparr>"

definition report_text :: string where
  "report_text = json_indent 0 (JObj [(''hpc-1'', json_of_NodeConfig running_node)])"

lemma single_config_read:
  assumes "utf8_entries [(h, n)]"
  shows "DeploymentConfigFromJSON (json_indent 0 (JObj [(h, json_of_NodeConfig n)])) = (Some [h \<mapsto> n], None)"
proof -
  have "range_of [(h, n)] [h \<mapsto> n]" by (simp add: range_of_def)
  moreover have "DeploymentConfig_JSON (Some [(h, n)]) = Inr (json_indent 0 (JObj [(h, json_of_NodeConfig n)]))"
    by (simp add: DeploymentConfig_JSON_def)
  ultimately show ?thesis using json_round_trip [OF _ assms] by (metis sum.inject(2))
qed

lemma report_text_read: "DeploymentConfigFromJSON report_text = (Some [''hpc-1'' \<mapsto> running_node], None)"
  unfolding report_text_def
  by (rule single_config_read) (simp add: utf8_entries_def running_node_def image_list_def go_data utf8_len_def byte_in_def)

section \<open>Properties\<close>

text \<open>
  C4. From a round to the registry: the announcements of a round, over any manager, arrive on the node's service channel, whose updates the xDS
  server takes a given number of times. If there is at most one announcement more than updates taken, the registry loses exactly the
  bundles that a reported removal returned and then has those that a pull returned; the services of other nodes stay, and the round itself writes nothing to the node channel. With more announcements
  the handler waits in a send for ever, and the registry has only what the first ones, up to the one it waits with, have changed.
\<close>

theorem round_reaches_registry:
  assumes "process parse (app_orchestrator c (traced_Manager m)) d \<lparr>runtime = (w, []), announced = [], nodeSent = []\<rparr> = Ret (err, st)"
    and "services_wf sv" and "ValidateNodeID nr nodeID = Inr i"
  shows "\<exists>sv' ch'. ServiceRegistry_OpenChannel nr closeErr \<lparr>takes = k, updatesSent = []\<rparr> sv (Some (nodeID # ids)) (map RecvMsg (announced st)) =
      Ret (sv', ch', if k < length (announced st) then BlockedInSend else AwaitsMessage) \<and>
    services_wf sv' \<and> nodeSent st = [] \<and>
    entries sv' =
      (if length (announced st) \<le> Suc k
       then entries sv - {(nodeID, b, p) | b p. (b, p) \<in> set (removed_bundles (snd (runtime st)))} \<union>
         {(nodeID, b, p) | b p. (b, p) \<in> set (pulled_bundles (snd (runtime st)))}
       else foldl (announce nodeID) (entries sv) (take (Suc k) (announced st)))"
proof -
  obtain gone new where x: "extends gone new \<lparr>runtime = (w, []), announced = [], nodeSent = []\<rparr> st"
    using process_app [OF assms(1)] by blast
  from srv.announce_loop_correct [OF assms(2), of closeErr nodeID "\<lparr>takes = k, updatesSent = []\<rparr>" "map RecvMsg (announced st)"]
  obtain sv' ch' where "ServiceRegistry_OpenChannel nr closeErr \<lparr>takes = k, updatesSent = []\<rparr> sv (Some (nodeID # ids)) (map RecvMsg (announced st)) =
      Ret (sv', ch', if k < length (announced st) then BlockedInSend else AwaitsMessage)"
    "services_wf sv'" "entries sv' = foldl (announce nodeID) (entries sv) (take (Suc k) (announced st))"
    using assms(3) by (auto simp: ServiceRegistry_OpenChannel_def stands_def)
  with x show ?thesis
    by (auto simp: extends_def announcements_of_round removed_bundles_def pulled_bundles_def simp del: foldl_append)
qed


definition app_docker :: "slot Manager" where
  "app_docker = docker_Manager plain_file app_client"

lemma app_docker_simps [simp]:
  "Containers app_docker = docker_Containers app_client" "RemoveImageAndContainer app_docker = docker_Remove plain_file app_client"
  "PullImageAndCreateContainer app_docker = docker_Pull plain_file app_client"
  by (simp_all add: app_docker_def docker_Manager_def)

lemma example_round:
  "process example_parser (app_orchestrator (Default ''hpc-1'') (traced_Manager app_docker)) (example_deployment ''gcr.io/app:1'')
     \<lparr>runtime = (None, []), announced = [], nodeSent = []\<rparr> =
   Ret (None, \<lparr>runtime = (Some (''gcr.io/app:1'', True), [EvList (Inr []), EvPull ''gcr.io/app:1'' True (Inr (''app'', 8080))]),
     announced = [announcement REGISTRATION_STATE_REGISTERED (''app'', 8080)], nodeSent = []\<rparr>)"
proof -
  have "Containers (traced_Manager app_docker) (None, []) = Ret (Inr [], None, [EvList (Inr [])])"
    by (simp add: traced_def recorded_def app_list)
  moreover have "PullImageAndCreateContainer (traced_Manager app_docker) ''gcr.io/app:1'' [] Map.empty True (None, [EvList (Inr [])]) =
      Ret (Inr (''app'', 8080), Some (''gcr.io/app:1'', True), [EvList (Inr []), EvPull ''gcr.io/app:1'' True (Inr (''app'', 8080))])"
    by (simp add: app_pull)
  ultimately show ?thesis
    using example_qualify
    by (simp add: process_def example_deployment_def Default_def lift_app_def image_list_def keep_loop_eq ExtractImageList_def
        diff_filter version_in_def image_ref_def announce_service_def announcement_def del: traced_simps)
qed

theorem round_reaches_registry_witness:
  "\<exists>st sv' ch'. process example_parser (app_orchestrator (Default ''hpc-1'') (traced_Manager app_docker)) (example_deployment ''gcr.io/app:1'')
       \<lparr>runtime = (None, []), announced = [], nodeSent = []\<rparr> = Ret (None, st) \<and>
     ServiceRegistry_OpenChannel example_registry None \<lparr>takes = 1, updatesSent = []\<rparr> NewServiceRegistry (Some [''node-0'']) (map RecvMsg (announced st)) =
       Ret (sv', ch', AwaitsMessage) \<and>
     entries sv' = {(''node-0'', ''app'', 8080)}"
  using round_reaches_registry [OF example_round NewServiceRegistry_wf example_registry_valid, of None 1 "[]"] example_round
  by (fastforce simp: removed_bundles_def pulled_bundles_def)

text \<open>
  C31. Every message on the node channel is taken for a desired state, also the report of actual states that the node itself has sent and that comes
  back to it: an old report undoes what has happened since. The images that run now but not at the time of the report are
  removed, those that ran then are installed again, for either type of the message.
\<close>

theorem stale_report_reverts_containers:
  assumes "Containers m (runtime st) = Ret (Inr now, w)"
    and "utf8_entries (report c before)"
    and "qualify_loop parse (DefaultContainerRegistryDomain c) (running_images before) = Ret (Inr (running_images before))"
    and "distinct (map Name (running_images before))" and "distinct (map Name (running_images now))"
  shows "\<exists>j. DeploymentConfig_JSON (Some (report c before)) = Inr j \<and>
    receive_main parse (app_orchestrator c m) [RecvMsg \<lparr>Json = j, StateType = ty\<rparr>] st =
      (case remove_loop (app_orchestrator c m) (filter (\<lambda>i. i \<notin> set (running_images before)) (running_images now)) (st\<lparr>runtime := w\<rparr>) of
         Panic \<Rightarrow> Panic
       | Ret st1 \<Rightarrow>
           (case install_loop (app_orchestrator c m) (filter (\<lambda>i. i \<notin> set (running_images now)) (running_images before)) st1 of
              Panic \<Rightarrow> Panic
            | Ret st2 \<Rightarrow> Ret (False, st2)))"
proof -
  define node where "node = \<lparr>State = NodeStateRunning, Images = Some (map image_ref (running_images before))\<rparr>"
  have rep: "report c before = [(NodeHostname c, node)]"
    by (simp add: report_def node_def keep_loop_eq ExtractImageList_map running_images_def)
  have "range_of (report c before) [NodeHostname c \<mapsto> node]" by (simp add: rep range_of_def)
  from json_round_trip [OF this assms(2)] obtain j where j: "DeploymentConfig_JSON (Some (report c before)) = Inr j"
    "DeploymentConfigFromJSON j = (Some [NodeHostname c \<mapsto> node], None)" using \<open>range_of _ _\<close> by blast
  have imgs: "map ParseImageName (image_list node) = running_images before"
    by (simp add: node_def image_list_def running_images_def ParseImageName_image_ref)
  have "[NodeHostname c \<mapsto> node] (NodeHostname (cfg (app_orchestrator c m))) = Some node" by simp
  note eq = process_eq [of "[NodeHostname c \<mapsto> node]" "app_orchestrator c m" node parse st, OF this]
  have "Containers (cntMgr (app_orchestrator c m)) st = Ret (Inr now, st\<lparr>runtime := w\<rparr>)"
    using assms(1) by (simp add: lift_app_def)
  then have "process_and_log parse (app_orchestrator c m) [NodeHostname c \<mapsto> node] st =
      (case remove_loop (app_orchestrator c m) (diff (running_images before) (running_images now)) (st\<lparr>runtime := w\<rparr>) of
         Panic \<Rightarrow> Panic | Ret st1 \<Rightarrow> install_loop (app_orchestrator c m) (diff (running_images now) (running_images before)) st1)"
    by (simp add: process_and_log_def eq imgs assms(3) split: outcome.splits)
  with j show ?thesis
    by (auto simp: entries_of_def diff_distinct [OF assms(4)] diff_distinct [OF assms(5)] split: outcome.splits)
qed

theorem stale_report_reverts_containers_witness:
  "\<exists>j. DeploymentConfig_JSON (Some (report (Default ''hpc-1'') [])) = Inr j \<and>
     receive_main example_parser (app_orchestrator (Default ''hpc-1'') app_docker) [RecvMsg \<lparr>Json = j, StateType = STATE_TYPE_ACTUAL\<rparr>]
       \<lparr>runtime = Some (''gcr.io/app:1'', True), announced = [], nodeSent = []\<rparr> =
     Ret (False, \<lparr>runtime = None, announced = [announcement REGISTRATION_STATE_UNREGISTERED (''app'', 8080)], nodeSent = []\<rparr>)"
proof -
  let ?st = "\<lparr>runtime = Some (''gcr.io/app:1'', True), announced = [], nodeSent = []\<rparr>"
  let ?c = "\<lparr>ID = ''c1'', FirstName = ''/c1'', ImageName = ''gcr.io/app:1'', Ports = [], Status = ''Up''\<rparr>"
  have l: "Containers app_docker (runtime ?st) = Ret (Inr [?c], runtime ?st)" by (simp add: app_list)
  have u: "utf8_entries (report (Default ''hpc-1'') [])"
    by (simp add: utf8_entries_def report_def Default_def image_list_def keep_loop_eq ExtractImageList_def go_data utf8_len_def byte_in_def)
  have r: "running_images [] = []" "running_images [?c] = [\<lparr>Name = ''gcr.io/app'', Version = ''1''\<rparr>]"
    by (simp_all add: running_images_def managed_and_up_def strings_HasPrefix_def ParseImageName_def go_data)
  have "\<not> is_envoy \<lparr>Name = ''gcr.io/app'', Version = ''1''\<rparr>"
    by (simp add: is_envoy_def envoyContainerImageName_def ParseImageName_def strings_HasSuffix_def)
  then have rm: "remove_loop (app_orchestrator (Default ''hpc-1'') app_docker) [\<lparr>Name = ''gcr.io/app'', Version = ''1''\<rparr>] ?st =
      Ret \<lparr>runtime = None, announced = [announcement REGISTRATION_STATE_UNREGISTERED (''app'', 8080)], nodeSent = []\<rparr>"
    by (simp add: image_ref_def lift_app_def app_remove announce_service_def announcement_def)
  show ?thesis
    using stale_report_reverts_containers [OF l u, of example_parser STATE_TYPE_ACTUAL] rm by (simp add: r)
qed

text \<open>
  C16. The file of desired states reaches the node channel: whatever the rounds do in between, what is sent are the changes of the
  file that can be read as a deployment configuration, each as it is in the file and in this order. A forced difference
  counts as a change, which is how a starting node gets the configuration.
\<close>

theorem desired_states_are_distributed:
  assumes "handler fw = Some (\<lambda>a b w. case w of Panic \<Rightarrow> Panic | Ret st \<Rightarrow> desired_handler parse (app_orchestrator c (traced_Manager m)) a b st)"
    and "Watch fw is (Ret st) = Some (fw', Ret st')"
  shows "nodeSent st' = nodeSent st @ map (\<lambda>b. \<lparr>Json = b, StateType = STATE_TYPE_DESIRED\<rparr>)
    (filter (\<lambda>b. snd (DeploymentConfigFromJSON b) = None) (map snd (filter (\<lambda>(a, b). a \<noteq> b) (calls_of (lastRead fw) is))))"
proof -
  let ?h = "\<lambda>a b w. case w of Panic \<Rightarrow> Panic | Ret st \<Rightarrow> desired_handler parse (app_orchestrator c (traced_Manager m)) a b st"
  let ?sent = "\<lambda>calls. map (\<lambda>b. \<lparr>Json = b, StateType = STATE_TYPE_DESIRED\<rparr>)
    (filter (\<lambda>b. snd (DeploymentConfigFromJSON b) = None) (map snd (filter (\<lambda>(a, b). a \<noteq> b) calls)))"
  have one: "nodeSent st2 = nodeSent st1 @ ?sent [(a, b)]" if "?h a b (Ret st1) = Ret st2" for a b st1 st2
    using that process_app [of parse c m]
    by (fastforce simp: desired_handler_def process_and_log_def send_config_def extends_def split: if_splits prod.splits option.splits outcome.splits)
  have panic: "fold (\<lambda>(a, b). ?h a b) calls Panic = Panic" for calls by (induction calls) auto
  have "nodeSent st2 = nodeSent st1 @ ?sent calls" if "fold (\<lambda>(a, b). ?h a b) calls (Ret st1) = Ret st2" for calls st1 st2
    using that
  proof (induction calls arbitrary: st1)
    case (Cons ab calls)
    obtain a b where ab: "ab = (a, b)" by fastforce
    show ?case
    proof (cases "?h a b (Ret st1)")
      case (Ret st3)
      with Cons ab one [OF Ret] show ?thesis by auto
    qed (use Cons.prems ab panic in auto)
  qed simp
  with Watch_fold [OF assms] show ?thesis by simp
qed

theorem desired_states_are_distributed_witness:
  "\<exists>fw' st. Watch \<lparr>filePath = ''f'', lastRead = [],
       handler = Some (\<lambda>a b w. case w of Panic \<Rightarrow> Panic | Ret st \<Rightarrow>
         desired_handler example_parser (app_orchestrator (Default ''hpc-2'') (traced_Manager app_docker)) a b st), watched = [''f'']\<rparr>
     [FsEvent False [StatOk] (Inr report_text) None, FsEvent False [StatOk] (Inr report_text) None, ForceReset,
      FsEvent False [StatOk] (Inr report_text) None] (Ret \<lparr>runtime = (None, []), announced = [], nodeSent = []\<rparr>) = Some (fw', Ret st) \<and>
     nodeSent st = [\<lparr>Json = report_text, StateType = STATE_TYPE_DESIRED\<rparr>, \<lparr>Json = report_text, StateType = STATE_TYPE_DESIRED\<rparr>]"
  (is "\<exists>fw' st. Watch ?fw ?is (Ret ?st) = _ \<and> _")
proof -
  have "report_text \<noteq> []" by (simp add: report_text_def)
  moreover have p: "process_and_log example_parser (app_orchestrator (Default ''hpc-2'') (traced_Manager app_docker)) [''hpc-1'' \<mapsto> running_node] st = Ret st" for st
    by (simp add: process_and_log_def process_def Default_def)
  ultimately obtain fw' st where w: "Watch ?fw ?is (Ret ?st) = Some (fw', Ret st)"
    by (simp add: Watch_event_def desired_handler_def report_text_read entries_of_def)
  from desired_states_are_distributed [OF _ w, of example_parser "Default ''hpc-2''" app_docker] \<open>report_text \<noteq> []\<close> have
    "nodeSent st = [\<lparr>Json = report_text, StateType = STATE_TYPE_DESIRED\<rparr>, \<lparr>Json = report_text, StateType = STATE_TYPE_DESIRED\<rparr>]"
    by (simp add: report_text_read)
  with w show ?thesis by blast
qed

text \<open>
  C14. What a report does to the file of actual states, for every order of the maps: the file that is written can be read again and holds every node the
  file had before, updated by the states reported so far, where a transition that is under way is not taken back; a
  report that a single node is starting makes the desired states be sent again.
\<close>

theorem actual_file_follows_reports:
  assumes "ord_ok ord" and "config_utf8 ga" and "StateType msg = STATE_TYPE_ACTUAL" and "DeploymentConfigFromJSON (Json msg) = (d, None)"
    and "(case readFile of Inl err \<Rightarrow> Some Map.empty | Inr j \<Rightarrow> fst (DeploymentConfigFromJSON j)) = Some prev"
  shows "\<exists>ga' diffs j merged. actual_recv ord readFile msg ga = Ret (ga', diffs, Some j) \<and>
    DeploymentConfigFromJSON j = (Some merged, None) \<and> config_utf8 ga' \<and>
    (\<forall>h n. entries_of d h = Some n \<and> State n \<in> {NodeStateRunning, NodeStateStopped} \<longrightarrow> ga' h = Some n) \<and>
    (\<forall>h. (\<forall>n. entries_of d h = Some n \<longrightarrow> State n \<notin> {NodeStateRunning, NodeStateStopped}) \<longrightarrow> ga' h = ga h) \<and>
    (\<forall>h. ga' h = None \<longrightarrow> merged h = prev h) \<and>
    (\<forall>h n. ga' h = Some n \<longrightarrow> (\<exists>n'. merged h = Some n' \<and> Images n' = Images n \<and> State n' =
       (if prev_state (Some prev) h = NodeStateStopping \<and> State n = NodeStateRunning then NodeStateStopping
        else if prev_state (Some prev) h = NodeStateStarting \<and> State n = NodeStateStopped then NodeStateStarting
        else State n))) \<and>
    diffs = (if \<exists>h n. entries_of d = [h \<mapsto> n] \<and> State n = NodeStateStarting then 1 else 0)"
proof -
  let ?ga = "take_over (entries_of d) ga"
  have e: "config_utf8 (entries_of d)" using entries_of_utf8 [OF assms(4)] .
  then have "range_of (ord 0 (entries_of d)) (entries_of d)" using assms(1) by (simp add: ord_ok_def config_utf8_def)
  then have dd: "snd (receive_config (ord 0 (entries_of d)) ga) = (if \<exists>h n. entries_of d = [h \<mapsto> n] \<and> State n = NodeStateStarting then 1 else 0)"
    by (simp add: receive_config_diffs range_of_single)
  obtain j where j: "actual_recv ord readFile msg ga = Ret (?ga, snd (receive_config (ord 0 (entries_of d)) ga), Some j)"
    "DeploymentConfigFromJSON j = (Some (merged_states prev ?ga), None)"
    using actual_recv_merges [OF assms] by blast
  have t: "\<forall>h n. entries_of d h = Some n \<and> State n \<in> {NodeStateRunning, NodeStateStopped} \<longrightarrow> ?ga h = Some n"
    "\<forall>h. (\<forall>n. entries_of d h = Some n \<longrightarrow> State n \<notin> {NodeStateRunning, NodeStateStopped}) \<longrightarrow> ?ga h = ga h"
    by (auto simp: take_over_def split: option.splits)
  have m: "\<forall>h. ?ga h = None \<longrightarrow> merged_states prev ?ga h = prev h"
    "\<forall>h n. ?ga h = Some n \<longrightarrow> (\<exists>n'. merged_states prev ?ga h = Some n' \<and> Images n' = Images n \<and> State n' =
       (if prev_state (Some prev) h = NodeStateStopping \<and> State n = NodeStateRunning then NodeStateStopping
        else if prev_state (Some prev) h = NodeStateStarting \<and> State n = NodeStateStopped then NodeStateStarting
        else State n))"
    by (auto simp: merged_states_def merge_node_def Let_def go_data)
  from j [unfolded dd] take_over_utf8 [OF e assms(2)] t m show ?thesis by blast
qed

theorem actual_file_follows_reports_witness:
  "\<exists>ga' diffs j merged n. actual_recv by_name (Inl EOF) \<lparr>Json = report_text, StateType = STATE_TYPE_ACTUAL\<rparr> Map.empty = Ret (ga', diffs, Some j) \<and>
     DeploymentConfigFromJSON j = (Some merged, None) \<and> merged ''hpc-1'' = Some n \<and> State n = NodeStateRunning"
proof -
  let ?m = "\<lparr>Json = report_text, StateType = STATE_TYPE_ACTUAL\<rparr>" and ?d = "Some [''hpc-1'' \<mapsto> running_node]"
  have u: "config_utf8 Map.empty" by (simp add: config_utf8_def)
  have s: "StateType ?m = STATE_TYPE_ACTUAL" "DeploymentConfigFromJSON (Json ?m) = (?d, None)" by (simp_all add: report_text_read)
  have p: "(case Inl EOF of Inl err \<Rightarrow> Some Map.empty | Inr j \<Rightarrow> fst (DeploymentConfigFromJSON j)) = Some Map.empty" by simp
  from actual_file_follows_reports [OF by_name_ok u s p]
  obtain ga' diffs j merged where r: "actual_recv by_name (Inl EOF) ?m Map.empty = Ret (ga', diffs, Some j)" "DeploymentConfigFromJSON j = (Some merged, None)"
    and a: "\<forall>h n. entries_of ?d h = Some n \<and> State n \<in> {NodeStateRunning, NodeStateStopped} \<longrightarrow> ga' h = Some n"
    and m: "\<forall>h n. ga' h = Some n \<longrightarrow> (\<exists>n'. merged h = Some n' \<and> Images n' = Images n \<and> State n' =
       (if prev_state (Some Map.empty) h = NodeStateStopping \<and> State n = NodeStateRunning then NodeStateStopping
        else if prev_state (Some Map.empty) h = NodeStateStarting \<and> State n = NodeStateStopped then NodeStateStarting
        else State n))"
    by blast
  have "ga' ''hpc-1'' = Some running_node" using a by (simp add: entries_of_def running_node_def)
  from m [rule_format, OF this] obtain n' where "merged ''hpc-1'' = Some n'" "State n' = NodeStateRunning"
    by (auto simp: prev_state_def running_node_def go_data)
  with r show ?thesis by blast
qed

text \<open>
  C35. A file of actual states that is not JSON, not an object or \<^verbatim>\<open>null\<close> crashes the orchestrator of the central node as soon as a
  node reports: the map that is read is nil, and the error is only logged.
\<close>

theorem malformed_state_file_crashes:
  assumes "ord_ok ord" and "config_utf8 ga" and "StateType msg = STATE_TYPE_ACTUAL" and "DeploymentConfigFromJSON (Json msg) = (d, None)"
    and "entries_of d h = Some n" and "State n = NodeStateRunning \<or> State n = NodeStateStopped"
    and "\<forall>ms. json_read file \<noteq> Some (JObj ms)"
  shows "actual_recv ord (Inr file) msg ga = Panic"
proof -
  let ?ga = "take_over (entries_of d) ga"
  have e: "config_utf8 (entries_of d)" using entries_of_utf8 [OF assms(4)] .
  have r: "range_of (ord k x) x" if "config_utf8 x" for k x
    using assms(1) that by (simp add: ord_ok_def config_utf8_def)
  obtain k where rc: "receive_config (ord 0 (entries_of d)) ga = (?ga, k)"
    using receive_config_states [OF r [OF e]] by (metis prod.collapse)
  have "?ga h = Some n" using assms(5,6) by (auto simp: take_over_def)
  then have "merge_loop (ord 1 ?ga) None = Panic"
    using merge_loop_nil [OF r [OF take_over_utf8 [OF e assms(2)]]] by auto
  moreover have "fst (DeploymentConfigFromJSON file) = None"
    using assms(7) by (auto simp: DeploymentConfigFromJSON_def json_Unmarshal_def decode_DeploymentConfig_def split: option.splits json.splits)
  ultimately show ?thesis using assms(3,4) by (simp add: actual_recv_def rc)
qed

theorem malformed_state_file_crashes_witness:
  "actual_recv by_name (Inr ''null'') \<lparr>Json = report_text, StateType = STATE_TYPE_ACTUAL\<rparr> Map.empty = Panic"
proof -
  have "config_utf8 Map.empty" by (simp add: config_utf8_def)
  moreover have "json_read ''null'' = Some JNull"
    using json_read_indent [of JNull 0] by simp
  ultimately show ?thesis
    using malformed_state_file_crashes [OF by_name_ok, of Map.empty "\<lparr>Json = report_text, StateType = STATE_TYPE_ACTUAL\<rparr>"
        "Some [''hpc-1'' \<mapsto> running_node]" "''hpc-1''" running_node "''null''"]
    by (simp add: report_text_read entries_of_def running_node_def)
qed

text \<open>
  C25. What the goroutine writes is readable: after any sequence of messages, failed writes and changes by others, unless the goroutine has crashed, the
  file of actual states is as it was found, as another program or a failed write left it, or a text that is read without an error; and the states kept in memory
  are valid UTF-8.
\<close>

theorem kept_states_are_readable:
  assumes "ord_ok ord" and "actual_loop ord es file Map.empty = Ret (ga, file')"
  shows "config_utf8 ga \<and> (file' = file \<or> FileChange file' \<in> set es \<or> (\<exists>msg. ActualMsg msg (Some file') \<in> set es) \<or> (\<exists>j. file' = Inr j \<and> snd (DeploymentConfigFromJSON j) = None))"
  using actual_loop_keeps [OF assms(1,2)] by (simp add: config_utf8_def)

theorem kept_states_are_readable_witness:
  "\<exists>ga file. actual_loop by_name [ActualMsg \<lparr>Json = report_text, StateType = STATE_TYPE_ACTUAL\<rparr> None] (Inl EOF) Map.empty = Ret (ga, Inr file) \<and>
     snd (DeploymentConfigFromJSON file) = None"
proof -
  let ?m = "\<lparr>Json = report_text, StateType = STATE_TYPE_ACTUAL\<rparr>"
  have u: "config_utf8 Map.empty" by (simp add: config_utf8_def)
  have s: "StateType ?m = STATE_TYPE_ACTUAL" "DeploymentConfigFromJSON (Json ?m) = (Some [''hpc-1'' \<mapsto> running_node], None)" by (simp_all add: report_text_read)
  have p: "(case Inl EOF of Inl err \<Rightarrow> Some Map.empty | Inr j \<Rightarrow> fst (DeploymentConfigFromJSON j)) = Some Map.empty" by simp
  from actual_recv_merges [OF by_name_ok u s p] obtain ga j where
    l: "actual_loop by_name [ActualMsg ?m None] (Inl EOF) Map.empty = Ret (ga, Inr j)" by (auto simp: written_file_def)
  from kept_states_are_readable [OF by_name_ok l] l show ?thesis by auto
qed

end
