(* ===== verification/Discovery.thy ===== *)
theory Discovery
  imports Config
begin

text \<open>
  Discovery of the central node: the messages of \<^verbatim>\<open>pkg/udp/message.go\<close>, the sending loop of \<^verbatim>\<open>pkg/udp/broadcast.go\<close> and
  \<^verbatim>\<open>cmd/carisma-orchestrator/app/discovery.go\<close>. The codec of \<^verbatim>\<open>encoding/gob\<close> is a parameter, used through its
  documented law only: what was encoded decodes to the same value. The socket is the sequence of results its
  operations give.
\<close>

section \<open>Messages\<close>

datatype MessageType = Invalid | Broadcast

definition magicString :: string where [go_data]: "magicString = ''$CARISMA$''"

definition type_byte :: "MessageType \<Rightarrow> char" where
  "type_byte t = (case t of Invalid \<Rightarrow> CHR 0x00 | Broadcast \<Rightarrow> CHR 0x01)"

record BroadcastMessage =
  Hostname :: string

record gob =
  gob_Encode :: "BroadcastMessage \<Rightarrow> go_error + string"
  gob_Decode :: "string \<Rightarrow> go_error + BroadcastMessage"

definition IsCARISMAMessage :: "string \<Rightarrow> bool" where
  "IsCARISMAMessage b =
     (if length b < length magicString then False else take (length magicString) b = magicString)"

definition BroadcastMessage_Bytes :: "gob \<Rightarrow> BroadcastMessage \<Rightarrow> go_error + string" where
  "BroadcastMessage_Bytes gob g =
     (case gob_Encode gob g of
        Inl err \<Rightarrow> Inl err
      | Inr enc \<Rightarrow> Inr (magicString @ [type_byte Broadcast] @ enc))"

definition GetMessageType :: "(go_error + string) \<Rightarrow> (go_error option \<times> MessageType) outcome" where
  "GetMessageType bytes =
     (case bytes of
        Inl err \<Rightarrow> Ret (Some err, Invalid)
      | Inr b \<Rightarrow>
          if length b \<le> length magicString then Panic
          else Ret (None, if b ! length magicString = type_byte Broadcast then Broadcast else Invalid))"

definition NewBroadcastMessage :: "string \<Rightarrow> BroadcastMessage" where
  "NewBroadcastMessage hostname = \<lparr>Hostname = hostname\<rparr>"

text \<open>The slice \<^verbatim>\<open>msg[len(magicString)+1:]\<close> panics for a message that is shorter.\<close>

definition DecodeBroadcastMessage :: "gob \<Rightarrow> string \<Rightarrow> (go_error + BroadcastMessage) outcome" where
  "DecodeBroadcastMessage gob msg =
     (if length msg < length magicString + 1 then Panic
      else Ret (gob_Decode gob (drop (length magicString + 1) msg)))"

section \<open>Discovery\<close>

text \<open>
  A node's loop over what \<^verbatim>\<open>ReadPacketWithTimeout\<close> returns. \<open>None\<close> means that it waits for a further packet.
\<close>

fun discover_loop :: "gob \<Rightarrow> Config \<Rightarrow> (go_error + string) list \<Rightarrow> Config outcome option" where
  "discover_loop gob c [] = None"
| "discover_loop gob c (Inl err # packets) = Some (Ret c)"
| "discover_loop gob c (Inr msg # packets) =
     (if \<not> IsCARISMAMessage msg then discover_loop gob c packets
      else case DecodeBroadcastMessage gob msg of
             Panic \<Rightarrow> Some Panic
           | Ret (Inl err) \<Rightarrow> discover_loop gob c packets
           | Ret (Inr decodedMessage) \<Rightarrow> Some (Ret (c\<lparr>CentralNodeHostname := Hostname decodedMessage\<rparr>)))"

definition discoveryMsg :: "Config \<Rightarrow> BroadcastMessage" where
  "discoveryMsg c = NewBroadcastMessage (net_JoinHostPort (NodeHostname c) (strconv_Itoa (GRPCPort c)))"

text \<open>
  The broadcaster of the central node: its socket, what was sent on it, and the goroutine that runs
  \<^verbatim>\<open>RepeatedlyWriteMessage\<close> (\<open>None\<close> once it has returned). Resolving the broadcast address does not fail. A ticker cannot
  be made for a delay that is not positive: the goroutine, and with it the process, panics.
\<close>

record broadcaster =
  closed :: bool
  sent :: "string list"
  writer :: "BroadcastMessage option"

datatype broadcast_event = Tick | Cancel | CloseSocket

text \<open>A time in seconds as a \<^verbatim>\<open>time.Duration\<close>, which counts nanoseconds in 64 bits.\<close>

definition Duration :: "int \<Rightarrow> int" where
  "Duration seconds = wrap64 (seconds * 1000000000)"

definition RepeatedlyWriteMessage :: "broadcaster \<Rightarrow> BroadcastMessage \<Rightarrow> int \<Rightarrow> broadcaster outcome" where
  "RepeatedlyWriteMessage b msg delay = (if delay \<le> 0 then Panic else Ret (b\<lparr>writer := Some msg\<rparr>))"

text \<open>A write to a closed socket fails, and a failing write ends the loop.\<close>

fun broadcast_step :: "gob \<Rightarrow> broadcaster \<Rightarrow> broadcast_event \<Rightarrow> broadcaster" where
  "broadcast_step gob b Tick =
     (case writer b of
        None \<Rightarrow> b
      | Some msg \<Rightarrow>
          (case BroadcastMessage_Bytes gob msg of
             Inl err \<Rightarrow> b\<lparr>writer := None\<rparr>
           | Inr data \<Rightarrow> if closed b then b\<lparr>writer := None\<rparr> else b\<lparr>sent := sent b @ [data]\<rparr>))"
| "broadcast_step gob b Cancel = b\<lparr>writer := None\<rparr>"
| "broadcast_step gob b CloseSocket = b\<lparr>closed := True\<rparr>"

text \<open>
  \<^verbatim>\<open>ListenPacket\<close> opens the socket at an address, with the address and port reused or not. A packet is read into a buffer of 1024
  bytes; a longer one is cut off.
\<close>

definition NewBroadcastService :: "(bool \<Rightarrow> string \<Rightarrow> go_error option) \<Rightarrow> Config \<Rightarrow> go_error + broadcaster" where
  "NewBroadcastService ListenPacket c =
     (case ListenPacket (EnableDebugMode c) (net_JoinHostPort [] (strconv_Itoa (UDPPort c))) of
        Some err \<Rightarrow> Inl err
      | None \<Rightarrow> Inr \<lparr>closed = False, sent = [], writer = None\<rparr>)"

definition ReadPacketWithTimeout :: "go_error option \<Rightarrow> go_error + string \<Rightarrow> go_error + string" where
  "ReadPacketWithTimeout deadlineErr readFrom =
     (case deadlineErr of
        Some err \<Rightarrow> Inl err
      | None \<Rightarrow> (case readFrom of Inl err \<Rightarrow> Inl err | Inr data \<Rightarrow> Inr (take 1024 data)))"

text \<open>
  The central node starts the goroutine and returns, which closes the socket; another node that does not know the central one reads
  packets, each with the error of setting the deadline, if any.
\<close>

definition handleDiscovery :: "gob \<Rightarrow> (bool \<Rightarrow> string \<Rightarrow> go_error option) \<Rightarrow> Config \<Rightarrow> (go_error option \<times> (go_error + string)) list \<Rightarrow>
    (Config \<times> broadcaster option) outcome option" where
  "handleDiscovery gob ListenPacket c reads =
     (case NewBroadcastService ListenPacket c of
        Inl err \<Rightarrow> Some (Ret (c, None))
      | Inr b \<Rightarrow>
          (if EnableCentralMode c
           then (case RepeatedlyWriteMessage b (discoveryMsg c) (Duration (UDPDelay c)) of
                   Panic \<Rightarrow> Some Panic
                 | Ret b \<Rightarrow> Some (Ret (c, Some (broadcast_step gob b CloseSocket))))
           else if CentralNodeHostname c = []
             then (case discover_loop gob c (map (\<lambda>(d, r). ReadPacketWithTimeout d r) reads) of
                     None \<Rightarrow> None
                   | Some Panic \<Rightarrow> Some Panic
                   | Some (Ret c) \<Rightarrow> Some (Ret (c, Some (broadcast_step gob b CloseSocket))))
             else Some (Ret (c, Some (broadcast_step gob b CloseSocket)))))"

text \<open>The address of the control plane that the orchestrator connects to.\<close>

definition control_plane_address :: "Config \<Rightarrow> string" where
  "control_plane_address c = net_JoinHostPort (CentralNodeHostname c) (strconv_Itoa (GRPCPort c))"

definition gob_law :: "gob \<Rightarrow> bool" where
  "gob_law gob \<longleftrightarrow> (\<forall>m. \<exists>b. gob_Encode gob m = Inr b \<and> gob_Decode gob b = Inr m)"

text \<open>The packets that end the search of a node.\<close>

definition answers :: "gob \<Rightarrow> go_error + string \<Rightarrow> bool" where
  "answers gob p =
     (case p of
        Inl err \<Rightarrow> True
      | Inr msg \<Rightarrow>
          IsCARISMAMessage msg \<and> (msg = magicString \<or> \<not> isl (gob_Decode gob (drop (length magicString + 1) msg))))"

section \<open>Rules\<close>

lemma Bytes_props:
  assumes "gob_law gob"
  obtains b where "BroadcastMessage_Bytes gob m = Inr b" "IsCARISMAMessage b" "DecodeBroadcastMessage gob b = Ret (Inr m)"
    "GetMessageType (Inr b) = Ret (None, Broadcast)"
proof -
  obtain e where e: "gob_Encode gob m = Inr e" "gob_Decode gob e = Inr m" using assms by (auto simp: gob_law_def)
  then show thesis
    by (intro that [of "magicString @ [type_byte Broadcast] @ e"])
      (simp_all add: BroadcastMessage_Bytes_def IsCARISMAMessage_def DecodeBroadcastMessage_def GetMessageType_def nth_append)
qed

lemma discover_skip:
  "\<forall>p \<in> set junk. \<exists>m. p = Inr m \<and> \<not> IsCARISMAMessage m \<Longrightarrow> discover_loop gob c (junk @ packets) = discover_loop gob c packets"
  by (induction junk) auto

lemma broadcast_closed: "closed b \<Longrightarrow> sent (foldl (broadcast_step gob) b es) = sent b \<and> closed (foldl (broadcast_step gob) b es)"
proof (induction es arbitrary: b)
  case (Cons e es)
  then have "sent (broadcast_step gob b e) = sent b \<and> closed (broadcast_step gob b e)"
    by (cases e) (auto split: option.split sum.split)
  with Cons.IH show ?case by simp
qed simp

section \<open>Properties\<close>

text \<open>
  Broadcast messages are recognised, have their type and decode to what was sent. A node that looks for the
  central node skips every other packet and takes the host of the first such message; but that is already
  a host with a port, to which the orchestrator joins the port a second time.
\<close>

lemma discovery_joins_port_twice:
  assumes "gob_law gob" and "\<forall>p \<in> set junk. \<exists>m. p = Inr m \<and> \<not> IsCARISMAMessage m"
    and "BroadcastMessage_Bytes gob (discoveryMsg central) = Inr b" and "CHR '':'' \<notin> set (NodeHostname central)"
  shows "\<exists>c'. discover_loop gob c (junk @ Inr b # packets) = Some (Ret c') \<and>
    CentralNodeHostname c' = NodeHostname central @ '':'' @ strconv_Itoa (GRPCPort central) \<and>
    control_plane_address c' = ''['' @ NodeHostname central @ '':'' @ strconv_Itoa (GRPCPort central) @ '']:'' @ strconv_Itoa (GRPCPort c)"
proof -
  from Bytes_props [OF assms(1), of "discoveryMsg central"] assms(3)
  have "IsCARISMAMessage b" "DecodeBroadcastMessage gob b = Ret (Inr (discoveryMsg central))" by auto
  then have "discover_loop gob c (junk @ Inr b # packets) = Some (Ret (c\<lparr>CentralNodeHostname := Hostname (discoveryMsg central)\<rparr>))"
    by (simp add: discover_skip [OF assms(2)])
  then show ?thesis
    using assms(4) by (auto simp: discoveryMsg_def NewBroadcastMessage_def net_JoinHostPort_def control_plane_address_def)
qed

definition example_gob :: gob where
  "example_gob = \<lparr>gob_Encode = \<lambda>m. Inr (Hostname m), gob_Decode = \<lambda>b. Inr \<lparr>Hostname = b\<rparr>\<rparr>"

text \<open>
  C26. The search for the central node ends with the first packet that answers it, and only then: a failing read ends it with the configuration as it was, a message
  that can be decoded sets the central node, and a packet that consists of the magic string alone crashes the node, as it passes the check and decoding it
  slices beyond its end. All other packets are skipped.
\<close>

theorem discovery_ends_with_first_answer:
  "discover_loop gob c packets =
     (case find (answers gob) packets of
        None \<Rightarrow> None
      | Some (Inl err) \<Rightarrow> Some (Ret c)
      | Some (Inr msg) \<Rightarrow>
          Some (if msg = magicString then Panic
                else Ret (c\<lparr>CentralNodeHostname := Hostname (projr (gob_Decode gob (drop (length magicString + 1) msg)))\<rparr>)))"
  by (induction gob c packets rule: discover_loop.induct)
    (auto simp: answers_def IsCARISMAMessage_def DecodeBroadcastMessage_def not_le not_less le_Suc_eq dest: take_all_iff [THEN iffD2, of _ "length magicString"] split: sum.splits)

text \<open>
  The central node is never heard: \<^verbatim>\<open>handleDiscovery\<close> starts the sender, which first waits for a tick, and
  closes the socket as it returns; whatever happens afterwards, nothing is sent.
\<close>

lemma central_node_sends_nothing:
  assumes "EnableCentralMode c" and "handleDiscovery gob ListenPacket c reads = Some (Ret (c', Some b))"
  shows "sent (foldl (broadcast_step gob) b es) = []"
  using assms broadcast_closed [of b gob es]
  by (auto simp: handleDiscovery_def NewBroadcastService_def RepeatedlyWriteMessage_def split: option.splits if_splits)

end
