(* ===== verification/Orchestrator_Run.thy ===== *)
theory Orchestrator_Run
  imports Orchestrator_App Config_New Discovery
begin

text \<open>
  How the orchestrator starts and ends, \<^verbatim>\<open>Run\<close> of \<^verbatim>\<open>cmd/carisma-orchestrator/app/app.go\<close>: an Envoy container that is left over is removed, the central node is
  looked for, the node registers itself, Envoy is started and the two channels are opened. Every step may
  fail, and what was set up by then is taken down again by deferred calls. The node then receives until its channel ends. The gRPC client is a parameter.
\<close>

section \<open>Model\<close>

record connection =
  newClient :: "string \<Rightarrow> go_error option"
  registerNode :: "RegisterRequest \<Rightarrow> go_error + RegisterResponse"
  openServices :: "string \<Rightarrow> go_error option"
  openNodes :: "string \<Rightarrow> go_error option"

text \<open>The packages that are arguments of the operations \<^verbatim>\<open>Run\<close> calls.\<close>

record 'any packages =
  anypbNew :: "'any any_msg \<Rightarrow> go_error + 'any"
  protojsonFormat :: "'any Bootstrap \<Rightarrow> string"
  refParse :: reference_parser
  gobCodec :: gob
  listenPacket :: "bool \<Rightarrow> string \<Rightarrow> go_error option"
  newWatcher :: "go_error option"
  addWatch :: "string \<Rightarrow> go_error option"

datatype 'w startup = StartFailed 'w | Started Config string 'w

text \<open>The deferred calls, before and after Envoy has been started.\<close>

definition close_manager :: "'w Manager \<Rightarrow> 'w \<Rightarrow> 'w outcome" where
  "close_manager m w = (case Close m w of Panic \<Rightarrow> Panic | Ret (err, w) \<Rightarrow> Ret w)"

definition stop_and_close :: "reference_parser \<Rightarrow> 'w Manager \<Rightarrow> Config \<Rightarrow> 'w \<Rightarrow> 'w outcome" where
  "stop_and_close parse m c w = (case stopEnvoy parse m c w of Panic \<Rightarrow> Panic | Ret (err, w) \<Rightarrow> close_manager m w)"

definition give_up :: "'w outcome \<Rightarrow> 'w startup outcome" where
  "give_up r = (case r of Panic \<Rightarrow> Panic | Ret w \<Rightarrow> Ret (StartFailed w))"

definition connect :: "'any packages \<Rightarrow> connection \<Rightarrow> 'w Manager \<Rightarrow> Config \<Rightarrow> 'w \<Rightarrow> 'w startup outcome" where
  "connect pk conn m c w =
     (if newClient conn (control_plane_address c) \<noteq> None then give_up (close_manager m w)
      else case registerNode conn \<lparr>Address = NodeHostname c, ReqPort = wrap32 (IngressPort c)\<rparr> of
             Inl err \<Rightarrow> give_up (close_manager m w)
           | Inr r \<Rightarrow>
               (case runEnvoy (anypbNew pk) (protojsonFormat pk) (refParse pk) m c (Id r) w of
                  Panic \<Rightarrow> Panic
                | Ret (Some err, w) \<Rightarrow> give_up (close_manager m w)
                | Ret (None, w) \<Rightarrow>
                    if openServices conn (Id r) \<noteq> None then give_up (stop_and_close (refParse pk) m c w)
                    else Ret (Started c (Id r) w)))"

text \<open>\<open>None\<close>: the node still waits for a message of the central node.\<close>

definition startup :: "'any packages \<Rightarrow> connection \<Rightarrow> (go_error option \<times> (go_error + string)) list \<Rightarrow> 'w Manager \<Rightarrow> Config \<Rightarrow> 'w \<Rightarrow> 'w startup outcome option" where
  "startup pk conn packets m c w =
     (case stopEnvoy (refParse pk) m c w of
        Panic \<Rightarrow> Some Panic
      | Ret (err, w) \<Rightarrow>
          (if EnableDiscovery c
           then (case handleDiscovery (gobCodec pk) (listenPacket pk) c packets of
                   None \<Rightarrow> None
                 | Some Panic \<Rightarrow> Some Panic
                 | Some (Ret (c, b)) \<Rightarrow> Some (connect pk conn m c w))
           else Some (connect pk conn m c w)))"

text \<open>
  The main loop from then on, apart from the goroutines beside it: it still receives, or it has ended and taken Envoy down. The
  error of opening the node channel is not looked at; receiving on the nil client panics.
\<close>

definition desiredDeploymentConfigFilePath :: string where [go_data]: "desiredDeploymentConfigFilePath = ''/opt/carisma/conf/global_desired_state.json''"

text \<open>The central node needs the file of desired states.\<close>

definition watch_fails :: "'any packages \<Rightarrow> Config \<Rightarrow> bool" where
  "watch_fails pk c \<longleftrightarrow> EnableCentralMode c \<and>
     isl (NewFileWatcher desiredDeploymentConfigFilePath (newWatcher pk) (addWatch pk desiredDeploymentConfigFilePath) :: go_error + unit FileWatcher)"

datatype 'w run_state = Receiving "'w app" | Ended 'w

definition end_run :: "'w outcome \<Rightarrow> 'w run_state outcome" where
  "end_run r = (case r of Panic \<Rightarrow> Panic | Ret w \<Rightarrow> Ret (Ended w))"

definition serve :: "'any packages \<Rightarrow> connection \<Rightarrow> DeploymentConfiguration recv list \<Rightarrow> 'w Manager \<Rightarrow> Config \<Rightarrow> string \<Rightarrow> 'w \<Rightarrow> 'w run_state outcome" where
  "serve pk conn msgs m c nodeID w =
     (if watch_fails pk c then end_run (stop_and_close (refParse pk) m c w)
      else if openNodes conn nodeID \<noteq> None then Panic
      else case receive_main (refParse pk) (app_orchestrator c m) msgs \<lparr>runtime = w, announced = [], nodeSent = []\<rparr> of
             Panic \<Rightarrow> Panic
           | Ret (False, st) \<Rightarrow> Ret (Receiving st)
           | Ret (True, st) \<Rightarrow> end_run (stop_and_close (refParse pk) m c (runtime st)))"

text \<open>\<^verbatim>\<open>Run\<close> over a manager, and with the manager that the configuration asks for.\<close>

definition run_node :: "'any packages \<Rightarrow> connection \<Rightarrow> (go_error option \<times> (go_error + string)) list \<Rightarrow> DeploymentConfiguration recv list \<Rightarrow>
    'w Manager \<Rightarrow> Config \<Rightarrow> 'w \<Rightarrow> 'w run_state outcome option" where
  "run_node pk conn packets msgs m c w =
     (case startup pk conn packets m c w of
        None \<Rightarrow> None
      | Some Panic \<Rightarrow> Some Panic
      | Some (Ret (StartFailed w)) \<Rightarrow> Some (Ret (Ended w))
      | Some (Ret (Started c nodeID w)) \<Rightarrow> Some (serve pk conn msgs m c nodeID w))"

datatype 'w orchestrator_run =
    Returned
  | Exited int
  | Emulated "debugContainerManager run_state outcome option"
  | OnEngine "'w run_state outcome option"

definition orchestrator_Run :: "'any packages \<Rightarrow> connection \<Rightarrow> (go_error option \<times> (go_error + string)) list \<Rightarrow> DeploymentConfiguration recv list \<Rightarrow>
    debug_env \<Rightarrow> untar \<Rightarrow> go_error + 'w docker_client \<Rightarrow> new_result \<Rightarrow> 'w \<Rightarrow> 'w orchestrator_run" where
  "orchestrator_Run pk conn packets msgs env untar client config w =
     (case config of
        ProcessExit code \<Rightarrow> Exited code
      | NewError err \<Rightarrow> Returned
      | NewConfig c \<Rightarrow>
          (if EmulateContainerRuntime c then Emulated (run_node pk conn packets msgs (debug_Manager env) c NewDebugContainerManager)
           else case NewDockerContainerManager untar client w of
                  (Inl err, w) \<Rightarrow> Returned
                | (Inr m, w) \<Rightarrow> OnEngine (run_node pk conn packets msgs m c w)))"

text \<open>The images a message asks this node for.\<close>

fun wanted :: "reference_parser \<Rightarrow> Config \<Rightarrow> DeploymentConfiguration recv \<Rightarrow> Image list" where
  "wanted parse c (RecvErr err) = []"
| "wanted parse c (RecvMsg msg) =
     (case DeploymentConfigFromJSON (Json msg) of
        (d, Some err) \<Rightarrow> []
      | (d, None) \<Rightarrow>
          (case entries_of d (NodeHostname c) of
             None \<Rightarrow> []
           | Some node \<Rightarrow>
               (case qualify_loop parse (DefaultContainerRegistryDomain c) (map ParseImageName (image_list node)) of
                  Ret (Inr new) \<Rightarrow> new
                | _ \<Rightarrow> [])))"

section \<open>Rules\<close>

lemma handleDiscovery_domain:
  "handleDiscovery gob lp c packets = Some (Ret (c', b)) \<Longrightarrow>
     DefaultContainerRegistryDomain c' = DefaultContainerRegistryDomain c \<and> NodeHostname c' = NodeHostname c"
proof -
  have "discover_loop gob c ps = Some (Ret c') \<Longrightarrow>
      DefaultContainerRegistryDomain c' = DefaultContainerRegistryDomain c \<and> NodeHostname c' = NodeHostname c" for c' ps
    by (induction gob c ps rule: discover_loop.induct) (auto split: if_splits outcome.splits sum.splits)
  then show "handleDiscovery gob lp c packets = Some (Ret (c', b)) \<Longrightarrow>
     DefaultContainerRegistryDomain c' = DefaultContainerRegistryDomain c \<and> NodeHostname c' = NodeHostname c"
    by (fastforce simp: handleDiscovery_def split: if_splits option.splits outcome.splits sum.splits)
qed

text \<open>A reliable manager stays one inside the state of the process, and its handlers leave the containers alone.\<close>

lemma app_reliable:
  assumes "reliable_manager mgr keeps images"
  shows "reliable_manager (app_Manager mgr) (\<lambda>n st. keeps n (runtime st)) (\<lambda>st. images (runtime st))"
proof -
  from assms have r: "\<And>n w. keeps (Suc n) w \<Longrightarrow> keeps n w"
    and l: "\<And>n w. keeps n w \<Longrightarrow> \<exists>cs w'. Containers mgr w = Ret (Inr cs, w') \<and> keeps n w' \<and> images w' = images w \<and> mset (map ImageName cs) = images w"
    and p: "\<And>n w img args pb v. keeps (Suc n) w \<Longrightarrow>
      \<exists>r w'. PullImageAndCreateContainer mgr img args pb v w = Ret (Inr r, w') \<and> keeps n w' \<and> images w' = add_mset img (images w)"
    and rm: "\<And>n w img v. keeps n w \<Longrightarrow> \<exists>r w'. RemoveImageAndContainer mgr img v w = Ret (Inr r, w') \<and> keeps n w' \<and> images w' = images w - {#img#}"
    unfolding reliable_manager_def by blast+
  show ?thesis
  proof unfold_locales
    fix n and st :: "'a app" and img args pb v
    show "keeps (Suc n) (runtime st) \<Longrightarrow> keeps n (runtime st)" by (rule r)
    show "keeps n (runtime st) \<Longrightarrow> \<exists>cs st'. Containers (app_Manager mgr) st = Ret (Inr cs, st') \<and> keeps n (runtime st') \<and>
        images (runtime st') = images (runtime st) \<and> mset (map ImageName cs) = images (runtime st)"
      by (drule l) (force simp: lift_app_def)
    show "keeps (Suc n) (runtime st) \<Longrightarrow> \<exists>r st'. PullImageAndCreateContainer (app_Manager mgr) img args pb v st = Ret (Inr r, st') \<and>
        keeps n (runtime st') \<and> images (runtime st') = add_mset img (images (runtime st))"
      by (drule p [of _ _ img args pb v]) (force simp: lift_app_def)
    show "keeps n (runtime st) \<Longrightarrow> \<exists>r st'. RemoveImageAndContainer (app_Manager mgr) img v st = Ret (Inr r, st') \<and>
        keeps n (runtime st') \<and> images (runtime st') = images (runtime st) - {#img#}"
      by (drule rm [of _ _ img v]) (force simp: lift_app_def)
  qed
qed

lemma app_quiet:
  assumes "reliable_manager mgr keeps images"
  shows "reliable_manager.quiet (app_Manager mgr) (\<lambda>n st. keeps n (runtime st)) (\<lambda>st. images (runtime st)) (app_orchestrator c mgr)"
  by (simp add: reliable_manager.quiet_def [OF app_reliable [OF assms]] announce_service_def)

text \<open>Taking down over a reliable manager that closes without touching its containers.\<close>

locale closing_manager = reliable_manager +
  assumes close_ok: "inv n w \<Longrightarrow> \<exists>w'. Close mgr w = Ret (None, w') \<and> images w' = images w"
begin

lemma close_images: "close_manager mgr w = Ret w' \<Longrightarrow> inv n w \<Longrightarrow> images w' = images w"
  using close_ok [of n w] by (auto simp: close_manager_def)

lemma stopEnvoy_images:
  assumes "inv n w" and "ParseFQIN parse envoyContainerImageName (DefaultContainerRegistryDomain c) = Ret (Inr img)"
  shows "\<exists>w'. stopEnvoy parse mgr c w = Ret (None, w') \<and> inv n w' \<and> images w' = images w - {#img#}"
  using remove_ok [OF assms(1), of img False] assms(2) by (auto simp: stopEnvoy_def)

lemma connect_failed_images:
  assumes inv: "inv (Suc n) w" and any: "anypbNew pk AnyHttp2ProtocolOptions = Inr a"
    and fq: "ParseFQIN (refParse pk) envoyContainerImageName (DefaultContainerRegistryDomain c) = Ret (Inr img)"
    and res: "connect pk conn mgr c w = Ret (StartFailed w')"
  shows "images w' = images w"
proof -
  note env = run_and_stop_envoy [where anypb_New = "anypbNew pk" and a = a and parse = "refParse pk" and c = c and img = img, OF inv any fq]
  have early: "give_up (close_manager mgr w) = Ret (StartFailed w') \<Longrightarrow> images w' = images w"
    using close_images [OF _ inv] by (auto simp: give_up_def split: outcome.splits)
  have late: "images w' = images w" if "openServices conn (Id r) \<noteq> None" "newClient conn (control_plane_address c) = None"
    "registerNode conn \<lparr>Address = NodeHostname c, ReqPort = wrap32 (IngressPort c)\<rparr> = Inr r" for r
  proof -
    from env [of "protojsonFormat pk" "Id r"] obtain w1 w2 where
      "runEnvoy (anypbNew pk) (protojsonFormat pk) (refParse pk) mgr c (Id r) w = Ret (None, w1)"
      "stopEnvoy (refParse pk) mgr c w1 = Ret (None, w2)" "inv n w2" "images w2 = images w" by blast
    with that res close_images [OF _ \<open>inv n w2\<close>] show ?thesis
      by (auto simp: connect_def give_up_def stop_and_close_def split: outcome.splits)
  qed
  let ?req = "\<lparr>Address = NodeHostname c, ReqPort = wrap32 (IngressPort c)\<rparr>"
  show ?thesis
  proof (cases "newClient conn (control_plane_address c) \<noteq> None \<or> (\<exists>err. registerNode conn ?req = Inl err)")
    case True
    with res early show ?thesis by (auto simp: connect_def split: if_splits)
  next
    case False
    then obtain r where r: "newClient conn (control_plane_address c) = None" "registerNode conn ?req = Inr r"
      by (cases "registerNode conn ?req") auto
    moreover obtain w1 where "runEnvoy (anypbNew pk) (protojsonFormat pk) (refParse pk) mgr c (Id r) w = Ret (None, w1)"
      using env by blast
    ultimately have "openServices conn (Id r) \<noteq> None" using res by (auto simp: connect_def split: if_splits)
    with r show ?thesis using late by blast
  qed
qed

lemma connect_started_images:
  assumes inv: "inv (Suc n) w" and any: "anypbNew pk AnyHttp2ProtocolOptions = Inr a"
    and fq: "ParseFQIN (refParse pk) envoyContainerImageName (DefaultContainerRegistryDomain c) = Ret (Inr img)"
    and res: "connect pk conn mgr c w = Ret (Started c' nodeID w')"
  shows "c' = c \<and> inv n w' \<and> images w' = add_mset img (images w)"
proof -
  let ?req = "\<lparr>Address = NodeHostname c, ReqPort = wrap32 (IngressPort c)\<rparr>"
  have no: "give_up x \<noteq> Ret (Started c' nodeID w')" for x by (auto simp: give_up_def split: outcome.splits)
  with res obtain r where r: "newClient conn (control_plane_address c) = None" "registerNode conn ?req = Inr r"
    by (auto simp: connect_def split: if_splits sum.splits)
  from run_and_stop_envoy [where anypb_New = "anypbNew pk" and a = a and parse = "refParse pk" and c = c and img = img and fmt = "protojsonFormat pk"
      and nodeID = "Id r", OF inv any fq]
  obtain w1 where "runEnvoy (anypbNew pk) (protojsonFormat pk) (refParse pk) mgr c (Id r) w = Ret (None, w1)" "inv n w1"
    "images w1 = add_mset img (images w)" by blast
  with r res no show ?thesis by (auto simp: connect_def split: if_splits)
qed

lemma process_keeps_envoy:
  assumes inv: "inv (n + length (wanted parse c (RecvMsg msg))) (runtime st)" and msg: "DeploymentConfigFromJSON (Json msg) = (d, None)"
    and res: "process_and_log parse (app_orchestrator c mgr) (entries_of d) st = Ret st'"
    and img: "is_envoy (ParseImageName img)" "img \<notin> image_ref ` set (wanted parse c (RecvMsg msg))"
  shows "inv n (runtime st') \<and> count (images (runtime st')) img = count (images (runtime st)) img"
proof (cases "entries_of d (NodeHostname c)")
  case None
  with res inv_mono [OF le_add1 inv] show ?thesis by (auto simp: process_and_log_def process_def)
next
  case (Some node)
  note rel = reliable_manager_axioms
  let ?q = "qualify_loop parse (DefaultContainerRegistryDomain c) (map ParseImageName (image_list node))"
  show ?thesis
  proof (cases "\<exists>new. ?q = Ret (Inr new)")
    case True
    then obtain new where new: "?q = Ret (Inr new)" by blast
    with Some msg have w: "wanted parse c (RecvMsg msg) = new" by simp
    from reliable_manager.process_images [OF app_reliable [OF rel] app_quiet [OF rel], of n new st "entries_of d" c node parse] inv Some new w
    obtain cs st1 where p: "process parse (app_orchestrator c mgr) (entries_of d) st = Ret (None, st1)" "inv n (runtime st1)"
      and im: "images (runtime st1) = images (runtime st) - mset (map image_ref (filter (\<lambda>i. \<not> is_envoy i) (diff new (running_images cs)))) +
        mset (map image_ref (diff (running_images cs) new))" by auto
    have "img \<notin> image_ref ` set (filter (\<lambda>i. \<not> is_envoy i) (diff new (running_images cs)))"
      using img(1) by (auto simp: diff_filter running_images_def ParseImageName_image_ref)
    moreover have "img \<notin> image_ref ` set (diff (running_images cs) new)" using img(2) w by (auto simp: diff_filter)
    ultimately have "count (images (runtime st1)) img = count (images (runtime st)) img"
      unfolding im by (simp add: count_mset count_notin del: mset_map mset_filter)
    with p res show ?thesis by (auto simp: process_and_log_def)
  next
    case False
    obtain cs w0 where l: "Containers mgr (runtime st) = Ret (Inr cs, w0)" "inv n w0" "images w0 = images (runtime st)"
      using list_ok [OF inv_mono [OF _ inv, of n]] by auto
    have "process parse (app_orchestrator c mgr) (entries_of d) st = Panic \<or>
        (\<exists>err. process parse (app_orchestrator c mgr) (entries_of d) st = Ret (Some err, st\<lparr>runtime := w0\<rparr>))"
      using Some False l(1) by (auto simp: process_eq lift_app_def split: outcome.splits sum.splits)
    with res l show ?thesis by (auto simp: process_and_log_def)
  qed
qed

lemma receive_main_keeps_envoy:
  assumes "is_envoy (ParseImageName img)"
  shows "receive_main parse (app_orchestrator c mgr) msgs st = Ret (ended, st') \<Longrightarrow>
    inv (n + length (concat (map (wanted parse c) msgs))) (runtime st) \<Longrightarrow> img \<notin> image_ref ` set (concat (map (wanted parse c) msgs)) \<Longrightarrow>
    inv n (runtime st') \<and> count (images (runtime st')) img = count (images (runtime st)) img"
proof (induction msgs arbitrary: st)
  case (Cons msg msgs)
  let ?k = "n + length (concat (map (wanted parse c) msgs))"
  show ?case
  proof (cases msg)
    case (RecvErr err)
    with Cons.prems inv_mono [OF le_add1 Cons.prems(2)] show ?thesis by simp
  next
    case (RecvMsg m)
    obtain d e where d: "DeploymentConfigFromJSON (Json m) = (d, e)" by (cases "DeploymentConfigFromJSON (Json m)")
    have inv: "inv (?k + length (wanted parse c (RecvMsg m))) (runtime st)"
      using Cons.prems(2) RecvMsg by (simp add: ac_simps del: wanted.simps)
    show ?thesis
    proof (cases e)
      case (Some err)
      with Cons RecvMsg d inv show ?thesis by simp
    next
      case None
      with Cons.prems(1) RecvMsg d obtain st1 where st1: "process_and_log parse (app_orchestrator c mgr) (entries_of d) st = Ret st1"
        "receive_main parse (app_orchestrator c mgr) msgs st1 = Ret (ended, st')" by (auto split: outcome.splits)
      have "inv ?k (runtime st1) \<and> count (images (runtime st1)) img = count (images (runtime st)) img"
        by (rule process_keeps_envoy [OF inv _ st1(1) assms]) (use d None Cons.prems(3) RecvMsg in auto)
      with Cons.IH [OF st1(2)] Cons.prems(3) show ?thesis by auto
    qed
  qed
qed simp

lemma startup_failed_images:
  assumes "inv (Suc n) w" and "anypbNew pk AnyHttp2ProtocolOptions = Inr a"
    and fq: "ParseFQIN (refParse pk) envoyContainerImageName (DefaultContainerRegistryDomain c) = Ret (Inr img)"
    and res: "startup pk conn packets mgr c w = Some (Ret (StartFailed w'))"
  shows "images w' = images w - {#img#}"
proof -
  obtain w1 where w1: "stopEnvoy (refParse pk) mgr c w = Ret (None, w1)" "inv (Suc n) w1" "images w1 = images w - {#img#}"
    using stopEnvoy_images [OF assms(1) fq] by blast
  with res obtain c' where c': "connect pk conn mgr c' w1 = Ret (StartFailed w')"
    and "DefaultContainerRegistryDomain c' = DefaultContainerRegistryDomain c"
    using handleDiscovery_domain [of "gobCodec pk" "listenPacket pk" c packets]
    by (fastforce simp: startup_def split: if_splits option.splits outcome.splits)
  then have "ParseFQIN (refParse pk) envoyContainerImageName (DefaultContainerRegistryDomain c') = Ret (Inr img)" using fq by simp
  from connect_failed_images [OF w1(2) assms(2) this c'] w1(3) show ?thesis by simp
qed

lemma stop_and_close_images:
  assumes "inv n w" and "ParseFQIN parse envoyContainerImageName (DefaultContainerRegistryDomain c) = Ret (Inr img)"
    and "end_run (stop_and_close parse mgr c w) = Ret (Ended w')"
  shows "images w' = images w - {#img#}"
  using stopEnvoy_images [OF assms(1,2)] assms(3) close_images [of _ w' n] by (auto simp: stop_and_close_def end_run_def split: outcome.splits)

lemma serve_images:
  assumes inv: "inv (n + length (concat (map (wanted (refParse pk) c) msgs))) w"
    and fq: "ParseFQIN (refParse pk) envoyContainerImageName (DefaultContainerRegistryDomain c) = Ret (Inr img)"
    and img: "is_envoy (ParseImageName img)" "img \<notin> image_ref ` set (concat (map (wanted (refParse pk) c) msgs))"
    and res: "serve pk conn msgs mgr c nodeID w = Ret r"
  shows "case r of Receiving st \<Rightarrow> count (images (runtime st)) img = count (images w) img | Ended w' \<Rightarrow> count (images w') img = count (images w) img - 1"
proof -
  let ?st = "\<lparr>runtime = w, announced = [], nodeSent = []\<rparr>"
  from res consider
    (nofile) w' where "r = Ended w'" "end_run (stop_and_close (refParse pk) mgr c w) = Ret (Ended w')"
  | (receiving) st where "r = Receiving st" "receive_main (refParse pk) (app_orchestrator c mgr) msgs ?st = Ret (False, st)"
  | (ended) st w' where "r = Ended w'" "receive_main (refParse pk) (app_orchestrator c mgr) msgs ?st = Ret (True, st)"
      "end_run (stop_and_close (refParse pk) mgr c (runtime st)) = Ret (Ended w')"
    by (auto simp: serve_def end_run_def split: if_splits outcome.splits bool.splits)
  then show ?thesis
  proof cases
    case nofile
    then show ?thesis using stop_and_close_images [OF inv fq nofile(2)] by simp
  next
    case receiving
    with receive_main_keeps_envoy [OF img(1) receiving(2), of n] inv img(2) show ?thesis by simp
  next
    case ended
    with receive_main_keeps_envoy [OF img(1) ended(2), of n] inv img(2)
    have "inv n (runtime st)" "count (images (runtime st)) img = count (images w) img" by simp_all
    with stop_and_close_images [OF _ fq ended(3)] ended(1) show ?thesis by simp
  qed
qed

lemma run_images:
  assumes inv: "inv (Suc (n + length (concat (map (wanted (refParse pk) c) msgs)))) w" and any: "anypbNew pk AnyHttp2ProtocolOptions = Inr a"
    and fq: "ParseFQIN (refParse pk) envoyContainerImageName (DefaultContainerRegistryDomain c) = Ret (Inr img)"
    and img: "is_envoy (ParseImageName img)" "img \<notin> image_ref ` set (concat (map (wanted (refParse pk) c) msgs))"
    and res: "run_node pk conn packets msgs mgr c w = Some (Ret r)"
  shows "case r of Receiving st \<Rightarrow> count (images (runtime st)) img = Suc (count (images w) img - 1)
    | Ended w' \<Rightarrow> count (images w') img = count (images w) img - 1"
proof -
  from res consider (failed) w' where "r = Ended w'" "startup pk conn packets mgr c w = Some (Ret (StartFailed w'))"
  | (started) c' nodeID w1 where "startup pk conn packets mgr c w = Some (Ret (Started c' nodeID w1))" "serve pk conn msgs mgr c' nodeID w1 = Ret r"
    by (auto simp: run_node_def split: option.splits outcome.splits startup.splits)
  then show ?thesis
  proof cases
    case failed
    then show ?thesis using startup_failed_images [OF inv any fq] by simp
  next
    case started
    obtain w0 where w0: "stopEnvoy (refParse pk) mgr c w = Ret (None, w0)" "images w0 = images w - {#img#}"
      "inv (Suc (n + length (concat (map (wanted (refParse pk) c) msgs)))) w0" using stopEnvoy_images [OF inv fq] by blast
    with started(1) obtain c2 where c2: "connect pk conn mgr c2 w0 = Ret (Started c' nodeID w1)"
      and eq: "DefaultContainerRegistryDomain c2 = DefaultContainerRegistryDomain c" "NodeHostname c2 = NodeHostname c"
      using handleDiscovery_domain [of "gobCodec pk" "listenPacket pk" c packets]
      by (fastforce simp: startup_def split: if_splits option.splits outcome.splits)
    have fq2: "ParseFQIN (refParse pk) envoyContainerImageName (DefaultContainerRegistryDomain c2) = Ret (Inr img)" using fq eq by simp
    from connect_started_images [OF w0(3) any fq2 c2] have w1: "c' = c2" "images w1 = add_mset img (images w0)"
      "inv (n + length (concat (map (wanted (refParse pk) c) msgs))) w1" by auto
    have same: "wanted (refParse pk) c2 = wanted (refParse pk) c"
    proof
      fix m show "wanted (refParse pk) c2 m = wanted (refParse pk) c m" by (cases m) (simp_all only: wanted.simps, unfold eq, rule refl)
    qed
    from serve_images [of n pk c2 msgs w1 img conn nodeID r] w1 w0(2) started(2) fq2 img same show ?thesis
      by (simp split: run_state.splits)
  qed
qed

end

interpretation dbc: closing_manager "debug_Manager env" "\<lambda>n d. debug_inv env d \<and> ids_fresh env n d" debug_images for env
  by unfold_locales (simp add: debug_Manager_def debug_Close_def debug_images_def)

section \<open>Properties\<close>

text \<open>
  C15. Envoy over a run of a node that is not the central one, on any manager that meets the contract \<open>closing_manager\<close> (its calls succeed, and closing it leaves the
  containers alone), for an image of Envoy that no message asks for. While the node receives, after any messages and rounds, there is one container of Envoy beside
  those that were there before, less one left over, which the start takes away: no round has removed it. And when the run has ended, because its start failed at any point or its loop has
  ended, this container is gone. The bound on the manager is the number of containers that the run creates. The debug manager meets the contract.
\<close>

theorem envoy_lives_as_long_as_the_run:
  assumes "closing_manager mgr keeps images" and "keeps (Suc (length (concat (map (wanted (refParse pk) c) msgs)))) w"
    and "\<not> EnableCentralMode c"
    and "anypbNew pk AnyHttp2ProtocolOptions = Inr a"
    and "ParseFQIN (refParse pk) envoyContainerImageName (DefaultContainerRegistryDomain c) = Ret (Inr img)"
    and "is_envoy (ParseImageName img)" and "img \<notin> image_ref ` set (concat (map (wanted (refParse pk) c) msgs))"
    and "run_node pk conn packets msgs mgr c w = Some (Ret r)"
  shows "case r of Receiving st \<Rightarrow> count (images (runtime st)) img = Suc (count (images w) img - 1)
    | Ended w' \<Rightarrow> count (images w') img = count (images w) img - 1"
  using closing_manager.run_images [OF assms(1), where n = 0] assms(2,4-8) by simp

definition example_packages :: "unit packages" where
  "example_packages = \<lparr>anypbNew = \<lambda>_. Inr (), protojsonFormat = \<lambda>_. ''{}'', refParse = example_parser, gobCodec = example_gob,
     listenPacket = \<lambda>_ _. None, newWatcher = None, addWatch = \<lambda>_. None\<rparr>"

definition accepted :: connection where
  "accepted = \<lparr>newClient = \<lambda>_. None, registerNode = \<lambda>_. Inr \<lparr>Id = ''node-0''\<rparr>, openServices = \<lambda>_. None, openNodes = \<lambda>_. None\<rparr>"

definition foreign_report :: "DeploymentConfiguration recv list" where
  "foreign_report = [RecvMsg \<lparr>Json = report_text, StateType = STATE_TYPE_ACTUAL\<rparr>, RecvErr EOF]"

theorem envoy_lives_as_long_as_the_run_witness:
  "\<exists>d'. run_node example_packages accepted [] foreign_report (debug_Manager example_env2) (Default ''hpc-2'') NewDebugContainerManager =
       Some (Ret (Ended d')) \<and> count (debug_images d') ''docker.io/envoyproxy/envoy:distroless-v1.27-latest'' = 0"
proof -
  let ?c = "Default ''hpc-2''" and ?m = "debug_Manager example_env2" and ?img = "''docker.io/envoyproxy/envoy:distroless-v1.27-latest''"
  have fq: "ParseFQIN (refParse example_packages) envoyContainerImageName (DefaultContainerRegistryDomain ?c) = Ret (Inr ?img)"
    by (simp add: example_packages_def ParseFQIN_def example_parser_def envoyContainerImageName_def Default_def ParseImageName_def tag_suffix_def)
  have envoy: "is_envoy (ParseImageName ?img)"
    by (simp add: is_envoy_def envoyContainerImageName_def ParseImageName_def strings_HasSuffix_def)
  have any: "anypbNew example_packages AnyHttp2ProtocolOptions = Inr ()" by (simp add: example_packages_def)
  have host: "NodeHostname ?c = ''hpc-2''" "\<not> EnableDiscovery ?c" "\<not> EnableCentralMode ?c" by (simp_all add: Default_def)
  have none: "concat (map (wanted (refParse example_packages) ?c) foreign_report) = []"
    by (simp add: foreign_report_def report_text_read entries_of_def host)
  have fresh: "ids_fresh example_env2 1 NewDebugContainerManager" by (simp add: ids_fresh_def NewDebugContainerManager_def)
  obtain w1 where w1: "stopEnvoy (refParse example_packages) ?m ?c NewDebugContainerManager = Ret (None, w1)"
    "debug_inv example_env2 w1 \<and> ids_fresh example_env2 1 w1"
    using dbc.stopEnvoy_images [where env = example_env2 and n = 1 and w = NewDebugContainerManager and c = ?c, OF _ fq] example_inv fresh by blast
  obtain w2 w3 where w2: "runEnvoy (anypbNew example_packages) (protojsonFormat example_packages) (refParse example_packages) ?m ?c ''node-0'' w1 = Ret (None, w2)"
    "stopEnvoy (refParse example_packages) ?m ?c w2 = Ret (None, w3)"
    using dbg.run_and_stop_envoy [where env = example_env2 and n = 0 and w = w1 and anypb_New = "anypbNew example_packages" and c = ?c, OF _ any fq] w1(2) by fastforce
  obtain w4 where w4: "Close ?m w3 = Ret (None, w4)" by (simp add: debug_Manager_def debug_Close_def)
  have "startup example_packages accepted [] ?m ?c NewDebugContainerManager = Some (Ret (Started ?c ''node-0'' w2))"
    using w2 host by (simp add: startup_def w1(1) connect_def accepted_def)
  moreover have "serve example_packages accepted foreign_report ?m ?c ''node-0'' w2 = Ret (Ended w4)"
    using w2 w4 host by (simp add: serve_def foreign_report_def report_text_read entries_of_def process_and_log_def process_def accepted_def
        stop_and_close_def close_manager_def end_run_def)
  ultimately have s: "run_node example_packages accepted [] foreign_report ?m ?c NewDebugContainerManager = Some (Ret (Ended w4))"
    by (simp add: run_node_def)
  have "debug_images NewDebugContainerManager = {#}" by (simp add: debug_images_def NewDebugContainerManager_def)
  with envoy_lives_as_long_as_the_run [OF dbc.closing_manager_axioms [of example_env2] _ host(3) any fq envoy _ s, unfolded none] fresh example_inv s
  show ?thesis by simp
qed

end
