(* ===== verification/Central_Node.thy ===== *)
theory Central_Node
  imports Orchestrator_App
begin

text \<open>
  The goroutines of the orchestrator on the central node, interleaved: the main loop of \<^verbatim>\<open>Run\<close> in \<^verbatim>\<open>cmd/carisma-orchestrator/app/app.go\<close>, the goroutine that keeps the actual states,
  the watcher of the desired states and the periodic report. The first two call \<^verbatim>\<open>Recv\<close> on the same stream, which gRPC does not
  promise to work from two goroutines at once: what each call returns, a message or an error, is therefore left open and is part of the
  event. What is sent is what was handed to \<^verbatim>\<open>Send\<close>. Main loop and watcher work on the same container manager without a lock. A round is therefore cut into its calls: every call of the manager and every
  announcement is a step of its own.
\<close>

section \<open>A round, call by call\<close>

datatype round =
    Begin DeploymentConfig
  | Removing "Image list" "Image list"
  | Retrying Image "Image list" "Image list"
  | ReportGone string int32 "Image list" "Image list"
  | Installing "Image list"
  | ReportNew string int32 "Image list"
  | is_Done: Done (round_err: "go_error option")

fun round_step :: "reference_parser \<Rightarrow> 'w orchestrator \<Rightarrow> round \<Rightarrow> 'w \<Rightarrow> (round \<times> 'w) outcome" where
  "round_step parse o' (Begin dplmCfg) w =
     (case dplmCfg (NodeHostname (cfg o')) of
        None \<Rightarrow> Ret (Done None, w)
      | Some node \<Rightarrow>
          (case Containers (cntMgr o') w of
             Panic \<Rightarrow> Panic
           | Ret (Inl err, w) \<Rightarrow> Ret (Done (Some err), w)
           | Ret (Inr currContainers, w) \<Rightarrow>
               (let currDeploymentConfig = ExtractImageList (keep_loop currContainers 0 0) in
                case qualify_loop parse (DefaultContainerRegistryDomain (cfg o')) (map ParseImageName (image_list node)) of
                  Panic \<Rightarrow> Panic
                | Ret (Inl err) \<Rightarrow> Ret (Done (Some err), w)
                | Ret (Inr newDeploymentConfig) \<Rightarrow>
                    Ret (Removing (diff newDeploymentConfig currDeploymentConfig) (diff currDeploymentConfig newDeploymentConfig), w))))"
| "round_step parse o' (Removing [] new) w = Ret (Installing new, w)"
| "round_step parse o' (Removing (i # is) new) w =
     (if is_envoy i then Ret (Removing is new, w)
      else case RemoveImageAndContainer (cntMgr o') (image_ref i) True w of
             Panic \<Rightarrow> Panic
           | Ret (Inl err, w) \<Rightarrow> Ret (Retrying i is new, w)
           | Ret (Inr (bundleID, servicePort), w) \<Rightarrow> Ret (ReportGone bundleID servicePort is new, w))"
| "round_step parse o' (Retrying i is new) w =
     (case RemoveImageAndContainer (cntMgr o') (image_ref i) False w of
        Panic \<Rightarrow> Panic
      | Ret (_, w) \<Rightarrow> Ret (Removing is new, w))"
| "round_step parse o' (ReportGone bundleID servicePort is new) w = Ret (Removing is new, hUnreg o' bundleID servicePort w)"
| "round_step parse o' (Installing []) w = Ret (Done None, w)"
| "round_step parse o' (Installing (i # is)) w =
     (case PullImageAndCreateContainer (cntMgr o') (image_ref i) [] Map.empty True w of
        Panic \<Rightarrow> Panic
      | Ret (Inl err, w) \<Rightarrow> Ret (Installing is, w)
      | Ret (Inr (bundleID, servicePort), w) \<Rightarrow> Ret (ReportNew bundleID servicePort is, w))"
| "round_step parse o' (ReportNew bundleID servicePort is) w = Ret (Installing is, hReg o' bundleID servicePort w)"
| "round_step parse o' (Done err) w = Ret (Done err, w)"

text \<open>What is left to do: the number of steps is known once the containers have been listed.\<close>

fun phase :: "round \<Rightarrow> nat" where
  "phase (Begin d) = 1"
| "phase r = 0"

fun work :: "round \<Rightarrow> nat" where
  "work (Begin d) = 0"
| "work (Removing is new) = 2 * length is + 2 * length new + 2"
| "work (Retrying i is new) = 2 * length is + 2 * length new + 3"
| "work (ReportGone b p is new) = 2 * length is + 2 * length new + 3"
| "work (Installing new) = 2 * length new + 1"
| "work (ReportNew b p new) = 2 * length new + 2"
| "work (Done err) = 0"

lemma round_step_less:
  "round_step parse o' r w = Ret (r', w') \<Longrightarrow> \<not> is_Done r \<Longrightarrow> phase r' < phase r \<or> phase r' = phase r \<and> work r' < work r"
  by (induction parse o' r w rule: round_step.induct)
    (auto simp: Let_def split: option.splits outcome.splits sum.splits if_splits)

function round_run :: "reference_parser \<Rightarrow> 'w orchestrator \<Rightarrow> round \<Rightarrow> 'w \<Rightarrow> (go_error option \<times> 'w) outcome" where
  "round_run parse o' r w =
     (if is_Done r then Ret (round_err r, w)
      else case round_step parse o' r w of Panic \<Rightarrow> Panic | Ret (r', w') \<Rightarrow> round_run parse o' r' w')"
  by auto
termination
proof (relation "inv_image (less_than <*lex*> less_than) (\<lambda>(parse, o', r, w). (phase r, work r))", goal_cases)
  case (2 parse o' r w x r' w')
  then have "round_step parse o' r w = Ret (r', w')" by simp
  from round_step_less [OF this 2(1)] show ?case by simp
qed auto

declare round_run.simps [simp del]

section \<open>The goroutines\<close>

text \<open>
  The watcher waits for an event, reads the file, or is in its handler with the content it has read; once the handler has returned the content becomes
  the last one read. The goroutine of the actual states waits for a message, waits in \<^verbatim>\<open>Diff\<close> until the watcher takes its event,
  or goes on with the message after that.
\<close>

datatype watch_state = WIdle | WReading | WHandling string "round option"

datatype actual_state = AIdle | ADiff DeploymentConfiguration | ARest DeploymentConfiguration | AEnded

record 'w central =
  nodeApp :: "'w app"
  mainStarted :: bool
  mainLoop :: "round option"
  mainEnded :: bool
  watchLoop :: watch_state
  lastContent :: string
  actualLoop :: actual_state
  unsentReport :: "string option"
  reporting :: bool
  globalActual :: DeploymentConfig
  stateFile :: "go_error + string"
  panicked :: bool

text \<open>
  The process when the watcher and the goroutine of the actual states have been started: it is about to send the event of \<^verbatim>\<open>Diff(false)\<close>, which waits
  until the watcher takes it. Only then the report is started and the main loop entered.
\<close>

definition start_central :: "'w \<Rightarrow> go_error + string \<Rightarrow> 'w central" where
  "start_central w file =
     \<lparr>nodeApp = \<lparr>runtime = w, announced = [], nodeSent = []\<rparr>, mainStarted = False, mainLoop = None, mainEnded = False, watchLoop = WIdle, lastContent = [],
      actualLoop = AIdle, unsentReport = None, reporting = False, globalActual = Map.empty, stateFile = file, panicked = False\<rparr>"

definition cn_start :: "'w central \<Rightarrow> 'w central option" where
  "cn_start s =
     (if \<not> mainStarted s \<and> watchLoop s = WIdle
      then Some (s\<lparr>watchLoop := WReading, mainStarted := True, reporting := True\<rparr>) else None)"

text \<open>One step of a round; a round that is done leaves its goroutine, its error only logged.\<close>

definition advance :: "reference_parser \<Rightarrow> 'w orchestrator \<Rightarrow> round \<Rightarrow> 'w \<Rightarrow> (round option \<times> 'w) outcome" where
  "advance parse o' r w =
     (case round_step parse o' r w of
        Panic \<Rightarrow> Panic
      | Ret (r', w) \<Rightarrow> Ret (if is_Done r' then None else Some r', w))"

text \<open>What \<^verbatim>\<open>Recv\<close> returns to the main loop: it leaves with any error.\<close>

definition cn_main_recv :: "DeploymentConfiguration recv \<Rightarrow> 'w central \<Rightarrow> 'w central option" where
  "cn_main_recv r s =
     (if \<not> mainStarted s \<or> mainEnded s \<or> mainLoop s \<noteq> None then None
      else case r of
             RecvErr err \<Rightarrow> Some (s\<lparr>mainEnded := True\<rparr>)
           | RecvMsg msg \<Rightarrow>
               Some (s\<lparr>mainLoop := (case DeploymentConfigFromJSON (Json msg) of
                   (d, Some err) \<Rightarrow> None
                 | (d, None) \<Rightarrow> Some (Begin (entries_of d)))\<rparr>))"

definition cn_main_step :: "reference_parser \<Rightarrow> 'w app orchestrator \<Rightarrow> 'w central \<Rightarrow> 'w central option" where
  "cn_main_step parse o' s =
     (case mainLoop s of
        None \<Rightarrow> None
      | Some r \<Rightarrow>
          Some (case advance parse o' r (nodeApp s) of
                  Panic \<Rightarrow> s\<lparr>panicked := True\<rparr>
                | Ret (r', a) \<Rightarrow> s\<lparr>mainLoop := r', nodeApp := a\<rparr>))"

text \<open>Whether a message makes the goroutine force a difference of the desired states.\<close>

definition forces :: "(nat \<Rightarrow> DeploymentConfig \<Rightarrow> (string \<times> NodeConfig) list) \<Rightarrow> DeploymentConfiguration \<Rightarrow> DeploymentConfig \<Rightarrow> bool" where
  "forces ord msg ga \<longleftrightarrow>
     StateType msg = STATE_TYPE_ACTUAL \<and>
     (case DeploymentConfigFromJSON (Json msg) of
        (d, None) \<Rightarrow> 0 < snd (receive_config (ord 0 (entries_of d)) ga)
      | (d, Some err) \<Rightarrow> False)"

text \<open>
  A failed \<^verbatim>\<open>os.WriteFile\<close> may have truncated the file or written a part: \<open>left\<close> is what reading the file gives after a write that failed,
  \<open>None\<close> for one that succeeds.
\<close>

definition take_note :: "(nat \<Rightarrow> DeploymentConfig \<Rightarrow> (string \<times> NodeConfig) list) \<Rightarrow> (go_error + string) option \<Rightarrow> DeploymentConfiguration \<Rightarrow>
    'w central \<Rightarrow> 'w central" where
  "take_note ord left msg s =
     (case actual_recv ord (stateFile s) msg (globalActual s) of
        Panic \<Rightarrow> s\<lparr>panicked := True\<rparr>
      | Ret (ga, diffs, j) \<Rightarrow>
          s\<lparr>globalActual := ga, actualLoop := AIdle,
            stateFile := (case j of Some j \<Rightarrow> written_file left j | None \<Rightarrow> stateFile s)\<rparr>)"

text \<open>What \<^verbatim>\<open>Recv\<close> returns to the goroutine of the actual states: it ends with any error.\<close>

definition cn_actual_recv :: "(nat \<Rightarrow> DeploymentConfig \<Rightarrow> (string \<times> NodeConfig) list) \<Rightarrow> (go_error + string) option \<Rightarrow>
    DeploymentConfiguration recv \<Rightarrow> 'w central \<Rightarrow> 'w central option" where
  "cn_actual_recv ord left r s =
     (if actualLoop s \<noteq> AIdle then None
      else case r of
             RecvErr err \<Rightarrow> Some (s\<lparr>actualLoop := AEnded\<rparr>)
           | RecvMsg msg \<Rightarrow>
               Some (if forces ord msg (globalActual s) then s\<lparr>lastContent := [], actualLoop := ADiff msg\<rparr>
                     else take_note ord left msg s))"

text \<open>The watcher takes an event, from the file system or from the goroutine that waits in \<^verbatim>\<open>Diff\<close>.\<close>

definition cn_event :: "'w central \<Rightarrow> 'w central option" where
  "cn_event s = (if watchLoop s = WIdle then Some (s\<lparr>watchLoop := WReading\<rparr>) else None)"

definition cn_diff :: "'w central \<Rightarrow> 'w central option" where
  "cn_diff s =
     (case actualLoop s of
        ADiff msg \<Rightarrow> if watchLoop s = WIdle then Some (s\<lparr>watchLoop := WReading, actualLoop := ARest msg\<rparr>) else None
      | _ \<Rightarrow> None)"

definition cn_actual_rest :: "(nat \<Rightarrow> DeploymentConfig \<Rightarrow> (string \<times> NodeConfig) list) \<Rightarrow> (go_error + string) option \<Rightarrow> 'w central \<Rightarrow> 'w central option" where
  "cn_actual_rest ord left s =
     (case actualLoop s of ARest msg \<Rightarrow> Some (take_note ord left msg s) | _ \<Rightarrow> None)"

text \<open>The handler with the content before and the one read, up to its round.\<close>

definition cn_read :: "go_error + string \<Rightarrow> 'w central \<Rightarrow> 'w central option" where
  "cn_read readFile s =
     (if watchLoop s \<noteq> WReading then None
      else case readFile of
             Inl err \<Rightarrow> Some (s\<lparr>watchLoop := WIdle\<rparr>)
           | Inr b \<Rightarrow>
               Some (if lastContent s = b then s\<lparr>watchLoop := WHandling b None\<rparr>
                     else case DeploymentConfigFromJSON b of
                            (d, Some err) \<Rightarrow> s\<lparr>watchLoop := WHandling b None\<rparr>
                          | (d, None) \<Rightarrow>
                              s\<lparr>nodeApp := send_config STATE_TYPE_DESIRED b (nodeApp s), watchLoop := WHandling b (Some (Begin (entries_of d)))\<rparr>))"

definition cn_watch_step :: "reference_parser \<Rightarrow> 'w app orchestrator \<Rightarrow> 'w central \<Rightarrow> 'w central option" where
  "cn_watch_step parse o' s =
     (case watchLoop s of
        WHandling b (Some r) \<Rightarrow>
          Some (case advance parse o' r (nodeApp s) of
                  Panic \<Rightarrow> s\<lparr>panicked := True\<rparr>
                | Ret (r', a) \<Rightarrow> s\<lparr>watchLoop := WHandling b r', nodeApp := a\<rparr>)
      | WHandling b None \<Rightarrow> Some (s\<lparr>lastContent := b, watchLoop := WIdle\<rparr>)
      | _ \<Rightarrow> None)"

text \<open>The report: the containers are listed at a tick, and the text is sent afterwards.\<close>

definition cn_tick :: "Config \<Rightarrow> 'w Manager \<Rightarrow> 'w central \<Rightarrow> 'w central option" where
  "cn_tick c m s =
     (if \<not> reporting s \<or> unsentReport s \<noteq> None then None
      else Some (case Containers (app_Manager m) (nodeApp s) of
                   Panic \<Rightarrow> s\<lparr>panicked := True\<rparr>
                 | Ret (Inl err, a) \<Rightarrow> s\<lparr>nodeApp := a, reporting := False\<rparr>
                 | Ret (Inr cs, a) \<Rightarrow>
                     s\<lparr>nodeApp := a, unsentReport := (case DeploymentConfig_JSON (Some (report c cs)) of Inl err \<Rightarrow> None | Inr j \<Rightarrow> Some j)\<rparr>))"

definition cn_report :: "'w central \<Rightarrow> 'w central option" where
  "cn_report s =
     (case unsentReport s of
        None \<Rightarrow> None
      | Some j \<Rightarrow> Some (s\<lparr>nodeApp := send_config STATE_TYPE_ACTUAL j (nodeApp s), unsentReport := None\<rparr>))"

text \<open>Others may change the file of actual states.\<close>

datatype central_event =
    CnStart
  | CnMainRecv "DeploymentConfiguration recv"
  | CnMainStep
  | CnActualRecv "DeploymentConfiguration recv"
  | CnEvent
  | CnDiff
  | CnActualRest
  | CnRead "go_error + string"
  | CnWatchStep
  | CnTick
  | CnReport
  | CnFile "go_error + string"

inductive cn_step :: "reference_parser \<Rightarrow> Config \<Rightarrow> 'w Manager \<Rightarrow> 'w central \<Rightarrow> central_event \<Rightarrow> 'w central \<Rightarrow> bool"
  for parse c m where
  start: "\<not> panicked s \<Longrightarrow> cn_start s = Some t \<Longrightarrow> cn_step parse c m s CnStart t"
| main_recv: "\<not> panicked s \<Longrightarrow> cn_main_recv r s = Some t \<Longrightarrow> cn_step parse c m s (CnMainRecv r) t"
| main_step: "\<not> panicked s \<Longrightarrow> cn_main_step parse (app_orchestrator c m) s = Some t \<Longrightarrow> cn_step parse c m s CnMainStep t"
| actual: "\<not> panicked s \<Longrightarrow> ord_ok ord \<Longrightarrow> cn_actual_recv ord left r s = Some t \<Longrightarrow> cn_step parse c m s (CnActualRecv r) t"
| fs_event: "\<not> panicked s \<Longrightarrow> cn_event s = Some t \<Longrightarrow> cn_step parse c m s CnEvent t"
| diff_event: "\<not> panicked s \<Longrightarrow> cn_diff s = Some t \<Longrightarrow> cn_step parse c m s CnDiff t"
| actual_rest: "\<not> panicked s \<Longrightarrow> ord_ok ord \<Longrightarrow> cn_actual_rest ord left s = Some t \<Longrightarrow> cn_step parse c m s CnActualRest t"
| read_file: "\<not> panicked s \<Longrightarrow> cn_read readFile s = Some t \<Longrightarrow> cn_step parse c m s (CnRead readFile) t"
| watch_step: "\<not> panicked s \<Longrightarrow> cn_watch_step parse (app_orchestrator c m) s = Some t \<Longrightarrow> cn_step parse c m s CnWatchStep t"
| tick: "\<not> panicked s \<Longrightarrow> cn_tick c m s = Some t \<Longrightarrow> cn_step parse c m s CnTick t"
| send_report: "\<not> panicked s \<Longrightarrow> cn_report s = Some t \<Longrightarrow> cn_step parse c m s CnReport t"
| file_change: "\<not> panicked s \<Longrightarrow> cn_step parse c m s (CnFile f) (s\<lparr>stateFile := f\<rparr>)"

text \<open>An executor: the loops over maps see the entries in the order \<open>ord\<close>, and files can be written.\<close>

definition cn_exec :: "reference_parser \<Rightarrow> Config \<Rightarrow> 'w Manager \<Rightarrow> (nat \<Rightarrow> DeploymentConfig \<Rightarrow> (string \<times> NodeConfig) list) \<Rightarrow>
    'w central \<Rightarrow> central_event \<Rightarrow> 'w central option" where
  "cn_exec parse c m ord s e =
     (if panicked s then None
      else case e of
        CnStart \<Rightarrow> cn_start s
      | CnMainRecv r \<Rightarrow> cn_main_recv r s
      | CnMainStep \<Rightarrow> cn_main_step parse (app_orchestrator c m) s
      | CnActualRecv r \<Rightarrow> cn_actual_recv ord None r s
      | CnEvent \<Rightarrow> cn_event s
      | CnDiff \<Rightarrow> cn_diff s
      | CnActualRest \<Rightarrow> cn_actual_rest ord None s
      | CnRead f \<Rightarrow> cn_read f s
      | CnWatchStep \<Rightarrow> cn_watch_step parse (app_orchestrator c m) s
      | CnTick \<Rightarrow> cn_tick c m s
      | CnReport \<Rightarrow> cn_report s
      | CnFile f \<Rightarrow> Some (s\<lparr>stateFile := f\<rparr>))"

section \<open>Rules\<close>

lemma round_run_Done [simp]: "round_run parse o' (Done err) w = Ret (err, w)"
  by (subst round_run.simps) simp

lemma round_run_step: "\<not> is_Done r \<Longrightarrow> round_run parse o' r w =
    (case round_step parse o' r w of Panic \<Rightarrow> Panic | Ret (r', w') \<Rightarrow> round_run parse o' r' w')"
  by (subst round_run.simps) simp

lemma round_run_Installing:
  "round_run parse o' (Installing is) w = (case install_loop o' is w of Panic \<Rightarrow> Panic | Ret w \<Rightarrow> Ret (None, w))"
  by (induction "is" arbitrary: w) (auto simp: round_run_step split: outcome.splits sum.splits)

lemma round_run_Removing:
  "round_run parse o' (Removing is new) w =
     (case remove_loop o' is w of
        Panic \<Rightarrow> Panic
      | Ret w \<Rightarrow> (case install_loop o' new w of Panic \<Rightarrow> Panic | Ret w \<Rightarrow> Ret (None, w)))"
  by (induction "is" arbitrary: w) (auto simp: round_run_step round_run_Installing split: outcome.splits sum.splits)

subsection \<open>Messages\<close>

fun actual_taken :: "central_event list \<Rightarrow> DeploymentConfiguration list" where
  "actual_taken [] = []"
| "actual_taken (CnActualRecv (RecvMsg m) # es) = m # actual_taken es"
| "actual_taken (e # es) = actual_taken es"

lemma actual_taken_append [simp]: "actual_taken (xs @ ys) = actual_taken xs @ actual_taken ys"
  by (induction xs rule: actual_taken.induct) auto

text \<open>The actual states after a message.\<close>

definition noted :: "DeploymentConfiguration \<Rightarrow> DeploymentConfig \<Rightarrow> DeploymentConfig" where
  "noted msg ga =
     (case DeploymentConfigFromJSON (Json msg) of
        (d, None) \<Rightarrow> if StateType msg = STATE_TYPE_ACTUAL then take_over (entries_of d) ga else ga
      | (d, Some err) \<Rightarrow> ga)"

lemma actual_recv_noted:
  assumes "ord_ok ord" and "actual_recv ord f msg ga = Ret (ga', diffs, text')"
  shows "ga' = noted msg ga"
proof (cases "StateType msg = STATE_TYPE_ACTUAL \<and> snd (DeploymentConfigFromJSON (Json msg)) = None")
  case True
  then obtain d where d: "DeploymentConfigFromJSON (Json msg) = (d, None)" by (metis prod.collapse)
  have "finite (dom (entries_of d))" using entries_of_utf8 [OF d] by (simp add: config_utf8_def)
  then have "range_of (ord 0 (entries_of d)) (entries_of d)" using assms(1) by (simp add: ord_ok_def)
  from receive_config_states [OF this] obtain k where "receive_config (ord 0 (entries_of d)) ga = (take_over (entries_of d) ga, k)"
    by (metis prod.collapse)
  with assms(2) True d show ?thesis by (auto simp: actual_recv_def noted_def Let_def split: outcome.splits sum.splits)
qed (use assms(2) in \<open>auto simp: actual_recv_def noted_def split: prod.splits option.splits if_splits\<close>)

lemma forces_iff:
  assumes "ord_ok ord"
  shows "forces ord msg ga \<longleftrightarrow> StateType msg = STATE_TYPE_ACTUAL \<and>
    (\<exists>d h n. DeploymentConfigFromJSON (Json msg) = (d, None) \<and> entries_of d = [h \<mapsto> n] \<and> State n = NodeStateStarting)"
proof -
  have r: "range_of (ord 0 (entries_of d)) (entries_of d)" if "DeploymentConfigFromJSON (Json msg) = (d, e)" for d e
    using entries_of_utf8 [OF that] assms by (simp add: config_utf8_def ord_ok_def)
  have "(\<exists>h n. ord 0 (entries_of d) = [(h, n)] \<and> State n = NodeStateStarting) \<longleftrightarrow> (\<exists>h n. entries_of d = [h \<mapsto> n] \<and> State n = NodeStateStarting)"
    if "DeploymentConfigFromJSON (Json msg) = (d, e)" for d e
    using range_of_single [OF r [OF that]] by simp
  then show ?thesis
    by (auto simp: forces_def receive_config_diffs split: prod.splits option.splits)
qed

lemma noted_starting:
  "DeploymentConfigFromJSON (Json msg) = (d, None) \<Longrightarrow> entries_of d = [h \<mapsto> n] \<Longrightarrow> State n = NodeStateStarting \<Longrightarrow> noted msg ga = ga"
  by (simp add: noted_def take_over_def fun_eq_iff go_data)

lemma noted_forces: "ord_ok ord \<Longrightarrow> forces ord msg ga \<Longrightarrow> noted msg ga' = ga'"
  by (auto simp: forces_iff dest: noted_starting)

lemma take_note_noted:
  assumes "ord_ok ord" and "\<not> panicked (take_note ord left msg s)"
  shows "globalActual (take_note ord left msg s) = noted msg (globalActual s)"
  using assms actual_recv_noted [OF assms(1), of "stateFile s" msg "globalActual s"]
  by (auto simp: take_note_def split: outcome.splits)

lemma take_note_frame [simp]:
  "nodeApp (take_note ord left msg s) = nodeApp s"
  "mainLoop (take_note ord left msg s) = mainLoop s" "watchLoop (take_note ord left msg s) = watchLoop s"
  by (auto simp: take_note_def split: outcome.splits)

text \<open>What the goroutine of the actual states has received is noted; a message it still holds changes nothing of it.\<close>

definition kept_inv :: "central_event list \<Rightarrow> 'w central \<Rightarrow> bool" where
  "kept_inv tr s \<longleftrightarrow>
     (\<forall>msg ga. actualLoop s = ADiff msg \<or> actualLoop s = ARest msg \<longrightarrow> noted msg ga = ga) \<and>
     (\<not> panicked s \<longrightarrow> globalActual s = fold noted (actual_taken tr) Map.empty)"

lemma kept_inv_actual:
  assumes inv: "kept_inv tr s" "\<not> panicked s" and ord: "ord_ok ord" and step: "cn_actual_recv ord left r s = Some t"
  shows "kept_inv (tr @ [CnActualRecv r]) t"
proof (cases r)
  case (RecvMsg msg)
  from step RecvMsg have idle: "actualLoop s = AIdle"
    and t: "t = (if forces ord msg (globalActual s) then s\<lparr>lastContent := [], actualLoop := ADiff msg\<rparr> else take_note ord left msg s)"
    by (auto simp: cn_actual_recv_def split: if_splits)
  have "\<not> panicked t \<Longrightarrow> globalActual t = noted msg (globalActual s)"
    using take_note_noted [OF ord, of left msg s] noted_forces [OF ord] by (auto simp: t)
  moreover have "actualLoop t = ADiff m \<or> actualLoop t = ARest m \<Longrightarrow> noted m ga = ga" for m ga
    using idle noted_forces [OF ord, of msg "globalActual s"] by (auto simp: t take_note_def split: outcome.splits if_splits)
  ultimately show ?thesis using inv RecvMsg unfolding kept_inv_def by auto
qed (use inv step in \<open>auto simp: kept_inv_def cn_actual_recv_def split: if_splits\<close>)

lemmas cn_defs = cn_start_def cn_main_recv_def cn_main_step_def cn_watch_step_def cn_event_def cn_diff_def cn_actual_rest_def cn_read_def
  cn_tick_def cn_report_def

lemma kept_inv_step:
  assumes inv: "kept_inv tr s" and step: "cn_step parse c m s e t"
  shows "kept_inv (tr @ [e]) t"
  using step
proof (cases rule: cn_step.cases)
  case (actual_rest ord left)
  then obtain msg where msg: "actualLoop s = ARest msg" "t = take_note ord left msg s"
    by (auto simp: cn_actual_rest_def split: actual_state.splits)
  have "\<not> panicked t \<Longrightarrow> globalActual t = globalActual s"
    using take_note_noted [OF actual_rest(3), of left msg s] inv msg by (auto simp: kept_inv_def)
  moreover have "actualLoop t = AIdle \<or> actualLoop t = ARest msg" using msg by (auto simp: take_note_def split: outcome.splits)
  ultimately show ?thesis using inv actual_rest msg by (auto simp: kept_inv_def)
qed (use inv in \<open>auto simp: kept_inv_actual\<close>,
  (auto simp: kept_inv_def cn_defs split: option.splits outcome.splits prod.splits sum.splits if_splits watch_state.splits actual_state.splits recv.splits)+)

lemma kept_inv_run: "run (cn_step parse c m) (start_central w file) tr s \<Longrightarrow> kept_inv tr s"
proof (induction rule: run.induct)
  case run_nil
  show ?case by (simp add: kept_inv_def start_central_def)
qed (rule kept_inv_step)

interpretation cnx: step_executor "cn_step parse c m" "cn_exec parse c m by_name" for parse c m
proof
  fix s e t
  assume "cn_exec parse c m by_name s e = Some t"
  then show "cn_step parse c m s e t"
    using by_name_ok by (cases e) (auto simp: cn_exec_def intro: cn_step.intros split: if_splits option.splits prod.splits)
qed

subsection \<open>Announcements\<close>

text \<open>The announcement a round is about to make, and those that the recorded calls call for.\<close>

fun owed :: "round option \<Rightarrow> ServiceAnnouncement list" where
  "owed (Some (ReportGone b p is new)) = [announcement REGISTRATION_STATE_UNREGISTERED (b, p)]"
| "owed (Some (ReportNew b p new)) = [announcement REGISTRATION_STATE_REGISTERED (b, p)]"
| "owed r = []"

fun watch_round :: "watch_state \<Rightarrow> round option" where
  "watch_round (WHandling b r) = r"
| "watch_round ws = None"

definition due :: "orch_event list \<Rightarrow> ServiceAnnouncement multiset" where
  "due tr = mset (map (announcement REGISTRATION_STATE_UNREGISTERED) (removed_bundles tr)) +
     mset (map (announcement REGISTRATION_STATE_REGISTERED) (pulled_bundles tr))"

lemma due_simps [simp]:
  "due [] = {#}" "due (tr @ [EvList r]) = due tr"
  "due (tr @ [EvRemove n v (Inl e)]) = due tr" "due (tr @ [EvRemove n False x]) = due tr"
  "due (tr @ [EvRemove n True (Inr bp)]) = add_mset (announcement REGISTRATION_STATE_UNREGISTERED bp) (due tr)"
  "due (tr @ [EvPull n v (Inl e)]) = due tr"
  "due (tr @ [EvPull n True (Inr bp)]) = add_mset (announcement REGISTRATION_STATE_REGISTERED bp) (due tr)"
  by (cases x; simp add: due_def removed_bundles_def pulled_bundles_def)
    (cases v; simp add: due_def removed_bundles_def pulled_bundles_def)+

lemma Containers_traced:
  "Containers (traced_Manager m) (w, tr) = (case Containers m w of Panic \<Rightarrow> Panic | Ret (r, w) \<Rightarrow> Ret (r, w, tr @ [EvList r]))"
  by (simp add: traced_def recorded_def split: outcome.split)

text \<open>A step of a round keeps the balance of what was announced, is owed and is due.\<close>

lemma round_step_balance:
  assumes "round_step parse (app_orchestrator c (traced_Manager m)) r st = Ret (r', st')"
  shows "mset (announced st') + mset (owed (Some r')) + due (snd (runtime st)) =
    mset (announced st) + mset (owed (Some r)) + due (snd (runtime st'))"
proof -
  obtain w tr a n where st: "st = \<lparr>runtime = (w, tr), announced = a, nodeSent = n\<rparr>" by (cases st) auto
  show ?thesis
    using assms
    by (cases "(parse, app_orchestrator c (traced_Manager m), r, st)" rule: round_step.cases)
      (auto simp: lift_app_def st Containers_traced announce_service_def announcement_def Let_def
        split: option.splits outcome.splits sum.splits if_splits)
qed

lemma advance_balance:
  assumes "advance parse (app_orchestrator c (traced_Manager m)) r st = Ret (r', st')"
  shows "mset (announced st') + mset (owed r') + due (snd (runtime st)) =
    mset (announced st) + mset (owed (Some r)) + due (snd (runtime st'))"
proof -
  from assms obtain r1 where r1: "round_step parse (app_orchestrator c (traced_Manager m)) r st = Ret (r1, st')"
    and r': "r' = (if is_Done r1 then None else Some r1)" by (auto simp: advance_def split: outcome.splits)
  have "owed r' = owed (Some r1)" using r' by (cases r1) auto
  with round_step_balance [OF r1] show ?thesis by simp
qed

definition balanced :: "('w \<times> orch_event list) central \<Rightarrow> bool" where
  "balanced s \<longleftrightarrow>
     mset (announced (nodeApp s)) + mset (owed (mainLoop s)) + mset (owed (watch_round (watchLoop s))) = due (snd (runtime (nodeApp s)))"

lemma balance_cancel:
  fixes A :: "'a multiset"
  assumes "A + o1 + o2 = D" and "A' + o1' + D = A + o1 + D'"
  shows "A' + o1' + o2 = D'"
  using assms by (metis add.assoc add.commute add_right_cancel)

lemma balanced_step:
  assumes inv: "balanced s" and step: "cn_step parse c (traced_Manager m) s e t"
  shows "balanced t"
  using step
proof (cases rule: cn_step.cases)
  case main_step
  then obtain r where r: "mainLoop s = Some r" by (auto simp: cn_main_step_def split: option.splits)
  with main_step inv show ?thesis
    using advance_balance [of parse c m r "nodeApp s"]
    by (auto simp: cn_main_step_def balanced_def split: outcome.splits intro: balance_cancel)
next
  case watch_step
  then obtain b r where w: "watchLoop s = WHandling b r" by (auto simp: cn_watch_step_def split: watch_state.splits)
  show ?thesis
  proof (cases r)
    case (Some r')
    with watch_step inv w show ?thesis
      using advance_balance [of parse c m r' "nodeApp s"]
        balance_cancel [of "mset (announced (nodeApp s))" "mset (owed (Some r'))" "mset (owed (mainLoop s))"]
      by (auto simp: cn_watch_step_def balanced_def ac_simps split: outcome.splits)
  qed (use watch_step inv w in \<open>auto simp: cn_watch_step_def balanced_def\<close>)
next
  case tick
  obtain w tr where "runtime (nodeApp s) = (w, tr)" by fastforce
  with tick inv show ?thesis
    by (auto simp: cn_tick_def balanced_def lift_app_def Containers_traced split: outcome.splits sum.splits if_splits)
qed (use inv in \<open>auto simp: balanced_def cn_start_def cn_main_recv_def cn_actual_recv_def cn_event_def cn_diff_def cn_actual_rest_def cn_read_def
      cn_report_def send_config_def split: option.splits prod.splits sum.splits if_splits recv.splits actual_state.splits\<close>)

interpretation cnb: step_invariant "cn_step parse c (traced_Manager m)" balanced for parse c m
  by unfold_locales (rule balanced_step)

section \<open>Properties\<close>

text \<open>
  Cutting a round into its calls does not change it: carried out on its own, call by call, every round comes to an end and gives
  exactly what \<^verbatim>\<open>process\<close> gives, errors and panics included.
\<close>

lemma round_by_calls_is_process: "round_run parse o' (Begin d) w = process parse o' d w"
  by (simp add: round_run_step process_def round_run_Removing Let_def split: option.split outcome.split sum.split)

text \<open>
  C13. On the central node two goroutines receive from one stream. Whatever \<^verbatim>\<open>Recv\<close> returns to each of them, and however they, the watcher and the report
  interleave, the actual states that are kept are exactly those that the messages returned to the goroutine of the actual states give, applied in the
  order it got them, also while it waits for the watcher; nothing that the main loop got is ever recorded.
\<close>

theorem kept_states_follow_one_receiver:
  assumes "run (cn_step parse c m) (start_central w file) tr s" and "\<not> panicked s"
  shows "globalActual s = fold noted (actual_taken tr) Map.empty"
  using kept_inv_run [OF assms(1)] assms(2) by (simp add: kept_inv_def)

theorem kept_states_follow_one_receiver_witness:
  "\<exists>s. run (cn_step example_parser (Default ''hpc-2'') app_docker) (start_central None (Inl EOF))
       [CnStart, CnMainRecv (RecvMsg \<lparr>Json = report_text, StateType = STATE_TYPE_ACTUAL\<rparr>)] s \<and> globalActual s = Map.empty"
proof -
  let ?m = "\<lparr>Json = report_text, StateType = STATE_TYPE_ACTUAL\<rparr>"
  obtain s where s: "exec_all (cn_exec example_parser (Default ''hpc-2'') app_docker by_name) (start_central None (Inl EOF)) [CnStart, CnMainRecv (RecvMsg ?m)] = Some s"
    and p: "\<not> panicked s"
    by (simp add: cn_exec_def start_central_def cn_start_def cn_main_recv_def report_text_read)
  from kept_states_follow_one_receiver [OF cnx.exec_all_run [OF s] p] cnx.exec_all_run [OF s] show ?thesis by auto
qed

text \<open>
  C17. Overlapping rounds announce what they do: although main loop and watcher work on the containers without a lock, in every state the announcements sent, with the at
  most one that each of the two is about to send, are exactly those for the bundles that removals and pulls have returned, each as often as it was
  returned.
\<close>

theorem overlapping_rounds_announce_every_change:
  assumes "run (cn_step parse c (traced_Manager m)) (start_central (w, []) file) tr s"
  shows "mset (announced (nodeApp s)) + mset (owed (mainLoop s)) + mset (owed (watch_round (watchLoop s))) =
    mset (map (announcement REGISTRATION_STATE_UNREGISTERED) (removed_bundles (snd (runtime (nodeApp s))))) +
    mset (map (announcement REGISTRATION_STATE_REGISTERED) (pulled_bundles (snd (runtime (nodeApp s)))))"
proof -
  have "balanced (start_central (w, []) file :: ('a \<times> orch_event list) central)" by (simp add: balanced_def start_central_def)
  with cnb.run_inv [OF assms] show ?thesis by (simp add: balanced_def due_def)
qed

definition app_node :: NodeConfig where
  "app_node = \<lparr>State = NodeStateRunning, Images = Some [''gcr.io/app:1'']\<rparr>"

definition example_desired :: DeploymentConfiguration where
  "example_desired = \<lparr>Json = json_indent 0 (JObj [(''hpc-1'', json_of_NodeConfig app_node)]), StateType = STATE_TYPE_DESIRED\<rparr>"

lemma example_desired_read: "DeploymentConfigFromJSON (Json example_desired) = (Some (example_deployment ''gcr.io/app:1''), None)"
  using single_config_read [of "''hpc-1''" app_node]
  by (simp add: example_desired_def app_node_def example_deployment_def utf8_entries_def image_list_def go_data utf8_len_def byte_in_def del: json_indent.simps)

lemma example_round_step:
  "round_step example_parser (app_orchestrator (Default ''hpc-1'') (traced_Manager app_docker)) (Begin (example_deployment ''gcr.io/app:1''))
     \<lparr>runtime = (None, []), announced = [], nodeSent = []\<rparr> =
   Ret (Removing [] [\<lparr>Name = ''gcr.io/app'', Version = ''1''\<rparr>], \<lparr>runtime = (None, [EvList (Inr [])]), announced = [], nodeSent = []\<rparr>)"
proof -
  have c: "NodeHostname (Default ''hpc-1'') = ''hpc-1''" "DefaultContainerRegistryDomain (Default ''hpc-1'') = ''docker.io''" by (simp_all add: Default_def)
  show ?thesis
    using example_qualify
    by (simp add: example_deployment_def c lift_app_def Containers_traced app_list image_list_def keep_loop_eq ExtractImageList_def
        diff_filter version_in_def del: qualify_loop.simps)
qed

definition example_install :: "central_event list" where
  "example_install = [CnStart, CnMainRecv (RecvMsg example_desired), CnMainStep, CnMainStep, CnMainStep]"

theorem overlapping_rounds_announce_every_change_witness:
  "\<exists>s. run (cn_step example_parser (Default ''hpc-1'') (traced_Manager app_docker)) (start_central (None, []) (Inl EOF)) example_install s \<and>
     pulled_bundles (snd (runtime (nodeApp s))) = [(''app'', 8080)] \<and>
     mset (announced (nodeApp s)) + mset (owed (mainLoop s)) = {#announcement REGISTRATION_STATE_REGISTERED (''app'', 8080)#}"
proof -
  obtain s where s: "exec_all (cn_exec example_parser (Default ''hpc-1'') (traced_Manager app_docker) by_name) (start_central (None, []) (Inl EOF)) example_install = Some s"
    and p: "pulled_bundles (snd (runtime (nodeApp s))) = [(''app'', 8080)]" "removed_bundles (snd (runtime (nodeApp s))) = []" "watchLoop s = WReading"
    by (simp add: example_install_def cn_exec_def start_central_def cn_start_def cn_main_recv_def example_desired_read entries_of_def cn_main_step_def advance_def
        example_round_step lift_app_def image_ref_def app_pull removed_bundles_def pulled_bundles_def del: round_step.simps(1))
  from overlapping_rounds_announce_every_change [OF cnx.exec_all_run [OF s]] cnx.exec_all_run [OF s] p show ?thesis by auto
qed

text \<open>
  C30. Whether a node that starts gets its configuration depends on the schedule. Its report, when \<^verbatim>\<open>Recv\<close> returns it to the goroutine of the actual states, makes this goroutine forget the
  content that was read last and send an event to the watcher. From a state in which the watcher waits there is a schedule in which the file is read again and sent. But from a state in which the watcher has carried out the round of its handler for
  the same content and has not yet stored it as the last one read, there is a schedule in which it stores it afterwards, takes the event, reads the same content, and sends nothing.
\<close>

theorem starting_node_can_miss_configuration:
  assumes "\<not> panicked s" and "actualLoop s = AIdle"
    and "StateType msg = STATE_TYPE_ACTUAL" and "DeploymentConfigFromJSON (Json msg) = (Some [h \<mapsto> n], None)" and "State n = NodeStateStarting"
    and "b \<noteq> []" and "DeploymentConfigFromJSON b = (d, None)"
  shows "(watchLoop s = WIdle \<longrightarrow>
      (\<exists>t. run (cn_step parse c m) s [CnActualRecv (RecvMsg msg), CnDiff, CnRead (Inr b)] t \<and>
         nodeSent (nodeApp t) = nodeSent (nodeApp s) @ [\<lparr>Json = b, StateType = STATE_TYPE_DESIRED\<rparr>])) \<and>
    (watchLoop s = WHandling b None \<longrightarrow>
      (\<exists>t. run (cn_step parse c m) s [CnActualRecv (RecvMsg msg), CnWatchStep, CnDiff, CnRead (Inr b), CnWatchStep] t \<and>
         nodeSent (nodeApp t) = nodeSent (nodeApp s) \<and> watchLoop t = WIdle \<and> lastContent t = b))"
proof -
  let ?x = "exec_all (cn_exec parse c m by_name) s"
  have f: "forces by_name msg ga" for ga using assms(3-5) unfolding forces_iff [OF by_name_ok]
    by (intro conjI exI [of _ "Some [h \<mapsto> n]"] exI [of _ h] exI [of _ n]) (simp_all add: entries_of_def)
  have "\<exists>t. ?x [CnActualRecv (RecvMsg msg), CnDiff, CnRead (Inr b)] = Some t \<and>
      nodeSent (nodeApp t) = nodeSent (nodeApp s) @ [\<lparr>Json = b, StateType = STATE_TYPE_DESIRED\<rparr>]" if "watchLoop s = WIdle"
    using assms that f by (simp add: cn_exec_def cn_actual_recv_def cn_diff_def cn_read_def send_config_def)
  moreover have "\<exists>t. ?x [CnActualRecv (RecvMsg msg), CnWatchStep, CnDiff, CnRead (Inr b), CnWatchStep] = Some t \<and>
      nodeSent (nodeApp t) = nodeSent (nodeApp s) \<and> watchLoop t = WIdle \<and> lastContent t = b" if "watchLoop s = WHandling b None"
    using assms that f by (simp add: cn_exec_def cn_actual_recv_def cn_diff_def cn_read_def cn_watch_step_def)
  ultimately show ?thesis using cnx.exec_all_run by blast
qed

definition starting_node :: NodeConfig where
  "starting_node = \<lparr>State = NodeStateStarting, Images = None\<rparr>"

definition starting_report :: DeploymentConfiguration where
  "starting_report = \<lparr>Json = json_indent 0 (JObj [(''hpc-3'', json_of_NodeConfig starting_node)]), StateType = STATE_TYPE_ACTUAL\<rparr>"

lemma starting_report_read: "DeploymentConfigFromJSON (Json starting_report) = (Some [''hpc-3'' \<mapsto> starting_node], None)"
  using single_config_read [of "''hpc-3''" starting_node]
  by (simp add: starting_report_def starting_node_def utf8_entries_def image_list_def go_data utf8_len_def byte_in_def del: json_indent.simps)

text \<open>The watcher has sent the file and its round is over when the report of a starting node arrives.\<close>

definition busy_watcher :: "slot central" where
  "busy_watcher = (start_central None (Inl EOF))\<lparr>mainStarted := True, reporting := True, watchLoop := WHandling report_text None,
     nodeApp := \<lparr>runtime = None, announced = [], nodeSent = [\<lparr>Json = report_text, StateType = STATE_TYPE_DESIRED\<rparr>]\<rparr>\<rparr>"

theorem starting_node_can_miss_configuration_witness:
  "\<exists>tr t. run (cn_step example_parser (Default ''hpc-2'') app_docker) (start_central None (Inl EOF))
       ([CnStart, CnRead (Inr report_text), CnWatchStep] @ CnActualRecv (RecvMsg starting_report) # tr) t \<and> CnDiff \<in> set tr \<and> CnRead (Inr report_text) \<in> set tr \<and>
     nodeSent (nodeApp t) = [\<lparr>Json = report_text, StateType = STATE_TYPE_DESIRED\<rparr>] \<and> watchLoop t = WIdle"
proof -
  let ?step = "cn_step example_parser (Default ''hpc-2'') app_docker"
  have "NodeHostname (Default ''hpc-2'') \<noteq> ''hpc-1''" "report_text \<noteq> []" by (simp_all add: Default_def report_text_def)
  then have "exec_all (cn_exec example_parser (Default ''hpc-2'') app_docker by_name) (start_central None (Inl EOF))
      [CnStart, CnRead (Inr report_text), CnWatchStep] = Some busy_watcher"
    by (simp add: cn_exec_def start_central_def cn_start_def cn_read_def report_text_read entries_of_def cn_watch_step_def advance_def send_config_def busy_watcher_def)
  note start = cnx.exec_all_run [OF this]
  have s: "\<not> panicked busy_watcher" "actualLoop busy_watcher = AIdle"
    "watchLoop busy_watcher = WHandling report_text None" "nodeSent (nodeApp busy_watcher) = [\<lparr>Json = report_text, StateType = STATE_TYPE_DESIRED\<rparr>]"
    by (simp_all add: busy_watcher_def start_central_def)
  have ty: "StateType starting_report = STATE_TYPE_ACTUAL" "State starting_node = NodeStateStarting"
    by (simp_all add: starting_report_def starting_node_def)
  let ?tr = "[CnWatchStep, CnDiff, CnRead (Inr report_text), CnWatchStep]"
  from starting_node_can_miss_configuration [OF s(1,2) ty(1) starting_report_read ty(2) \<open>report_text \<noteq> []\<close> report_text_read] s(3,4)
  obtain t where t: "run ?step busy_watcher (CnActualRecv (RecvMsg starting_report) # ?tr) t" "nodeSent (nodeApp t) = [\<lparr>Json = report_text, StateType = STATE_TYPE_DESIRED\<rparr>]" "watchLoop t = WIdle"
    by fastforce
  from run_trans [OF t(1) start] t(2,3) show ?thesis by (intro exI [of _ ?tr] exI [of _ t]) simp
qed

end
