(* ===== verification/Docker_Round.thy ===== *)
theory Docker_Round
  imports Orchestrator_App "HOL-Library.DAList"
begin

text \<open>
  Rounds of the orchestrator over the Docker manager: \<^verbatim>\<open>process\<close> of \<^verbatim>\<open>cmd/carisma-orchestrator/app/orchestrator.go\<close> together with
  \<^verbatim>\<open>pkg/container/docker_container_manager.go\<close> and the handlers of \<^verbatim>\<open>app.go\<close>. A round whose calls succeed makes the engine run what the
  configuration asks for, and a second round has nothing to do. A container that is to be kept is protected from the comparison, but not from a removal.
\<close>

section \<open>Containers as the orchestrator sees them\<close>

definition kept_name :: "string list \<Rightarrow> bool" where
  "kept_name names \<longleftrightarrow> (case names of [] \<Rightarrow> False | n # _ \<Rightarrow> strings_HasPrefix n unmanagedContainerNamePrefix)"

text \<open>The image of every container that runs and is managed, by identifier.\<close>

definition deployed :: "(string \<rightharpoonup> engine_container) \<Rightarrow> (string \<rightharpoonup> Image)" where
  "deployed m cid =
     (case m cid of
        None \<Rightarrow> None
      | Some c \<Rightarrow> if engineRunning c \<and> \<not> kept_name (engineNames c) then Some (ParseImageName (engineImage c)) else None)"

text \<open>What a listing says of a container, and that a container without a given name gets one that is not reserved.\<close>

definition summary_law :: "('w \<Rightarrow> (string \<rightharpoonup> engine_container)) \<Rightarrow> 'w docker_client \<Rightarrow> bool" where
  "summary_law conts cl \<longleftrightarrow>
     (\<forall>opts w ss w'. ContainerList cl opts w = (Inr ss, w') \<longrightarrow>
        (\<forall>s \<in> set ss. \<forall>c. conts w (SummaryID s) = Some c \<longrightarrow>
           SummaryImage s = engineImage c \<and> SummaryNames s = engineNames c \<and> (strings_HasPrefix (SummaryStatus s) ''Up'' \<longleftrightarrow> engineRunning c)))"

abbreviation unreserved_names :: "('w \<Rightarrow> (string \<rightharpoonup> engine_container)) \<Rightarrow> 'w docker_client \<Rightarrow> bool" where
  "unreserved_names \<equiv> name_law (\<lambda>names. \<not> kept_name names)"

text \<open>No two managed containers run the same image, in whatever version.\<close>

definition one_each :: "(string \<rightharpoonup> engine_container) \<Rightarrow> bool" where
  "one_each m \<longleftrightarrow> (\<forall>cid cid' i j. deployed m cid = Some i \<longrightarrow> deployed m cid' = Some j \<longrightarrow> Name i = Name j \<longrightarrow> cid = cid')"

text \<open>Asking the engine for the containers of a deployed image finds the managed containers of this image only.\<close>

definition separate :: "(string \<Rightarrow> engine_container \<Rightarrow> bool) \<Rightarrow> (string \<rightharpoonup> engine_container) \<Rightarrow> bool" where
  "separate anc m \<longleftrightarrow>
     (\<forall>cid c i. m cid = Some c \<longrightarrow> engineRunning c \<longrightarrow> i \<in> ran (deployed m) \<longrightarrow> anc (image_ref i) c \<longrightarrow> deployed m cid = Some i)"

text \<open>A call that did not fail.\<close>

fun call_ok :: "orch_event \<Rightarrow> bool" where
  "call_ok (EvList r) = (\<not> isl r)"
| "call_ok (EvRemove n v r) = (\<not> isl r)"
| "call_ok (EvPull n v r) = (\<not> isl r)"
| "call_ok e = True"

text \<open>The orchestrator of a node over a Docker client whose calls are recorded.\<close>

abbreviation docker_app :: "Config \<Rightarrow> untar \<Rightarrow> 'w docker_client \<Rightarrow> ('w \<times> orch_event list) app orchestrator" where
  "docker_app c untar cl \<equiv> app_orchestrator c (traced_Manager (docker_Manager untar cl))"

abbreviation engine_of :: "('w \<Rightarrow> (string \<rightharpoonup> engine_container)) \<Rightarrow> ('w \<times> orch_event list) app \<Rightarrow> (string \<rightharpoonup> engine_container)" where
  "engine_of conts st \<equiv> conts (fst (runtime st))"

section \<open>Listing\<close>

lemma engine_summary:
  "summary_law conts cl \<Longrightarrow> ContainerList cl opts w = (Inr ss, w') \<Longrightarrow> s \<in> set ss \<Longrightarrow> conts w (SummaryID s) = Some c \<Longrightarrow>
     SummaryImage s = engineImage c \<and> SummaryNames s = engineNames c \<and> (strings_HasPrefix (SummaryStatus s) ''Up'' \<longleftrightarrow> engineRunning c)"
  unfolding summary_law_def by metis

lemma running_images_summaries:
  assumes "containers_loop ss = Ret cs"
    and "\<And>s. s \<in> set ss \<Longrightarrow> \<exists>c. m (SummaryID s) = Some c \<and> SummaryImage s = engineImage c \<and> SummaryNames s = engineNames c \<and>
           (strings_HasPrefix (SummaryStatus s) ''Up'' \<longleftrightarrow> engineRunning c)"
  shows "running_images cs = map (\<lambda>s. the (deployed m (SummaryID s))) (filter (\<lambda>s. SummaryID s \<in> dom (deployed m)) ss)"
  using assms
proof (induction ss arbitrary: cs)
  case (Cons s ss)
  from Cons.prems(1) obtain n ns cs' where n: "SummaryNames s = n # ns" "containers_loop ss = Ret cs'"
    and cs: "cs = \<lparr>ID = SummaryID s, FirstName = n, ImageName = SummaryImage s, Ports = formatPorts (SummaryPorts s), Status = SummaryStatus s\<rparr> # cs'"
    by (auto split: list.splits outcome.splits)
  obtain c where c: "m (SummaryID s) = Some c" "SummaryImage s = engineImage c" "SummaryNames s = engineNames c"
    "strings_HasPrefix (SummaryStatus s) ''Up'' \<longleftrightarrow> engineRunning c" using Cons.prems(2) [of s] by auto
  have "running_images cs' = map (\<lambda>s. the (deployed m (SummaryID s))) (filter (\<lambda>s. SummaryID s \<in> dom (deployed m)) ss)"
    using Cons.IH [OF n(2)] Cons.prems(2) by simp
  with n c cs show ?case
    by (auto simp: running_images_def managed_and_up_def deployed_def dom_def kept_name_def split: list.splits)
qed (simp add: running_images_def)

lemma the_image_dom: "(\<lambda>x. the (m x)) ` dom m = ran m"
  by (auto simp: ran_def image_iff) (metis domI option.sel)

lemma docker_running:
  assumes "engine_laws anc conts cl" and "summary_law conts cl" and "docker_Containers cl w = Ret (Inr cs, w')"
  shows "conts w' = conts w \<and> set (running_images cs) = ran (deployed (conts w)) \<and>
    (one_each (conts w) \<longrightarrow> distinct (map Name (running_images cs)))"
proof -
  obtain ss where l: "ContainerList cl \<lparr>All = True, Ancestor = None\<rparr> w = (Inr ss, w')" and cs: "containers_loop ss = Ret cs"
    using assms(3) by (auto simp: docker_Containers_def split: prod.splits sum.splits outcome.splits)
  have e: "conts w' = conts w" "distinct (map SummaryID ss)" "\<And>cid. cid \<in> SummaryID ` set ss \<longleftrightarrow> cid \<in> dom (conts w)"
    using engine_list [OF assms(1) l] by (auto simp: listed_def dom_def)
  have s: "\<exists>c. conts w (SummaryID s) = Some c \<and> SummaryImage s = engineImage c \<and> SummaryNames s = engineNames c \<and>
           (strings_HasPrefix (SummaryStatus s) ''Up'' \<longleftrightarrow> engineRunning c)" if mem: "s \<in> set ss" for s
  proof -
    obtain c where "conts w (SummaryID s) = Some c" using e(3) [of "SummaryID s"] mem by auto
    with engine_summary [OF assms(2) l mem] show ?thesis by auto
  qed
  let ?D = "deployed (conts w)" and ?ss = "filter (\<lambda>s. SummaryID s \<in> dom (deployed (conts w))) ss"
  have r: "running_images cs = map (\<lambda>s. the (?D (SummaryID s))) ?ss" using running_images_summaries [OF cs s] .
  have "dom ?D \<subseteq> dom (conts w)" by (auto simp: deployed_def split: option.splits)
  moreover have "SummaryID ` set ss = dom (conts w)" using e(3) by blast
  moreover have "SummaryID ` set ?ss = SummaryID ` set ss \<inter> dom ?D" unfolding set_filter by blast
  ultimately have "SummaryID ` set ?ss = dom ?D" by auto
  moreover have "set (running_images cs) = (\<lambda>cid. the (?D cid)) ` SummaryID ` set ?ss" by (simp only: r set_map image_image)
  ultimately have set: "set (running_images cs) = ran ?D" by (simp only: the_image_dom)
  have "distinct (map Name (running_images cs))" if "one_each (conts w)"
  proof -
    have "inj_on (\<lambda>cid. Name (the (?D cid))) (dom ?D)" using that by (auto simp: inj_on_def one_each_def)
    then have "distinct (map (\<lambda>cid. Name (the (?D cid))) (map SummaryID ?ss))"
      using e(2) \<open>SummaryID ` set ?ss = dom ?D\<close> by (subst distinct_map) (auto simp: distinct_map_filter)
    then show ?thesis by (simp add: r comp_def)
  qed
  with e(1) set show ?thesis by blast
qed

section \<open>Removing and installing\<close>

lemma docker_app_calls:
  "RemoveImageAndContainer (cntMgr (docker_app c untar cl)) n v st =
     (case docker_Remove untar cl n v (fst (runtime st)) of Panic \<Rightarrow> Panic | Ret (r, w) \<Rightarrow> Ret (r, st\<lparr>runtime := (w, snd (runtime st) @ [EvRemove n v r])\<rparr>))"
  "PullImageAndCreateContainer (cntMgr (docker_app c untar cl)) n args pb v st =
     (case docker_Pull untar cl n args pb v (fst (runtime st)) of Panic \<Rightarrow> Panic | Ret (r, w) \<Rightarrow> Ret (r, st\<lparr>runtime := (w, snd (runtime st) @ [EvPull n v r])\<rparr>))"
  "Containers (cntMgr (docker_app c untar cl)) st =
     (case docker_Containers cl (fst (runtime st)) of Panic \<Rightarrow> Panic | Ret (r, w) \<Rightarrow> Ret (r, st\<lparr>runtime := (w, snd (runtime st) @ [EvList r])\<rparr>))"
  by (cases "runtime st"; simp add: lift_app_def traced_def recorded_def docker_Manager_def split: outcome.split)+

lemma announce_runtime [simp]: "runtime (announce_service s b p st) = runtime st"
  by (simp add: announce_service_def)

lemma remove_loop_grows: "remove_loop (docker_app c untar cl) is st = Ret st' \<Longrightarrow> set (snd (runtime st)) \<subseteq> set (snd (runtime st'))"
proof (induction "is" arbitrary: st)
  case (Cons i "is")
  then show ?case
    by (fastforce simp del: app_orchestrator_simps(2) simp: docker_app_calls split: if_splits outcome.splits prod.splits sum.splits)
qed simp

lemma install_loop_grows: "install_loop (docker_app c untar cl) is st = Ret st' \<Longrightarrow> set (snd (runtime st)) \<subseteq> set (snd (runtime st'))"
proof (induction "is" arbitrary: st)
  case (Cons i "is")
  then show ?case
    by (fastforce simp del: app_orchestrator_simps(2) simp: docker_app_calls split: outcome.splits prod.splits sum.splits)
qed simp

lemma deployed_remove: "deployed (m(cid := None)) = (deployed m)(cid := None)"
  by (auto simp: deployed_def fun_eq_iff)

lemma one_each_remove: "one_each m \<Longrightarrow> one_each (m(cid := None))"
  by (simp add: one_each_def deployed_remove)

lemma separate_remove: "separate anc m \<Longrightarrow> separate anc (m(cid := None))"
  by (auto simp: separate_def deployed_remove ran_def)

lemma ran_deployed_remove:
  assumes "one_each m" and "deployed m cid = Some i"
  shows "ran (deployed (m(cid := None))) = ran (deployed m) - {i}"
proof
  show "ran (deployed m) - {i} \<subseteq> ran (deployed (m(cid := None)))"
  proof
    fix j
    assume "j \<in> ran (deployed m) - {i}"
    then obtain x where "deployed m x = Some j" "j \<noteq> i" by (auto simp: ran_def)
    with assms(2) show "j \<in> ran (deployed (m(cid := None)))" by (intro ranI [of _ x]) (auto simp: deployed_remove)
  qed
qed (use assms in \<open>auto simp: deployed_remove ran_def one_each_def split: if_splits\<close>)

lemma deployed_image: "deployed m cid = Some i \<Longrightarrow> one_each m \<Longrightarrow> deployed m cid' = Some i \<longleftrightarrow> cid' = cid"
  by (auto simp: one_each_def)

text \<open>A removal that succeeds takes away the container of the image and no other.\<close>

lemma docker_remove_deployed:
  assumes "engine_laws anc conts cl" and "docker_Remove untar cl (image_ref i) v w = Ret (Inr r, w')"
    and "one_each (conts w)" and "separate anc (conts w)" and "i \<in> ran (deployed (conts w))"
  shows "\<exists>cid. deployed (conts w) cid = Some i \<and> conts w' = (conts w)(cid := None)"
  using docker_remove_ok [OF assms(1), of untar "image_ref i" v w "fst r" "snd r" w'] assms(2,4,5)
  by (fastforce simp: separate_def)

definition without :: "Image set \<Rightarrow> (string \<rightharpoonup> engine_container) \<Rightarrow> (string \<rightharpoonup> engine_container)" where
  "without X m cid = (case deployed m cid of None \<Rightarrow> m cid | Some i \<Rightarrow> if i \<in> X then None else m cid)"

lemma without_insert:
  assumes "one_each m" and "deployed m cid = Some i"
  shows "without X (m(cid := None)) = without (insert i X) m"
proof
  fix x
  show "without X (m(cid := None)) x = without (insert i X) m x"
  proof (cases "x = cid")
    case False
    then have "deployed m x \<noteq> Some i" using deployed_image [OF assms(2,1)] by simp
    with False show ?thesis by (auto simp: without_def deployed_remove split: option.split)
  qed (use assms(2) in \<open>simp add: without_def deployed_remove\<close>)
qed

lemma remove_loop_docker:
  assumes "engine_laws anc conts cl"
  shows "remove_loop (docker_app c untar cl) is st = Ret st' \<Longrightarrow> \<forall>e \<in> set (snd (runtime st')). call_ok e \<Longrightarrow>
    one_each (engine_of conts st) \<Longrightarrow> separate anc (engine_of conts st) \<Longrightarrow> set is \<subseteq> ran (deployed (engine_of conts st)) \<Longrightarrow> distinct is \<Longrightarrow>
    engine_of conts st' = without {i \<in> set is. \<not> is_envoy i} (engine_of conts st)"
proof (induction "is" arbitrary: st)
  case Nil
  then show ?case by (simp add: without_def fun_eq_iff split: option.splits)
next
  case (Cons i "is")
  let ?m = "engine_of conts st"
  show ?case
  proof (cases "is_envoy i")
    case True
    then have "{j \<in> set (i # is). \<not> is_envoy j} = {j \<in> set is. \<not> is_envoy j}" by auto
    with True Cons show ?thesis by simp
  next
    case False
    obtain r w where call: "docker_Remove untar cl (image_ref i) True (fst (runtime st)) = Ret (r, w)"
      using Cons.prems(1) False by (auto simp del: app_orchestrator_simps(2) simp: docker_app_calls split: outcome.splits)
    have "\<not> isl r"
      using Cons.prems(1,2) False call remove_loop_grows [of c untar cl "is"]
      by (cases r) (fastforce simp del: app_orchestrator_simps(2) simp: docker_app_calls split: outcome.splits prod.splits)+
    then obtain b p where r: "r = Inr (b, p)" by (cases r) auto
    let ?st = "announce_service REGISTRATION_STATE_UNREGISTERED b p
      (st\<lparr>runtime := (w, snd (runtime st) @ [EvRemove (image_ref i) True r])\<rparr>)"
    have rest: "remove_loop (docker_app c untar cl) is ?st = Ret st'"
      using Cons.prems(1) False call r by (simp del: app_orchestrator_simps(2) add: docker_app_calls)
    obtain cid where cid: "deployed ?m cid = Some i" "conts w = ?m(cid := None)"
      using docker_remove_deployed [OF assms call [unfolded r] Cons.prems(3,4)] Cons.prems(5) by auto
    have eng: "engine_of conts ?st = ?m(cid := None)" using cid(2) by simp
    have "engine_of conts st' = without {i \<in> set is. \<not> is_envoy i} (engine_of conts ?st)"
    proof (rule Cons.IH [OF rest Cons.prems(2)])
      show "one_each (engine_of conts ?st)" unfolding eng by (rule one_each_remove [OF Cons.prems(3)])
      show "separate anc (engine_of conts ?st)" unfolding eng by (rule separate_remove [OF Cons.prems(4)])
      show "set is \<subseteq> ran (deployed (engine_of conts ?st))"
        using Cons.prems(5,6) unfolding eng ran_deployed_remove [OF Cons.prems(3) cid(1)] by auto
    qed (use Cons.prems(6) in simp)
    also have "\<dots> = without {i \<in> set is. \<not> is_envoy i} (?m(cid := None))" by (simp only: eng)
    also have "\<dots> = without (insert i {i \<in> set is. \<not> is_envoy i}) ?m" by (rule without_insert [OF Cons.prems(3) cid(1)])
    also have "insert i {i \<in> set is. \<not> is_envoy i} = {j \<in> set (i # is). \<not> is_envoy j}" using False by auto
    finally show ?thesis .
  qed
qed

text \<open>A pull that succeeds adds a container of the image.\<close>

lemma docker_pull_deployed:
  assumes "engine_laws anc conts cl" and "unreserved_names conts cl"
    and "docker_Pull untar cl (image_ref i) args pb v w = Ret (Inr r, w')" and "CHR '':'' \<notin> set (Version i)"
  shows "\<exists>cid. deployed (conts w) cid = None \<and> conts w \<subseteq>\<^sub>m conts w' \<and> deployed (conts w') = (deployed (conts w))(cid \<mapsto> i)"
proof -
  obtain cid c where c: "conts w cid = None" "engineImage c = image_ref i" "engineRunning c" "conts w' = (conts w)(cid \<mapsto> c)"
    "\<not> kept_name (engineNames c)"
    using docker_pull_ok [OF assms(1), of untar "image_ref i" args pb v w "fst r" "snd r" w'] assms(2,3) by auto
  have "ParseImageName (image_ref i) = i" using ParseImageName_append [OF assms(4)] by (simp add: image_ref_def)
  with c show ?thesis
    by (intro exI [of _ cid]) (auto simp: deployed_def map_le_def fun_eq_iff)
qed

lemma one_each_add:
  assumes "one_each m" and "deployed m' = (deployed m)(cid \<mapsto> i)" and "Name i \<notin> Name ` ran (deployed m)"
  shows "one_each m'"
proof -
  have "Name j \<noteq> Name i" if "deployed m x = Some j" for x j using assms(3) that by (metis imageI ranI)
  then have "Name i \<noteq> Name j" "Name j \<noteq> Name i" if "deployed m x = Some j" for x j using that by metis+
  with assms(1,2) show ?thesis by (auto simp: one_each_def)
qed

lemma install_loop_docker:
  assumes "engine_laws anc conts cl" and "unreserved_names conts cl"
  shows "install_loop (docker_app c untar cl) is st = Ret st' \<Longrightarrow> \<forall>e \<in> set (snd (runtime st')). call_ok e \<Longrightarrow>
    \<forall>i \<in> set is. CHR '':'' \<notin> set (Version i) \<Longrightarrow> one_each (engine_of conts st) \<Longrightarrow> distinct (map Name is) \<Longrightarrow>
    Name ` set is \<inter> Name ` ran (deployed (engine_of conts st)) = {} \<Longrightarrow>
    engine_of conts st \<subseteq>\<^sub>m engine_of conts st' \<and> one_each (engine_of conts st') \<and>
    ran (deployed (engine_of conts st')) = ran (deployed (engine_of conts st)) \<union> set is"
proof (induction "is" arbitrary: st)
  case (Cons i "is")
  let ?m = "engine_of conts st"
  obtain r w where call: "docker_Pull untar cl (image_ref i) [] Map.empty True (fst (runtime st)) = Ret (r, w)"
    using Cons.prems(1) by (auto simp del: app_orchestrator_simps(2) simp: docker_app_calls split: outcome.splits)
  have "\<not> isl r"
    using Cons.prems(1,2) call install_loop_grows [of c untar cl "is"]
    by (cases r) (fastforce simp del: app_orchestrator_simps(2) simp: docker_app_calls split: outcome.splits prod.splits)+
  then obtain b p where r: "r = Inr (b, p)" by (cases r) auto
  let ?st = "announce_service REGISTRATION_STATE_REGISTERED b p
    (st\<lparr>runtime := (w, snd (runtime st) @ [EvPull (image_ref i) True r])\<rparr>)"
  have rest: "install_loop (docker_app c untar cl) is ?st = Ret st'"
    using Cons.prems(1) call r by (simp del: app_orchestrator_simps(2) add: docker_app_calls)
  obtain cid where cid: "deployed ?m cid = None" "?m \<subseteq>\<^sub>m conts w" "deployed (conts w) = (deployed ?m)(cid \<mapsto> i)"
    using docker_pull_deployed [OF assms call [unfolded r]] Cons.prems(3) by auto
  have eng: "engine_of conts ?st = conts w" by simp
  have ran: "ran (deployed (conts w)) = insert i (ran (deployed ?m))" using cid(1,3) by simp
  have "conts w \<subseteq>\<^sub>m engine_of conts st' \<and> one_each (engine_of conts st') \<and>
      ran (deployed (engine_of conts st')) = ran (deployed (conts w)) \<union> set is"
  proof (rule Cons.IH [OF rest Cons.prems(2), unfolded eng])
    show "one_each (conts w)" using one_each_add [OF Cons.prems(4) cid(3)] Cons.prems(6) by auto
    show "Name ` set is \<inter> Name ` ran (deployed (conts w)) = {}" using Cons.prems(5,6) unfolding ran by auto
  qed (use Cons.prems in simp_all)
  with map_le_trans [OF cid(2)] show ?case unfolding ran by auto
qed simp

lemma qualify_loop_versions:
  "qualify_loop parse domain is = Ret (Inr new) \<Longrightarrow> map Version new = map Version is"
  by (induction "is" arbitrary: new) (auto split: outcome.splits sum.splits)

lemma qualified_version:
  assumes "qualify_loop parse domain (map ParseImageName xs) = Ret (Inr new)" and "i \<in> set new"
  shows "CHR '':'' \<notin> set (Version i)"
proof -
  have "Version i \<in> set (map Version new)" using assms(2) by simp
  then show ?thesis unfolding qualify_loop_versions [OF assms(1)] by (auto simp: ParseImageName_version)
qed

section \<open>A round\<close>

lemma deployed_without:
  "deployed (without X m) cid = (case deployed m cid of None \<Rightarrow> None | Some i \<Rightarrow> if i \<in> X then None else Some i)"
  by (auto simp: deployed_def without_def split: option.splits)

lemma ran_without: "ran (deployed (without X m)) = ran (deployed m) - X"
  by (fastforce simp: ran_def deployed_without split: option.splits if_splits)

lemma one_each_without: "one_each m \<Longrightarrow> one_each (without X m)"
  by (auto simp: one_each_def deployed_without split: option.splits if_splits)

lemma remove_loop_envoys: "\<forall>i \<in> set is. is_envoy i \<Longrightarrow> remove_loop o' is w = Ret w"
  by (induction "is") auto

text \<open>The parts of a round over the Docker manager that ends without an error.\<close>

lemma docker_process_parts:
  assumes "dc (NodeHostname c) = Some node"
    and "qualify_loop parse (DefaultContainerRegistryDomain c) (map ParseImageName (image_list node)) = Ret (Inr new)"
    and "process parse (docker_app c untar cl) dc st = Ret (None, st')"
  obtains cs w st1 where "docker_Containers cl (fst (runtime st)) = Ret (Inr cs, w)"
    "remove_loop (docker_app c untar cl) (diff new (running_images cs)) (st\<lparr>runtime := (w, snd (runtime st) @ [EvList (Inr cs)])\<rparr>) = Ret st1"
    "install_loop (docker_app c untar cl) (diff (running_images cs) new) st1 = Ret st'"
proof -
  have "dc (NodeHostname (cfg (docker_app c untar cl))) = Some node" using assms(1) by simp
  from process_eq [of dc "docker_app c untar cl" node, OF this, of parse st] assms(2,3) show thesis
    by (auto simp del: app_orchestrator_simps(2) simp: docker_app_calls intro: that split: outcome.splits prod.splits sum.splits)
qed

lemma docker_process_ok:
  assumes "dc (NodeHostname c) = Some node"
    and "qualify_loop parse (DefaultContainerRegistryDomain c) (map ParseImageName (image_list node)) = Ret (Inr new)"
    and "process parse (docker_app c untar cl) dc st = Ret (err, st')" and "\<forall>e \<in> set (snd (runtime st')). call_ok e"
  shows "err = None"
proof -
  have "dc (NodeHostname (cfg (docker_app c untar cl))) = Some node" using assms(1) by simp
  from process_eq [of dc "docker_app c untar cl" node, OF this, of parse st] assms(2-4) show ?thesis
    by (auto simp del: app_orchestrator_simps(2) simp: docker_app_calls split: outcome.splits prod.splits sum.splits)
qed

text \<open>A node that runs what it should, possibly with Envoy, has nothing to do.\<close>

lemma docker_round_idle:
  assumes "engine_laws anc conts cl" and "summary_law conts cl"
    and "dc (NodeHostname c) = Some node"
    and "qualify_loop parse (DefaultContainerRegistryDomain c) (map ParseImageName (image_list node)) = Ret (Inr new)"
    and "distinct (map Name new)" and "one_each (engine_of conts st)"
    and "set new \<subseteq> ran (deployed (engine_of conts st))" and "\<forall>i \<in> ran (deployed (engine_of conts st)). i \<in> set new \<or> is_envoy i"
    and "docker_Containers cl (fst (runtime st)) = Ret (Inr cs, w)"
  shows "process parse (docker_app c untar cl) dc st = Ret (None, st\<lparr>runtime := (w, snd (runtime st) @ [EvList (Inr cs)])\<rparr>) \<and>
    conts w = engine_of conts st"
proof -
  have r: "conts w = engine_of conts st" "set (running_images cs) = ran (deployed (engine_of conts st))" "distinct (map Name (running_images cs))"
    using docker_running [OF assms(1,2,9)] assms(6) by auto
  have "diff (running_images cs) new = []" using r(2,3) assms(7) by (auto simp: diff_distinct filter_empty_conv)
  moreover have "\<forall>i \<in> set (diff new (running_images cs)). is_envoy i" using r(2) assms(5,8) by (auto simp: diff_distinct)
  moreover have "dc (NodeHostname (cfg (docker_app c untar cl))) = Some node" using assms(3) by simp
  ultimately show ?thesis
    using assms(4,9) r(1)
    by (simp del: app_orchestrator_simps(2) add: docker_app_calls process_eq [of dc "docker_app c untar cl" node] remove_loop_envoys)
qed

lemma names_disjoint:
  assumes "distinct (map Name new)" and "\<forall>i \<in> R. is_envoy i \<longrightarrow> i \<in> set new \<or> Name i \<notin> Name ` set new"
  shows "Name ` (set new - R) \<inter> Name ` {j \<in> R. j \<in> set new \<or> is_envoy j} = {}"
proof -
  have "Name i \<noteq> Name j" if i: "i \<in> set new" "i \<notin> R" and j: "j \<in> R" "j \<in> set new \<or> is_envoy j" for i j
  proof (cases "j \<in> set new")
    case True
    with assms(1) i j(1) show ?thesis by (auto simp: distinct_map dest: inj_onD)
  next
    case False
    with assms(2) j have "Name j \<notin> Name ` set new" by blast
    with i(1) show ?thesis by (metis imageI)
  qed
  then show ?thesis by auto
qed

lemma docker_round:
  assumes laws: "engine_laws anc conts cl" "summary_law conts cl" "unreserved_names conts cl"
    and node: "dc (NodeHostname c) = Some node"
    and new: "qualify_loop parse (DefaultContainerRegistryDomain c) (map ParseImageName (image_list node)) = Ret (Inr new)" "distinct (map Name new)"
    and st: "one_each (engine_of conts st)" "separate anc (engine_of conts st)"
    and envoy: "\<forall>i \<in> ran (deployed (engine_of conts st)). is_envoy i \<longrightarrow> i \<in> set new \<or> Name i \<notin> Name ` set new"
    and run: "process parse (docker_app c untar cl) dc st = Ret (None, st')" "\<forall>e \<in> set (snd (runtime st')). call_ok e"
  shows "without {i. i \<notin> set new \<and> \<not> is_envoy i} (engine_of conts st) \<subseteq>\<^sub>m engine_of conts st' \<and> one_each (engine_of conts st') \<and>
    ran (deployed (engine_of conts st')) = set new \<union> {i \<in> ran (deployed (engine_of conts st)). is_envoy i}"
proof -
  let ?m = "engine_of conts st" and ?X = "{i. i \<notin> set new \<and> \<not> is_envoy i}"
  obtain cs w st1 where l: "docker_Containers cl (fst (runtime st)) = Ret (Inr cs, w)"
    and rm: "remove_loop (docker_app c untar cl) (diff new (running_images cs)) (st\<lparr>runtime := (w, snd (runtime st) @ [EvList (Inr cs)])\<rparr>) = Ret st1"
    and inst: "install_loop (docker_app c untar cl) (diff (running_images cs) new) st1 = Ret st'"
    by (rule docker_process_parts [where dc = dc, OF node new(1) run(1)])
  have r: "conts w = ?m" "set (running_images cs) = ran (deployed ?m)" "distinct (map Name (running_images cs))"
    using docker_running [OF laws(1,2) l] st(1) by auto
  have gone: "diff new (running_images cs) = filter (\<lambda>i. i \<notin> set new) (running_images cs)"
    and come: "diff (running_images cs) new = filter (\<lambda>i. i \<notin> ran (deployed ?m)) new"
    using new(2) r(2,3) by (simp_all add: diff_distinct)
  have ok1: "\<forall>e \<in> set (snd (runtime st1)). call_ok e" using install_loop_grows [OF inst] run(2) by blast
  have "engine_of conts st1 = without {i \<in> set (diff new (running_images cs)). \<not> is_envoy i} ?m"
    using remove_loop_docker [OF laws(1) rm ok1] st r r(3) [unfolded distinct_map] by (simp add: gone subset_iff)
  also have "\<dots> = without ?X ?m"
    using r(2) by (auto simp: without_def gone fun_eq_iff ranI split: option.splits)
  finally have m1: "engine_of conts st1 = without ?X ?m" .
  have "Name ` set (diff (running_images cs) new) \<inter> Name ` ran (deployed (without ?X ?m)) = {}"
    using names_disjoint [OF new(2) envoy] unfolding come ran_without by auto
  moreover have "\<forall>i \<in> set new. CHR '':'' \<notin> set (Version i)" using qualified_version [OF new(1)] by blast
  moreover have "distinct (map Name (diff (running_images cs) new))" using new(2) by (simp add: come distinct_map_filter)
  ultimately have "without ?X ?m \<subseteq>\<^sub>m engine_of conts st' \<and> one_each (engine_of conts st') \<and>
      ran (deployed (engine_of conts st')) = ran (deployed (without ?X ?m)) \<union> set (diff (running_images cs) new)"
    using install_loop_docker [OF laws(1,3) inst run(2)] one_each_without [OF st(1)] by (simp add: m1 come)
  moreover have "ran (deployed (without ?X ?m)) \<union> set (diff (running_images cs) new) = set new \<union> {i \<in> ran (deployed ?m). is_envoy i}"
    by (auto simp: ran_without come)
  ultimately show ?thesis by simp
qed

section \<open>An engine with many containers\<close>

text \<open>
  An engine that keeps image, state and name of its containers by identifier; all of them have the same files and bindings, and a new
  container gets an identifier that is longer than those there are.
\<close>

type_synonym rack = "(string, string \<times> bool \<times> string) alist"

definition rack_container :: "string \<times> bool \<times> string \<Rightarrow> engine_container" where
  "rack_container e =
     \<lparr>engineImage = fst e, engineRunning = fst (snd e), engineNames = [snd (snd e)], engineFiles = [''info.json'' \<mapsto> app_info],
      engineBindings = map_of app_bindings\<rparr>"

definition rack_conts :: "rack \<Rightarrow> (string \<rightharpoonup> engine_container)" where
  "rack_conts w cid = map_option rack_container (DAList.lookup w cid)"

definition rack_summary :: "string \<times> string \<times> bool \<times> string \<Rightarrow> summary" where
  "rack_summary e =
     (case e of (cid, img, running, name) \<Rightarrow>
        \<lparr>SummaryID = cid, SummaryNames = [name], SummaryImage = img, SummaryImageID = img, SummaryPorts = [],
         SummaryStatus = if running then ''Up'' else ''Exited''\<rparr>)"

definition fresh_cid :: "rack \<Rightarrow> string" where
  "fresh_cid w = concat (map fst (DAList.impl_of w)) @ ''c''"

definition rack_client :: "rack docker_client" where
  "rack_client =
     (let no = ExternalError ''no such container'' in
      \<lparr>Info = \<lambda>w. (None, w),
       ContainerList = \<lambda>opts w. (Inr (map rack_summary (filter (\<lambda>e. listed same_image opts (rack_container (snd e))) (DAList.impl_of w))), w),
       ContainerStart = \<lambda>cid w.
         (case DAList.lookup w cid of None \<Rightarrow> (Some no, w) | Some (img, running, name) \<Rightarrow> (None, DAList.update cid (img, True, name) w)),
       ContainerStop = \<lambda>cid w.
         (case DAList.lookup w cid of None \<Rightarrow> (Some no, w) | Some (img, running, name) \<Rightarrow> (None, DAList.update cid (img, False, name) w)),
       ImagePull = \<lambda>img w. (Inr [id], w),
       ContainerCreate = \<lambda>img args hc w. (Inr (fresh_cid w), DAList.update (fresh_cid w) (img, False, ''/quiet_'' @ fresh_cid w) w),
       CopyFromContainer = \<lambda>cid path w.
         (case DAList.lookup w cid of
            None \<Rightarrow> Inl no
          | Some e \<Rightarrow> (case engineFiles (rack_container e) path of None \<Rightarrow> Inl no | Some r \<Rightarrow> Inr r), w),
       ContainerInspect = \<lambda>cid w. (case DAList.lookup w cid of None \<Rightarrow> Inl no | Some e \<Rightarrow> Inr app_bindings, w),
       ContainerRemove = \<lambda>cid f w. (case DAList.lookup w cid of None \<Rightarrow> (Some no, w) | Some e \<Rightarrow> (None, DAList.delete cid w)),
       ImageRemove = \<lambda>img f w. (None, w),
       ClientClose = \<lambda>w. (None, w)\<rparr>)"

lemma rack_container_simps [simp]:
  "engineImage (rack_container (img, running, name)) = img" "engineRunning (rack_container (img, running, name)) = running"
  "engineNames (rack_container (img, running, name)) = [name]" "engineBindings (rack_container e) = map_of app_bindings"
  "(rack_container (img, running, name))\<lparr>engineRunning := b\<rparr> = rack_container (img, b, name)"
  by (simp_all add: rack_container_def)

lemma rack_conts_update: "rack_conts (DAList.update cid e w) = (rack_conts w)(cid \<mapsto> rack_container e)"
  by (auto simp: rack_conts_def fun_eq_iff lookup_update)

lemma rack_conts_delete: "rack_conts (DAList.delete cid w) = (rack_conts w)(cid := None)"
  by (auto simp: rack_conts_def fun_eq_iff)

lemma rack_lookup: "DAList.lookup w cid = Some e \<longleftrightarrow> (cid, e) \<in> set (DAList.impl_of w)"
  by (simp add: lookup.rep_eq)

lemma fresh_cid_new: "DAList.lookup w (fresh_cid w) = None"
proof -
  have "length cid < length (fresh_cid w)" if "cid \<in> fst ` set (DAList.impl_of w)" for cid
  proof -
    obtain e where "(cid, e) \<in> set (DAList.impl_of w)" using \<open>cid \<in> fst ` set (DAList.impl_of w)\<close> by auto
    from split_list [OF this] show ?thesis by (auto simp: fresh_cid_def)
  qed
  then have "fresh_cid w \<notin> fst ` set (DAList.impl_of w)" by blast
  then show ?thesis by (simp add: lookup.rep_eq map_of_eq_None_iff)
qed

lemma rack_summary_ID [simp]: "SummaryID (rack_summary e) = fst e"
  by (simp add: rack_summary_def split: prod.splits)

lemma rack_engine: "engine_laws same_image rack_conts rack_client"
  unfolding engine_laws_def
proof (intro conjI)
  show "list_law same_image rack_conts rack_client"
    by (auto simp: list_law_def rack_client_def Let_def rack_conts_def rack_lookup comp_def distinct_map_filter image_iff; blast)
  show "create_law rack_conts rack_client"
    by (simp add: create_law_def rack_client_def Let_def rack_conts_update) (auto simp: rack_conts_def fresh_cid_new intro!: exI [of _ "rack_container (_, False, _)"])
  show "start_law rack_conts rack_client"
    by (auto simp: start_law_def rack_client_def Let_def rack_conts_update split: option.splits) (simp add: rack_conts_def)
  show "copy_law rack_conts rack_client"
    by (auto simp: copy_law_def rack_client_def Let_def rack_conts_def split: option.splits)
  show "inspect_law rack_conts rack_client"
    by (auto simp: inspect_law_def rack_client_def Let_def rack_conts_def range_of_def app_bindings_def split: option.splits)
  show "remove_law rack_conts rack_client"
    by (auto simp: remove_law_def rack_client_def Let_def rack_conts_delete split: option.splits)
qed (simp_all add: ancestor_law_def same_image_def pull_law_def rack_client_def Let_def)

lemma rack_summaries: "summary_law rack_conts rack_client"
  by (auto simp: summary_law_def rack_client_def Let_def rack_summary_def rack_conts_def rack_lookup [symmetric] strings_HasPrefix_def split: prod.splits if_splits)

lemma rack_names: "unreserved_names rack_conts rack_client"
  by (auto simp: name_law_def rack_client_def Let_def rack_conts_update kept_name_def strings_HasPrefix_def go_data)

lemma rack_bundle:
  assumes "DAList.lookup w cid = Some e"
  shows "bundle_and_port plain_file rack_client cid w = Ret (Inr (''app'', 8080), w)"
  by (rule read_app_bundle) (use assms in \<open>simp_all add: rack_client_def Let_def rack_container_def\<close>)

lemma rack_pull:
  "docker_Pull plain_file rack_client img args pb True w =
     Ret (Inr (''app'', 8080), DAList.update (fresh_cid w) (img, True, ''/quiet_'' @ fresh_cid w) w)"
proof -
  let ?w = "DAList.update (fresh_cid w) (img, True, ''/quiet_'' @ fresh_cid w) w"
  have "bundle_and_port plain_file rack_client (fresh_cid w) ?w = Ret (Inr (''app'', 8080), ?w)" by (rule rack_bundle) simp
  then show ?thesis by (simp add: docker_Pull_def) (simp add: rack_client_def Let_def)
qed

lemma rack_listed:
  "ContainerList rack_client opts w = (Inr (map rack_summary (filter (\<lambda>e. listed same_image opts (rack_container (snd e))) (DAList.impl_of w))), w)"
  by (simp add: rack_client_def Let_def)

lemma rack_remove:
  assumes "filter (\<lambda>e. listed same_image \<lparr>All = False, Ancestor = Some img\<rparr> (rack_container (snd e))) (DAList.impl_of w) = (cid, e) # rest"
  shows "docker_Remove plain_file rack_client img True w = Ret (Inr (''app'', 8080), DAList.delete cid w)"
proof -
  have "(cid, e) \<in> set (DAList.impl_of w)" using assms by (metis Cons_eq_filterD in_set_conv_decomp)
  then have l: "DAList.lookup w cid = Some e" by (simp add: rack_lookup)
  then have r: "ContainerRemove rack_client cid True w = (None, DAList.delete cid w)" "ImageRemove rack_client i True v = (None, v)" for i v
    by (simp_all add: rack_client_def Let_def)
  show ?thesis
    using r rack_bundle [OF l] by (simp add: docker_Remove_def rack_listed assms)
qed

lemma rack_list:
  "docker_Containers rack_client w =
     Ret (Inr (map (\<lambda>(cid, img, running, name). \<lparr>ID = cid, FirstName = name, ImageName = img, Ports = [], Status = if running then ''Up'' else ''Exited''\<rparr>)
       (DAList.impl_of w)), w)"
proof -
  have "containers_loop (map rack_summary es) =
      Ret (map (\<lambda>(cid, img, running, name). \<lparr>ID = cid, FirstName = name, ImageName = img, Ports = [], Status = if running then ''Up'' else ''Exited''\<rparr>) es)" for es
    by (induction es) (auto simp: rack_summary_def formatPorts_def)
  then show ?thesis by (simp add: docker_Containers_def rack_listed listed_def)
qed

text \<open>A rack with a container to keep and a managed one, of given images, and a round on it that asks for one image.\<close>

definition example_rack :: "string \<Rightarrow> string \<Rightarrow> rack" where
  "example_rack kept managed = DAList.update ''a'' (managed, True, ''/happy_bell'') (DAList.update ''k'' (kept, True, ''/carisma-keep-db'') DAList.empty)"

definition example_app :: "rack \<Rightarrow> (rack \<times> orch_event list) app" where
  "example_app w = \<lparr>runtime = (w, []), announced = [], nodeSent = []\<rparr>"

lemma example_rack_list: "DAList.impl_of (example_rack kept managed) = [(''k'', kept, True, ''/carisma-keep-db''), (''a'', managed, True, ''/happy_bell'')]"
  by (simp add: example_rack_def update.rep_eq empty.rep_eq)

lemma example_rack_conts:
  "rack_conts (example_rack kept managed) =
     [''k'' \<mapsto> rack_container (kept, True, ''/carisma-keep-db''), ''a'' \<mapsto> rack_container (managed, True, ''/happy_bell'')]"
  by (simp add: example_rack_def rack_conts_update rack_conts_def fun_eq_iff)

lemma example_rack_deployed: "deployed (rack_conts (example_rack kept managed)) = [''a'' \<mapsto> ParseImageName managed]"
  by (auto simp: example_rack_conts deployed_def fun_eq_iff kept_name_def strings_HasPrefix_def go_data)

definition app1 :: Image where
  "app1 = \<lparr>Name = ''gcr.io/app'', Version = ''1''\<rparr>"

definition old1 :: Image where
  "old1 = \<lparr>Name = ''gcr.io/old'', Version = ''1''\<rparr>"

lemma example_images: "ParseImageName ''gcr.io/old:1'' = old1" "image_ref old1 = ''gcr.io/old:1''" "image_ref app1 = ''gcr.io/app:1''" "\<not> is_envoy old1"
  by (simp_all add: old1_def app1_def ParseImageName_def image_ref_def is_envoy_def envoyContainerImageName_def strings_HasSuffix_def)

text \<open>The round on such a rack that replaces \<^verbatim>\<open>gcr.io/old:1\<close> by \<^verbatim>\<open>gcr.io/app:1\<close>: which container goes is up to the engine.\<close>

lemma rack_round:
  assumes "filter (\<lambda>e. listed same_image \<lparr>All = False, Ancestor = Some ''gcr.io/old:1''\<rparr> (rack_container (snd e)))
      (DAList.impl_of (example_rack kept ''gcr.io/old:1'')) = (cid, e) # rest"
    and "w = DAList.delete cid (example_rack kept ''gcr.io/old:1'')"
  shows "\<exists>tr an. process example_parser (docker_app (Default ''hpc-1'') plain_file rack_client) (example_deployment ''gcr.io/app:1'')
       (example_app (example_rack kept ''gcr.io/old:1'')) =
     Ret (None, \<lparr>runtime = (DAList.update (fresh_cid w) (''gcr.io/app:1'', True, ''/quiet_'' @ fresh_cid w) w, tr), announced = an, nodeSent = []\<rparr>) \<and>
     (\<forall>e \<in> set tr. call_ok e)"
proof -
  let ?o = "docker_app (Default ''hpc-1'') plain_file rack_client" and ?st = "example_app (example_rack kept ''gcr.io/old:1'')"
  let ?dc = "example_deployment ''gcr.io/app:1''" and ?node = "\<lparr>State = NodeStateRunning, Images = Some [''gcr.io/app:1'']\<rparr>"
  obtain cs where l: "docker_Containers rack_client (example_rack kept ''gcr.io/old:1'') = Ret (Inr cs, example_rack kept ''gcr.io/old:1'')"
    and r: "running_images cs = [old1]"
    by (auto simp: rack_list example_rack_list running_images_def managed_and_up_def strings_HasPrefix_def go_data example_images)
  have d: "diff [app1] [old1] = [old1]" "diff [old1] [app1] = [app1]"
    by (simp_all add: diff_filter version_in_def app1_def old1_def)
  have n: "example_deployment ''gcr.io/app:1'' (NodeHostname (cfg ?o)) = Some ?node" by (simp add: example_deployment_def Default_def)
  have q: "qualify_loop example_parser (DefaultContainerRegistryDomain (cfg ?o)) (map ParseImageName (image_list ?node)) = Ret (Inr [app1])"
    using example_qualify by (simp add: image_list_def Default_def app1_def)
  show ?thesis
    using rack_remove [OF assms(1)] l r d q rack_pull [of "''gcr.io/app:1''" "[]" Map.empty w] assms(2)
    by (simp del: app_orchestrator_simps(2) add: process_eq [of ?dc ?o ?node, OF n] docker_app_calls example_images example_app_def announce_service_def)
qed

text \<open>What the theorems on rounds ask of a rack whose kept container has another image.\<close>

lemma rack_deployed:
  "deployed (engine_of rack_conts (example_app (example_rack ''gcr.io/db:1'' ''gcr.io/old:1''))) = [''a'' \<mapsto> old1]"
  by (simp add: example_app_def example_rack_deployed example_images)

lemma rack_start:
  "one_each (engine_of rack_conts (example_app (example_rack ''gcr.io/db:1'' ''gcr.io/old:1'')))"
  "separate same_image (engine_of rack_conts (example_app (example_rack ''gcr.io/db:1'' ''gcr.io/old:1'')))"
  "\<forall>i \<in> ran (deployed (engine_of rack_conts (example_app (example_rack ''gcr.io/db:1'' ''gcr.io/old:1'')))).
     is_envoy i \<longrightarrow> i \<in> set [app1] \<or> Name i \<notin> Name ` set [app1]"
  unfolding one_each_def separate_def rack_deployed
  by (auto simp: same_image_def example_images example_app_def example_rack_conts split: if_splits)

lemma rack_node: "example_deployment ''gcr.io/app:1'' (NodeHostname (Default ''hpc-1'')) = Some \<lparr>State = NodeStateRunning, Images = Some [''gcr.io/app:1'']\<rparr>"
  by (simp add: example_deployment_def Default_def)

lemma rack_new:
  "qualify_loop example_parser (DefaultContainerRegistryDomain (Default ''hpc-1''))
     (map ParseImageName (image_list \<lparr>State = NodeStateRunning, Images = Some [''gcr.io/app:1'']\<rparr>)) = Ret (Inr [app1])"
  using example_qualify by (simp add: image_list_def Default_def app1_def)

lemma rack_replaced:
  "\<exists>st'. process example_parser (docker_app (Default ''hpc-1'') plain_file rack_client) (example_deployment ''gcr.io/app:1'')
       (example_app (example_rack ''gcr.io/db:1'' ''gcr.io/old:1'')) = Ret (None, st') \<and> (\<forall>e \<in> set (snd (runtime st')). call_ok e)"
  using rack_round [of "''gcr.io/db:1''" "''a''" "(''gcr.io/old:1'', True, ''/happy_bell'')" "[]", OF _ refl]
  by (auto simp: example_rack_list listed_def same_image_def)

section \<open>Properties\<close>

text \<open>
  C7. Rounds converge, under five conditions: no two images of the configuration have the same name; no two managed containers that run before the round have images of the same name (\<open>one_each\<close>); among
  the running containers, those that the engine finds for the image of a managed one are managed containers of this image (\<open>separate\<close>), so that none that is to be kept shares it; the configuration
  asks for no other version of an Envoy that runs; and every call of the round succeeds. Then the round over the Docker manager leaves the engine with one managed container of every image that the
  configuration asks for, and with Envoy, and nothing else; containers of these images that ran before, stopped ones and those that are to be kept are
  left as they were; and the next round with this configuration lists the containers and does nothing more.
\<close>

theorem docker_rounds_converge:
  assumes "engine_laws anc conts cl" and "summary_law conts cl" and "unreserved_names conts cl"
    and "dc (NodeHostname c) = Some node"
    and "qualify_loop parse (DefaultContainerRegistryDomain c) (map ParseImageName (image_list node)) = Ret (Inr new)"
    and "distinct (map Name new)" and "one_each (engine_of conts st)" and "separate anc (engine_of conts st)"
    and "\<forall>i \<in> ran (deployed (engine_of conts st)). is_envoy i \<longrightarrow> i \<in> set new \<or> Name i \<notin> Name ` set new"
    and "process parse (docker_app c untar cl) dc st = Ret (None, st')" and "\<forall>e \<in> set (snd (runtime st')). call_ok e"
  shows "ran (deployed (engine_of conts st')) = set new \<union> {i \<in> ran (deployed (engine_of conts st)). is_envoy i} \<and> one_each (engine_of conts st') \<and>
    (\<forall>cid k. engine_of conts st cid = Some k \<and> (\<forall>i. deployed (engine_of conts st) cid = Some i \<longrightarrow> i \<in> set new \<or> is_envoy i) \<longrightarrow>
       engine_of conts st' cid = Some k) \<and>
    (\<forall>cs w. docker_Containers cl (fst (runtime st')) = Ret (Inr cs, w) \<longrightarrow>
       process parse (docker_app c untar cl) dc st' = Ret (None, st'\<lparr>runtime := (w, snd (runtime st') @ [EvList (Inr cs)])\<rparr>) \<and>
       conts w = engine_of conts st')"
proof -
  let ?X = "{i. i \<notin> set new \<and> \<not> is_envoy i}"
  have le: "without ?X (engine_of conts st) \<subseteq>\<^sub>m engine_of conts st'" and one: "one_each (engine_of conts st')"
    and ran: "ran (deployed (engine_of conts st')) = set new \<union> {i \<in> ran (deployed (engine_of conts st)). is_envoy i}"
    using docker_round [where dc = dc, OF assms] by auto
  have "engine_of conts st' cid = Some k"
    if "engine_of conts st cid = Some k" "\<forall>i. deployed (engine_of conts st) cid = Some i \<longrightarrow> i \<in> set new \<or> is_envoy i" for cid k
  proof -
    have "without ?X (engine_of conts st) cid = Some k" using that by (auto simp: without_def split: option.splits)
    with le show ?thesis by (auto simp: map_le_def dom_def)
  qed
  moreover have "process parse (docker_app c untar cl) dc st' = Ret (None, st'\<lparr>runtime := (w, snd (runtime st') @ [EvList (Inr cs)])\<rparr>) \<and>
      conts w = engine_of conts st'" if "docker_Containers cl (fst (runtime st')) = Ret (Inr cs, w)" for cs w
    by (rule docker_round_idle [where dc = dc, OF assms(1,2,4,5,6) one _ _ that]) (auto simp: ran)
  ultimately show ?thesis using ran one by blast
qed

theorem docker_rounds_converge_witness:
  "\<exists>st'. process example_parser (docker_app (Default ''hpc-1'') plain_file rack_client) (example_deployment ''gcr.io/app:1'')
       (example_app (example_rack ''gcr.io/db:1'' ''gcr.io/old:1'')) = Ret (None, st') \<and>
     ran (deployed (rack_conts (fst (runtime st')))) = {app1} \<and>
     rack_conts (fst (runtime st')) ''k'' = Some (rack_container (''gcr.io/db:1'', True, ''/carisma-keep-db''))"
proof -
  let ?dc = "example_deployment ''gcr.io/app:1''" and ?st = "example_app (example_rack ''gcr.io/db:1'' ''gcr.io/old:1'')"
  obtain st' where run: "process example_parser (docker_app (Default ''hpc-1'') plain_file rack_client) ?dc ?st = Ret (None, st')"
    "\<forall>e \<in> set (snd (runtime st')). call_ok e" using rack_replaced by blast
  note conv = docker_rounds_converge [where dc = ?dc, OF rack_engine rack_summaries rack_names rack_node rack_new _ rack_start run]
  have "ran (deployed (rack_conts (fst (runtime st')))) = {app1}"
    using conv [THEN conjunct1] unfolding rack_deployed by (auto simp: example_images)
  moreover have "rack_conts (fst (runtime st')) ''k'' = Some (rack_container (''gcr.io/db:1'', True, ''/carisma-keep-db''))"
    using conv [THEN conjunct2, THEN conjunct2, THEN conjunct1, rule_format, of "''k''"]
    unfolding rack_deployed by (simp add: example_app_def example_rack_conts)
  ultimately show ?thesis using run(1) by blast
qed

text \<open>
  C32. A container that is to be kept is not safe from a removal: when the engine lists it first among the running containers of the image, it is the one that
  is removed, the removal is reported as a success, and the managed containers go on running.
\<close>

theorem removal_can_take_kept_container:
  assumes "engine_laws anc conts cl" and "summary_law conts cl"
    and "ContainerList cl \<lparr>All = False, Ancestor = Some (image_ref i)\<rparr> w = (Inr (s # ss), w1)" and "kept_name (SummaryNames s)"
    and "docker_Remove untar cl (image_ref i) v w = Ret (Inr r, w')"
  shows "\<exists>k. conts w (SummaryID s) = Some k \<and> engineRunning k \<and> kept_name (engineNames k) \<and>
    conts w' = (conts w)(SummaryID s := None) \<and> deployed (conts w') = deployed (conts w)"
proof -
  obtain k where k: "conts w1 = conts w" "conts w (SummaryID s) = Some k" "engineRunning k"
    using engine_list [OF assms(1,3)] by (auto simp: listed_def)
  have kept: "kept_name (engineNames k)" using engine_summary [OF assms(2,3) _ k(2)] assms(4) by simp
  obtain w2 w3 where "(if v then bundle_and_port untar cl (SummaryID s) w1 else Ret (Inr ([], - 1), w1)) = Ret (Inr r, w2)"
    and rm: "ContainerRemove cl (SummaryID s) True w2 = (None, w3)" "ImageRemove cl (SummaryImageID s) True w3 = (None, w')"
    using assms(3,5) by (auto simp: docker_Remove_def split: prod.splits sum.splits outcome.splits option.splits)
  then have "conts w2 = conts w1" using bundle_and_port_conts [OF assms(1)] by (auto split: if_splits)
  then have w': "conts w' = (conts w)(SummaryID s := None)" using engine_remove [OF assms(1)] rm k(1) by metis
  moreover have "deployed (conts w) (SummaryID s) = None" using k kept by (simp add: deployed_def)
  ultimately show ?thesis using k kept by (simp add: deployed_remove fun_upd_idem)
qed

theorem removal_can_take_kept_container_witness:
  "\<exists>st'. process example_parser (docker_app (Default ''hpc-1'') plain_file rack_client) (example_deployment ''gcr.io/app:1'')
       (example_app (example_rack ''gcr.io/old:1'' ''gcr.io/old:1'')) = Ret (None, st') \<and>
     rack_conts (example_rack ''gcr.io/old:1'' ''gcr.io/old:1'') ''k'' \<noteq> None \<and> rack_conts (fst (runtime st')) ''k'' = None \<and>
     deployed (rack_conts (fst (runtime st'))) ''a'' = Some old1"
proof -
  let ?w = "example_rack ''gcr.io/old:1'' ''gcr.io/old:1''" and ?d = "DAList.delete ''k'' (example_rack ''gcr.io/old:1'' ''gcr.io/old:1'')"
  let ?k = "(''k'', ''gcr.io/old:1'', True, ''/carisma-keep-db'')" and ?a = "(''a'', ''gcr.io/old:1'', True, ''/happy_bell'')"
  have f: "filter (\<lambda>e. listed same_image \<lparr>All = False, Ancestor = Some ''gcr.io/old:1''\<rparr> (rack_container (snd e))) (DAList.impl_of ?w) = [?k, ?a]"
    by (simp add: example_rack_list listed_def same_image_def)
  have l: "ContainerList rack_client \<lparr>All = False, Ancestor = Some (image_ref old1)\<rparr> ?w = (Inr [rack_summary ?k, rack_summary ?a], ?w)"
    using f by (simp add: rack_listed example_images)
  have kept: "kept_name (SummaryNames (rack_summary ?k))" by (simp add: rack_summary_def kept_name_def strings_HasPrefix_def go_data)
  have r: "docker_Remove plain_file rack_client (image_ref old1) True ?w = Ret (Inr (''app'', 8080), ?d)"
    using rack_remove [OF f] by (simp add: example_images)
  from removal_can_take_kept_container [OF rack_engine rack_summaries l kept r]
  have d: "rack_conts ?w ''k'' \<noteq> None" "rack_conts ?d ''k'' = None" "deployed (rack_conts ?d) = deployed (rack_conts ?w)" by auto
  have lens: "length (fresh_cid ?d) = 2" by (simp add: fresh_cid_def delete.rep_eq example_rack_list)
  then have ne: "fresh_cid ?d \<noteq> ''k''" "fresh_cid ?d \<noteq> ''a''" by auto
  have a: "deployed (rack_conts ?w) ''a'' = Some old1" by (simp add: example_rack_deployed example_images)
  have "deployed (rack_conts (DAList.update (fresh_cid ?d) x ?d)) ''a'' = deployed (rack_conts ?d) ''a''" for x
    using ne by (simp add: rack_conts_update deployed_def)
  with rack_round [OF f refl] d ne a show ?thesis by (auto simp: rack_conts_update)
qed

end
