(* ===== verification/Channel_Broker.thy ===== *)
theory Channel_Broker
  imports Go_Prelude
begin

text \<open>
  The message relay of \<^verbatim>\<open>pkg/channel/broker.go\<close>. A \<open>broker\<close> is the struct together with the
  channels its method \<^verbatim>\<open>Read\<close> has made (\<open>chans\<close>, the contents of each channel's buffer, indexed by
  the channel's number) and the state of the goroutine that runs \<^verbatim>\<open>Listen\<close>. A channel operation
  that has to wait is \<open>None\<close>. The three cases of the \<^verbatim>\<open>select\<close> statement are three operations, and
  \<open>broker_step\<close> lets the listener, the readers and the writers take turns in every order.
\<close>

section \<open>Model\<close>

datatype listener = NotStarted | Listening "nat list" | Returned

record 'm broker =
  destinations :: "nat list"
  source :: "'m list"
  quit :: bool
  chans :: "'m list list"
  listener :: listener

definition cap_destinations :: nat where [go_data]: "cap_destinations = 1"
definition cap_source :: nat where [go_data]: "cap_source = 1"
definition cap_reader :: nat where [go_data]: "cap_reader = 5"

definition NewBroker :: "'m broker" where
  "NewBroker = \<lparr>destinations = [], source = [], quit = False, chans = [], listener = NotStarted\<rparr>"

text \<open>\<^verbatim>\<open>Read\<close> makes a buffered channel and hands it to the listener; it returns the channel.\<close>

definition Broker_Read :: "'m broker \<Rightarrow> (nat \<times> 'm broker) option" where
  "Broker_Read b =
     (let msgCh = length (chans b) in
      if length (destinations b) < cap_destinations
      then Some (msgCh, b\<lparr>chans := chans b @ [[]], destinations := destinations b @ [msgCh]\<rparr>)
      else None)"

definition Broker_Write :: "'m broker \<Rightarrow> 'm \<Rightarrow> 'm broker option" where
  "Broker_Write b msg =
     (if length (source b) < cap_source then Some (b\<lparr>source := source b @ [msg]\<rparr>) else None)"

text \<open>Closing a channel that is closed already panics.\<close>

definition Broker_Stop :: "'m broker \<Rightarrow> 'm broker outcome" where
  "Broker_Stop b = (if quit b then Panic else Ret (b\<lparr>quit := True\<rparr>))"

text \<open>The inner \<^verbatim>\<open>select\<close> of the relay loop: a send that is skipped when the buffer is full.\<close>

definition try_send :: "'m list list \<Rightarrow> nat \<Rightarrow> 'm \<Rightarrow> 'm list list" where
  "try_send cs ch msg = (if length (cs ! ch) < cap_reader then cs[ch := cs ! ch @ [msg]] else cs)"

fun relay_loop :: "'m list list \<Rightarrow> nat list \<Rightarrow> 'm \<Rightarrow> 'm list list" where
  "relay_loop cs [] msg = cs"
| "relay_loop cs (ch # chs) msg = relay_loop (try_send cs ch msg) chs msg"

definition Listen_start :: "'m broker \<Rightarrow> 'm broker" where
  "Listen_start b = b\<lparr>listener := Listening []\<rparr>"

definition Listen_destination :: "'m broker \<Rightarrow> (nat \<times> 'm broker) option" where
  "Listen_destination b =
     (case (listener b, destinations b) of
        (Listening ls, msgCh # ds) \<Rightarrow>
          Some (msgCh, b\<lparr>destinations := ds, listener := Listening (List.insert msgCh ls)\<rparr>)
      | _ \<Rightarrow> None)"

text \<open>\<open>ord\<close> is the order in which the loop over the map of listeners visits them.\<close>

definition Listen_source :: "'m broker \<Rightarrow> nat list \<Rightarrow> ('m \<times> 'm broker) option" where
  "Listen_source b ord =
     (case (listener b, source b) of
        (Listening ls, msg # ms) \<Rightarrow>
          if mset ord = mset ls
          then Some (msg, b\<lparr>source := ms, chans := relay_loop (chans b) ord msg\<rparr>) else None
      | _ \<Rightarrow> None)"

definition Listen_quit :: "'m broker \<Rightarrow> 'm broker option" where
  "Listen_quit b =
     (case listener b of
        Listening ls \<Rightarrow> if quit b then Some (b\<lparr>listener := Returned\<rparr>) else None
      | _ \<Rightarrow> None)"

text \<open>The holder of a channel takes the oldest message out of it.\<close>

definition chan_recv :: "'m broker \<Rightarrow> nat \<Rightarrow> ('m \<times> 'm broker) option" where
  "chan_recv b ch =
     (if ch < length (chans b)
      then case chans b ! ch of [] \<Rightarrow> None | msg # ms \<Rightarrow> Some (msg, b\<lparr>chans := (chans b)[ch := ms]\<rparr>)
      else None)"

datatype 'm broker_event =
    EvStart
  | EvRead nat
  | EvWrite 'm
  | EvStop
  | EvAccept nat
  | EvRelay 'm
  | EvReturn
  | EvRecv nat 'm

inductive broker_step :: "'m broker \<Rightarrow> 'm broker_event \<Rightarrow> 'm broker \<Rightarrow> bool" where
  start: "listener b = NotStarted \<Longrightarrow> broker_step b EvStart (Listen_start b)"
| read: "Broker_Read b = Some (ch, b') \<Longrightarrow> broker_step b (EvRead ch) b'"
| "write": "Broker_Write b msg = Some b' \<Longrightarrow> broker_step b (EvWrite msg) b'"
| stop: "Broker_Stop b = Ret b' \<Longrightarrow> broker_step b EvStop b'"
| accept: "Listen_destination b = Some (ch, b') \<Longrightarrow> broker_step b (EvAccept ch) b'"
| relay: "Listen_source b ord = Some (msg, b') \<Longrightarrow> broker_step b (EvRelay msg) b'"
| return: "Listen_quit b = Some b' \<Longrightarrow> broker_step b EvReturn b'"
| recv: "chan_recv b ch = Some (msg, b') \<Longrightarrow> broker_step b (EvRecv ch msg) b'"

text \<open>An executor for these steps: the relay visits the latest listener first.\<close>

fun broker_exec :: "'m broker \<Rightarrow> 'm broker_event \<Rightarrow> 'm broker option" where
  "broker_exec b EvStart = (if listener b = NotStarted then Some (Listen_start b) else None)"
| "broker_exec b (EvRead ch) =
     (case Broker_Read b of Some (c, b') \<Rightarrow> if c = ch then Some b' else None | None \<Rightarrow> None)"
| "broker_exec b (EvWrite m) = Broker_Write b m"
| "broker_exec b EvStop = (case Broker_Stop b of Ret b' \<Rightarrow> Some b' | Panic \<Rightarrow> None)"
| "broker_exec b (EvAccept ch) =
     (case Listen_destination b of Some (c, b') \<Rightarrow> if c = ch then Some b' else None | None \<Rightarrow> None)"
| "broker_exec b (EvRelay m) =
     (case Listen_source b (case listener b of Listening ls \<Rightarrow> ls | _ \<Rightarrow> []) of
        Some (x, b') \<Rightarrow> if x = m then Some b' else None | None \<Rightarrow> None)"
| "broker_exec b EvReturn = Listen_quit b"
| "broker_exec b (EvRecv ch m) =
     (case chan_recv b ch of Some (x, b') \<Rightarrow> if x = m then Some b' else None | None \<Rightarrow> None)"

section \<open>Traces and the invariant\<close>

fun written :: "'m broker_event list \<Rightarrow> 'm list" where
  "written [] = []"
| "written (EvWrite m # es) = m # written es"
| "written (e # es) = written es"

fun relayed :: "'m broker_event list \<Rightarrow> 'm list" where
  "relayed [] = []"
| "relayed (EvRelay m # es) = m # relayed es"
| "relayed (e # es) = relayed es"

fun received :: "nat \<Rightarrow> 'm broker_event list \<Rightarrow> 'm list" where
  "received ch [] = []"
| "received ch (EvRecv c m # es) = (if c = ch then m # received ch es else received ch es)"
| "received ch (e # es) = received ch es"

text \<open>The part of a trace that follows the listener's acceptance of a channel.\<close>

fun since_accept :: "nat \<Rightarrow> 'm broker_event list \<Rightarrow> 'm broker_event list" where
  "since_accept ch [] = []"
| "since_accept ch (e # es) = (if e = EvAccept ch then es else since_accept ch es)"

fun listeners :: "listener \<Rightarrow> nat list" where
  "listeners (Listening ls) = ls"
| "listeners _ = []"

definition broker_inv :: "'m broker \<Rightarrow> bool" where
  "broker_inv b \<longleftrightarrow>
     length (destinations b) \<le> cap_destinations \<and> length (source b) \<le> cap_source \<and>
     (\<forall>buf \<in> set (chans b). length buf \<le> cap_reader) \<and>
     (\<forall>ch \<in> set (destinations b) \<union> set (listeners (listener b)). ch < length (chans b)) \<and>
     distinct (destinations b) \<and> distinct (listeners (listener b)) \<and>
     set (destinations b) \<inter> set (listeners (listener b)) = {}"

section \<open>Operations\<close>

lemma Broker_Read_Some:
  "Broker_Read b = Some (ch, b') \<longleftrightarrow>
     length (destinations b) < cap_destinations \<and> ch = length (chans b) \<and>
     b' = b\<lparr>chans := chans b @ [[]], destinations := destinations b @ [ch]\<rparr>"
  by (auto simp: Broker_Read_def Let_def)

lemma Broker_Write_Some:
  "Broker_Write b m = Some b' \<longleftrightarrow> length (source b) < cap_source \<and> b' = b\<lparr>source := source b @ [m]\<rparr>"
  by (auto simp: Broker_Write_def)

lemma Broker_Stop_Ret: "Broker_Stop b = Ret b' \<longleftrightarrow> \<not> quit b \<and> b' = b\<lparr>quit := True\<rparr>"
  by (auto simp: Broker_Stop_def)

lemma Listen_destination_Some:
  "Listen_destination b = Some (ch, b') \<longleftrightarrow>
     (\<exists>ls ds. listener b = Listening ls \<and> destinations b = ch # ds \<and>
        b' = b\<lparr>destinations := ds, listener := Listening (List.insert ch ls)\<rparr>)"
  by (auto simp: Listen_destination_def split: listener.splits list.splits)

lemma Listen_source_Some:
  "Listen_source b ord = Some (m, b') \<longleftrightarrow>
     (\<exists>ls ms. listener b = Listening ls \<and> source b = m # ms \<and> mset ord = mset ls \<and>
        b' = b\<lparr>source := ms, chans := relay_loop (chans b) ord m\<rparr>)"
  by (auto simp: Listen_source_def split: listener.splits list.splits if_splits)

lemma Listen_quit_Some:
  "Listen_quit b = Some b' \<longleftrightarrow>
     (\<exists>ls. listener b = Listening ls) \<and> quit b \<and> b' = b\<lparr>listener := Returned\<rparr>"
  by (auto simp: Listen_quit_def split: listener.splits)

lemma chan_recv_Some:
  "chan_recv b ch = Some (m, b') \<longleftrightarrow>
     ch < length (chans b) \<and> (\<exists>ms. chans b ! ch = m # ms \<and> b' = b\<lparr>chans := (chans b)[ch := ms]\<rparr>)"
  by (auto simp: chan_recv_def split: list.splits)

lemmas broker_ops = Broker_Read_Some Broker_Write_Some Broker_Stop_Ret Listen_start_def
  Listen_destination_Some Listen_source_Some Listen_quit_Some chan_recv_Some

inductive_cases broker_stepE: "broker_step b e b'"

interpretation brx: step_executor broker_step broker_exec
proof
  fix b :: "'m broker" and e b'
  assume "broker_exec b e = Some b'"
  then show "broker_step b e b'"
    by (cases e) (auto intro: broker_step.intros split: if_splits option.splits outcome.splits)
qed

text \<open>The rules that evaluate a run.\<close>

lemmas broker_eval = NewBroker_def Listen_start_def Broker_Read_def Broker_Write_def Broker_Stop_def
  Listen_destination_def Listen_source_def Listen_quit_def chan_recv_def try_send_def go_data

section \<open>The relay loop\<close>

lemma length_relay_loop [simp]: "length (relay_loop cs ord m) = length cs"
  by (induction cs ord m rule: relay_loop.induct) (auto simp: try_send_def)

lemma relay_loop_nth:
  "distinct ord \<Longrightarrow> i < length cs \<Longrightarrow>
     relay_loop cs ord m ! i =
       (if i \<in> set ord \<and> length (cs ! i) < cap_reader then cs ! i @ [m] else cs ! i)"
proof (induction cs ord m rule: relay_loop.induct)
  case (2 cs ch chs m)
  then show ?case by (cases "i = ch") (auto simp: try_send_def)
qed simp

lemma relay_order:
  assumes "broker_inv b" "listener b = Listening ls" "mset ord = mset ls"
  shows "distinct ord" "set ord = set ls"
  using assms mset_eq_setD [OF assms(3)] by (auto simp: broker_inv_def intro: mset_eq_imp_distinct_iff [THEN iffD2])

lemma relay_loop_bound:
  "distinct ord \<Longrightarrow> \<forall>buf \<in> set cs. length buf \<le> cap_reader \<Longrightarrow>
     \<forall>buf \<in> set (relay_loop cs ord m). length buf \<le> cap_reader"
  by (force simp: in_set_conv_nth relay_loop_nth)

lemma relay_effect:
  assumes "broker_inv b" and "Listen_source b ord = Some (m, b')"
  shows "length (chans b') = length (chans b)" and "listener b' = listener b" and "source b = m # source b'"
    and "ch < length (chans b) \<Longrightarrow> chans b' ! ch =
      (if ch \<in> set (listeners (listener b)) \<and> length (chans b ! ch) < cap_reader
       then chans b ! ch @ [m] else chans b ! ch)"
proof -
  from assms(2) obtain ls ms where b: "listener b = Listening ls" "source b = m # ms" "mset ord = mset ls"
    "b' = b\<lparr>source := ms, chans := relay_loop (chans b) ord m\<rparr>"
    by (auto simp: Listen_source_Some)
  from relay_order [OF assms(1) b(1,3)] b
  show "length (chans b') = length (chans b)" "listener b' = listener b" "source b = m # source b'"
    "ch < length (chans b) \<Longrightarrow> chans b' ! ch =
      (if ch \<in> set (listeners (listener b)) \<and> length (chans b ! ch) < cap_reader
       then chans b ! ch @ [m] else chans b ! ch)"
    by (simp_all add: relay_loop_nth)
qed

section \<open>Invariant\<close>

lemma broker_inv_New [simp]: "broker_inv NewBroker"
  by (simp add: broker_inv_def NewBroker_def)

lemma broker_inv_step: "broker_inv b \<Longrightarrow> broker_step b e b' \<Longrightarrow> broker_inv b'"
proof -
  assume inv: "broker_inv b" and st: "broker_step b e b'"
  from st show "broker_inv b'"
  proof (cases rule: broker_step.cases)
    case (relay ord m)
    then obtain ls ms where b': "listener b = Listening ls" "source b = m # ms" "mset ord = mset ls"
      "b' = b\<lparr>source := ms, chans := relay_loop (chans b) ord m\<rparr>"
      by (auto simp: Listen_source_Some)
    with inv relay_order [OF inv b'(1,3)] relay_loop_bound [of ord "chans b" m]
    show ?thesis by (auto simp: broker_inv_def)
  next
    case (recv ch m)
    with inv show ?thesis
      by (auto simp: broker_inv_def chan_recv_Some dest!: set_update_subset_insert [THEN subsetD])
        (metis Suc_leD length_Cons nth_mem)
  qed (use inv in \<open>auto simp: broker_inv_def broker_ops go_data less_Suc_eq\<close>)
qed

interpretation brk: step_invariant broker_step broker_inv
  by unfold_locales (rule broker_inv_step)

section \<open>Delivery\<close>

lemma written_append [simp]: "written (xs @ ys) = written xs @ written ys"
  by (induction xs rule: written.induct) auto

lemma relayed_append [simp]: "relayed (xs @ ys) = relayed xs @ relayed ys"
  by (induction xs rule: relayed.induct) auto

lemma received_append [simp]: "received ch (xs @ ys) = received ch xs @ received ch ys"
  by (induction ch xs rule: received.induct) auto

lemma since_accept_snoc:
  "since_accept ch (tr @ [e]) =
     (if EvAccept ch \<in> set tr then since_accept ch tr @ [e] else [])"
  by (induction ch tr rule: since_accept.induct) auto

text \<open>What was written is what was relayed, followed by what still waits in the source channel.\<close>

lemma run_written: "run broker_step NewBroker tr b \<Longrightarrow> written tr = relayed tr @ source b"
proof (induction rule: run.induct)
  case (run_snoc tr b e b')
  then show ?case by (auto elim!: broker_stepE simp: broker_ops)
qed (simp add: NewBroker_def)

lemma run_broker_inv: "run broker_step NewBroker tr b \<Longrightarrow> broker_inv b"
  by (auto intro: brk.run_inv)

text \<open>A channel the listener has not accepted yet, or that was never made, has delivered nothing.\<close>

definition channel_idle :: "nat \<Rightarrow> 'm broker_event list \<Rightarrow> 'm broker \<Rightarrow> bool" where
  "channel_idle ch tr b \<longleftrightarrow> received ch tr = [] \<and> (ch < length (chans b) \<longrightarrow> chans b ! ch = [])"

lemma run_accepted:
  "run broker_step NewBroker tr b \<Longrightarrow>
     (ch \<in> set (listeners (listener b)) \<longrightarrow> EvAccept ch \<in> set tr) \<and>
     (EvAccept ch \<in> set tr \<longrightarrow> ch < length (chans b)) \<and>
     (EvAccept ch \<in> set tr \<and> listener b \<noteq> Returned \<longrightarrow> ch \<in> set (listeners (listener b)))"
proof (induction rule: run.induct)
  case (run_snoc tr b e b')
  from run_broker_inv [OF run_snoc.hyps(1)] run_snoc show ?case
    by (auto elim!: broker_stepE simp: broker_ops broker_inv_def)
qed (simp add: NewBroker_def)

lemma run_idle: "run broker_step NewBroker tr b \<Longrightarrow> EvAccept ch \<notin> set tr \<Longrightarrow> channel_idle ch tr b"
proof (induction rule: run.induct)
  case (run_snoc tr b e b')
  then have idle: "channel_idle ch tr b" by simp
  note inv = run_broker_inv [OF run_snoc.hyps(1)]
  from run_snoc.prems run_accepted [OF run_snoc.hyps(1), of ch]
  have out: "ch \<notin> set (listeners (listener b))" by auto
  from run_snoc.hyps(2) show ?case
  proof (cases rule: broker_step.cases)
    case (relay ord m)
    with idle out relay_effect [OF inv relay(2)] show ?thesis
      by (auto simp: channel_idle_def)
  next
    case (read c)
    with idle show ?thesis
      by (auto simp: channel_idle_def Broker_Read_Some nth_append)
  qed (use idle in \<open>auto simp: channel_idle_def broker_ops nth_list_update\<close>)
qed (simp add: channel_idle_def NewBroker_def)

lemma since_accept_suffix: "\<exists>before. tr = before @ since_accept ch tr"
proof (induction tr)
  case (Cons e tr)
  then obtain before where "tr = before @ since_accept ch tr" by blast
  then have "e # tr = (e # before) @ since_accept ch tr" by simp
  then show ?case by (metis append_Cons append_Nil since_accept.simps(2))
qed simp

lemma relayed_since: "\<exists>earlier. relayed tr = earlier @ relayed (since_accept ch tr)"
  using since_accept_suffix [of tr ch] by (metis relayed_append)

lemma run_delivered_subseq:
  "run broker_step NewBroker tr b \<Longrightarrow> ch < length (chans b) \<Longrightarrow>
     subseq (received ch tr @ chans b ! ch) (relayed (since_accept ch tr))"
proof (induction rule: run.induct)
  case (run_snoc tr b e b')
  note inv = run_broker_inv [OF run_snoc.hyps(1)]
  show ?case
  proof (cases "EvAccept ch \<in> set tr")
    case False
    have run': "run broker_step NewBroker (tr @ [e]) b'" using run_snoc.hyps by (rule run.run_snoc)
    show ?thesis
    proof (cases "e = EvAccept ch")
      case True
      with run_snoc.hyps(2) run_snoc.prems run_idle [OF run_snoc.hyps(1) False] show ?thesis
        by (auto elim!: broker_stepE simp: Listen_destination_Some channel_idle_def)
    next
      case False
      with \<open>EvAccept ch \<notin> set tr\<close> run_idle [OF run', of ch] run_snoc.prems show ?thesis
        by (simp add: channel_idle_def)
    qed
  next
    case True
    then have acc: "ch < length (chans b)" using run_accepted [OF run_snoc.hyps(1), of ch] by simp
    with run_snoc.IH have IH: "subseq (received ch tr @ chans b ! ch) (relayed (since_accept ch tr))" by simp
    from run_snoc.hyps(2) show ?thesis
    proof (cases rule: broker_step.cases)
      case (relay ord m)
      with acc relay_effect [OF inv relay(2)] have "chans b' ! ch \<in> {chans b ! ch, chans b ! ch @ [m]}" by auto
      with relay IH True show ?thesis
        by (auto simp: since_accept_snoc intro: subseq_append' [THEN iffD2] simp flip: append_assoc)
    next
      case (recv c m)
      with IH True show ?thesis
        by (auto simp: since_accept_snoc chan_recv_Some nth_list_update split: if_splits)
    qed (use IH acc True in \<open>auto simp: since_accept_snoc broker_ops nth_append\<close>)
  qed
qed (simp add: NewBroker_def)

lemma run_delivered_written:
  assumes "run broker_step NewBroker tr b" and "ch < length (chans b)"
  shows "subseq (received ch tr @ chans b ! ch) (written tr)"
proof -
  obtain earlier where "relayed tr = earlier @ relayed (since_accept ch tr)" using relayed_since by blast
  with run_delivered_subseq [OF assms] show ?thesis
    by (auto simp: run_written [OF assms(1)] intro: list_emb_prefix list_emb_append2)
qed

text \<open>
  A reader that never falls more than the channel's capacity behind the relay: at every point since
  its channel was accepted.
\<close>

definition keeps_up :: "nat \<Rightarrow> 'm broker_event list \<Rightarrow> bool" where
  "keeps_up ch tr \<longleftrightarrow>
     (\<forall>p. prefix p (since_accept ch tr) \<longrightarrow> length (relayed p) \<le> length (received ch p) + cap_reader)"

lemma run_delivered_exactly:
  "run broker_step NewBroker tr b \<Longrightarrow> keeps_up ch tr \<Longrightarrow> EvAccept ch \<in> set tr \<Longrightarrow>
     received ch tr = received ch (since_accept ch tr) \<and>
     received ch tr @ chans b ! ch = relayed (since_accept ch tr)"
proof (induction rule: run.induct)
  case (run_snoc tr b e b')
  note inv = run_broker_inv [OF run_snoc.hyps(1)]
  show ?case
  proof (cases "EvAccept ch \<in> set tr")
    case False
    with run_snoc.prems have e: "e = EvAccept ch" by auto
    with run_snoc.hyps(2) run_idle [OF run_snoc.hyps(1) False] False inv show ?thesis
      by (auto elim!: broker_stepE simp: Listen_destination_Some channel_idle_def since_accept_snoc broker_inv_def)
  next
    case True
    then have sa: "since_accept ch (tr @ [e]) = since_accept ch tr @ [e]"
      by (simp add: since_accept_snoc)
    from run_snoc.prems(1) sa have k: "keeps_up ch tr"
      by (auto simp: keeps_up_def prefix_append)
    with run_snoc True have IH: "received ch tr = received ch (since_accept ch tr)"
      "received ch tr @ chans b ! ch = relayed (since_accept ch tr)" by auto
    from run_snoc.prems(1) sa
    have full: "length (relayed (since_accept ch tr @ [e])) \<le> length (received ch (since_accept ch tr @ [e])) + cap_reader"
      unfolding keeps_up_def by (metis prefix_order.refl)
    from True run_accepted [OF run_snoc.hyps(1), of ch]
    have acc: "ch < length (chans b)" "listener b \<noteq> Returned \<longrightarrow> ch \<in> set (listeners (listener b))" by auto
    from arg_cong [OF IH(2), of length] have len:
      "length (received ch tr) + length (chans b ! ch) = length (relayed (since_accept ch tr))" by simp
    from run_snoc.hyps(2) show ?thesis
    proof (cases rule: broker_step.cases)
      case (relay ord m)
      with full len IH(1) have "length (chans b ! ch) < cap_reader" by simp
      moreover from relay have "listener b \<noteq> Returned"
        by (auto simp: Listen_source_Some)
      ultimately show ?thesis
        using relay IH acc relay_effect [OF inv relay(2)] sa by (auto simp flip: append_assoc)
    next
      case (recv c m)
      with IH acc sa show ?thesis
        by (auto simp: chan_recv_Some nth_list_update)
    qed (use IH acc sa in \<open>auto simp: broker_ops nth_append\<close>)
  qed
qed simp

section \<open>Properties\<close>

lemma write_blocked: "Broker_Write b m = None \<longleftrightarrow> cap_source \<le> length (source b)"
  by (auto simp: Broker_Write_def)

lemma Listen_source_enabled:
  "listener b = Listening ls \<Longrightarrow> source b = m # ms \<Longrightarrow>
     Listen_source b ls = Some (m, b\<lparr>source := ms, chans := relay_loop (chans b) ls m\<rparr>)"
  by (simp add: Listen_source_Some)

text \<open>A run with one reader: it registers, is accepted, and receives the one message written.\<close>

definition one_message :: "nat broker_event list" where
  "one_message = [EvStart, EvRead 0, EvAccept 0, EvWrite 7, EvRelay 7, EvRecv 0 7]"

lemma run_one_message:
  "run broker_step NewBroker one_message
     \<lparr>destinations = [], source = [], quit = False, chans = [[]], listener = Listening [0]\<rparr>"
  by (rule brx.exec_all_run) (simp add: one_message_def broker_eval)

text \<open>
  C2. At every moment of every run, what a reader has taken from its channel followed by what the
  channel still holds is a subsequence of the messages that the listener relayed after it had accepted the channel, and
  these are, in order, the last ones of what was written to the broker, but for those that still wait in its source
  channel: messages arrive in the order they were written, none arrives twice, none is made up, and none is one that was
  relayed before the channel was accepted.
\<close>

theorem broker_delivers_in_order:
  assumes "run broker_step NewBroker tr b" and "ch < length (chans b)"
  shows "subseq (received ch tr @ chans b ! ch) (relayed (since_accept ch tr)) \<and>
    (\<exists>earlier. written tr = earlier @ relayed (since_accept ch tr) @ source b)"
proof -
  obtain earlier where "relayed tr = earlier @ relayed (since_accept ch tr)" using relayed_since by blast
  with run_written [OF assms(1)] run_delivered_subseq [OF assms] show ?thesis by simp
qed

theorem broker_delivers_in_order_witness:
  "received 0 one_message = [7] \<and> subseq (received 0 one_message) (relayed (since_accept 0 one_message))"
  using broker_delivers_in_order [OF run_one_message, of 0] by (simp add: one_message_def)

text \<open>
  A reader that never falls more than the five messages of its buffer behind loses nothing: it
  gets exactly the messages relayed since the listener accepted its channel.
\<close>

lemma broker_loses_nothing:
  assumes "run broker_step NewBroker tr b" and "EvAccept ch \<in> set tr" and "keeps_up ch tr"
  shows "received ch tr @ chans b ! ch = relayed (since_accept ch tr)"
  using run_delivered_exactly [OF assms(1,3,2)] by (rule conjunct2)

text \<open>
  C37. A slow reader never blocks the broker: whenever a writer has to wait while the listener runs, the
  listener can relay the pending message, whatever the readers' channels hold, and then the write
  goes through.
\<close>

theorem broker_write_progress:
  assumes "run broker_step NewBroker tr b" and "listener b = Listening ls" and "Broker_Write b msg = None"
  shows "\<exists>m b'. broker_step b (EvRelay m) b' \<and> Broker_Write b' msg \<noteq> None"
proof -
  from assms(1) have "broker_inv b" by (rule run_broker_inv)
  with assms(3) have "length (source b) = 1"
    by (simp add: broker_inv_def write_blocked go_data)
  then obtain m where m: "source b = [m]"
    by (cases "source b") auto
  with broker_step.relay [OF Listen_source_enabled [OF assms(2) m]] show ?thesis
    by (intro exI conjI) (assumption, simp add: write_blocked go_data)
qed

theorem broker_write_progress_witness:
  "\<exists>b m b'. run broker_step NewBroker [EvStart, EvWrite (7 :: nat)] b \<and> Broker_Write b 8 = None \<and> broker_step b (EvRelay m) b' \<and> Broker_Write b' 8 \<noteq> None"
proof -
  let ?b = "\<lparr>destinations = [], source = [7 :: nat], quit = False, chans = [], listener = Listening []\<rparr>"
  have run: "run broker_step NewBroker [EvStart, EvWrite 7] ?b"
    by (rule brx.exec_all_run) (simp add: broker_eval)
  have w: "Broker_Write ?b 8 = None" by (simp add: broker_eval)
  from broker_write_progress [OF run _ w, of "[]"] run w show ?thesis by auto
qed

text \<open>
  The order in which the relay loop visits the map of listeners makes no difference: every order
  leaves the broker in the same state.
\<close>

lemma relay_order_irrelevant:
  assumes "run broker_step NewBroker tr b"
    and "Listen_source b ord1 = Some r1" and "Listen_source b ord2 = Some r2"
  shows "r1 = r2"
proof -
  obtain m1 b1 m2 b2 where r: "r1 = (m1, b1)" "r2 = (m2, b2)"
    by (cases r1, cases r2) auto
  note inv = run_broker_inv [OF assms(1)]
  note e1 = relay_effect [OF inv assms(2) [unfolded r(1)]] and e2 = relay_effect [OF inv assms(3) [unfolded r(2)]]
  have "chans b1 = chans b2"
    by (rule nth_equalityI) (use e1 e2 in auto)
  with assms r show ?thesis
    by (auto simp: Listen_source_Some)
qed

text \<open>
  Registration is not synchronous: a message written after \<^verbatim>\<open>Read\<close> returned can be relayed before
  the listener accepts the new channel, and that reader never gets it.
\<close>

lemma broker_misses_message:
  "\<exists>b. run broker_step NewBroker [EvStart, EvRead 0, EvWrite m, EvRelay m, EvAccept 0] b \<and>
     source b = [] \<and> chans b = [[]] \<and> listener b = Listening [0]"
proof -
  have "run broker_step NewBroker [EvStart, EvRead 0, EvWrite m, EvRelay m, EvAccept 0]
      \<lparr>destinations = [], source = [], quit = False, chans = [[]], listener = Listening [0]\<rparr>"
    by (rule brx.exec_all_run) (simp add: broker_eval)
  then show ?thesis by fastforce
qed

end
