(* ===== verification/Node_Channel.thy ===== *)
theory Node_Channel
  imports Registry Channel_Broker
begin

text \<open>
  The node channels of a running control plane: the streams of \<^verbatim>\<open>OpenChannel\<close> in \<^verbatim>\<open>pkg/registry/node_regisry.go\<close> over the
  broker. Every stream has its handler, which writes what the node sends to the broker, and a goroutine
  that forwards what the broker delivers on the stream's channel. Handlers, goroutines, registrations and the
  broker's listener interleave; a step that would have to wait is not enabled.
\<close>

section \<open>Model\<close>

record node_stream =
  streamHost :: string
  chRead :: nat
  unwritten :: "DeploymentConfiguration list"
  forwarded :: "DeploymentConfiguration list"
  cancelled :: bool
  forwarding :: bool

record node_channels =
  nodeRegistry :: NodeRegistryServer
  nodeBroker :: "DeploymentConfiguration broker"
  streams :: "node_stream list"

definition start_node_channels :: node_channels where
  "start_node_channels = \<lparr>nodeRegistry = NewNodeRegistryServer, nodeBroker = NewBroker, streams = []\<rparr>"

text \<open>The handler up to its loop: the checks, the broker's channel, and the first notification that is to be written.\<close>

definition nc_open :: "node_channels \<Rightarrow> stream_metadata \<Rightarrow> (nat \<times> node_channels) option" where
  "nc_open s md =
     (case OpenChannel_check (nodeRegistry s) md of
        Inl err \<Rightarrow> None
      | Inr nodeHostname \<Rightarrow>
          (case Broker_Read (nodeBroker s) of
             None \<Rightarrow> None
           | Some (ch, b) \<Rightarrow>
               Some (ch, s\<lparr>nodeBroker := b, streams := streams s @
                 [\<lparr>streamHost = nodeHostname, chRead = ch,
                   unwritten = OpenChannel_notify (DeploymentConfig_JSON (Some (only_entry nodeHostname (DeploymentConfigForStartingNode nodeHostname)))),
                   forwarded = [], cancelled = False, forwarding = True\<rparr>]\<rparr>)))"

text \<open>A notification that waits is written before the handler goes on.\<close>

definition nc_notify :: "node_channels \<Rightarrow> nat \<Rightarrow> (DeploymentConfiguration \<times> node_channels) option" where
  "nc_notify s i =
     (if i < length (streams s)
      then case unwritten (streams s ! i) of
             [] \<Rightarrow> None
           | m # ms \<Rightarrow>
               (case Broker_Write (nodeBroker s) m of
                  None \<Rightarrow> None
                | Some b \<Rightarrow> Some (m, s\<lparr>nodeBroker := b, streams := (streams s)[i := (streams s ! i)\<lparr>unwritten := ms\<rparr>]\<rparr>))
      else None)"

definition nc_client :: "node_channels \<Rightarrow> nat \<Rightarrow> DeploymentConfiguration \<Rightarrow> node_channels option" where
  "nc_client s i m =
     (if i < length (streams s) \<and> \<not> cancelled (streams s ! i) \<and> unwritten (streams s ! i) = []
      then map_option (\<lambda>b. s\<lparr>nodeBroker := b\<rparr>) (Broker_Write (nodeBroker s) m) else None)"

definition nc_close :: "node_channels \<Rightarrow> nat \<Rightarrow> node_channels option" where
  "nc_close s i =
     (if i < length (streams s) \<and> \<not> cancelled (streams s ! i) \<and> unwritten (streams s ! i) = []
      then let st = streams s ! i in
        Some (s\<lparr>streams := (streams s)[i := st\<lparr>cancelled := True,
          unwritten := OpenChannel_notify (DeploymentConfig_JSON (Some (only_entry (streamHost st) (DeploymentConfigForStoppedNode (streamHost st)))))\<rparr>]\<rparr>)
      else None)"

text \<open>
  The goroutine's \<^verbatim>\<open>select\<close>: as long as it runs it may forward a message, and it may return once its own context or the one of the stream is
  done. The latter is up to the client and the transport, so the goroutine may return at any time.
\<close>

definition nc_forward :: "node_channels \<Rightarrow> nat \<Rightarrow> (nat \<times> DeploymentConfiguration \<times> node_channels) option" where
  "nc_forward s i =
     (if i < length (streams s) \<and> forwarding (streams s ! i)
      then case chan_recv (nodeBroker s) (chRead (streams s ! i)) of
             None \<Rightarrow> None
           | Some (m, b) \<Rightarrow>
               Some (chRead (streams s ! i), m,
                 s\<lparr>nodeBroker := b, streams := (streams s)[i := (streams s ! i)\<lparr>forwarded := forwarded (streams s ! i) @ [m]\<rparr>]\<rparr>)
      else None)"

definition nc_done :: "node_channels \<Rightarrow> nat \<Rightarrow> node_channels option" where
  "nc_done s i =
     (if i < length (streams s)
      then Some (s\<lparr>streams := (streams s)[i := (streams s ! i)\<lparr>forwarding := False\<rparr>]\<rparr>) else None)"

datatype nc_event =
    NcRegister RegisterRequest
  | NcOpen nat
  | NcNotify nat DeploymentConfiguration
  | NcClient nat DeploymentConfiguration
  | NcClose nat
  | NcForward nat nat DeploymentConfiguration
  | NcDone nat
  | NcListen "DeploymentConfiguration broker_event"

fun listener_event :: "'m broker_event \<Rightarrow> bool" where
  "listener_event EvStart = True"
| "listener_event (EvAccept ch) = True"
| "listener_event (EvRelay m) = True"
| "listener_event e = False"

inductive nc_step :: "node_channels \<Rightarrow> nc_event \<Rightarrow> node_channels \<Rightarrow> bool" where
  nc_register: "nc_step s (NcRegister r) (s\<lparr>nodeRegistry := fst (Register (nodeRegistry s) r)\<rparr>)"
| nc_opens: "nc_open s md = Some (ch, t) \<Longrightarrow> nc_step s (NcOpen ch) t"
| nc_notifies: "nc_notify s i = Some (m, t) \<Longrightarrow> nc_step s (NcNotify i m) t"
| nc_writes: "nc_client s i m = Some t \<Longrightarrow> nc_step s (NcClient i m) t"
| nc_closes: "nc_close s i = Some t \<Longrightarrow> nc_step s (NcClose i) t"
| nc_forwards: "nc_forward s i = Some (ch, m, t) \<Longrightarrow> nc_step s (NcForward i ch m) t"
| nc_returns: "nc_done s i = Some t \<Longrightarrow> nc_step s (NcDone i) t"
| nc_listens: "listener_event e \<Longrightarrow> broker_step (nodeBroker s) e b \<Longrightarrow> nc_step s (NcListen e) (s\<lparr>nodeBroker := b\<rparr>)"

text \<open>An executor: streams open with the metadata \<open>md\<close>.\<close>

fun nc_exec :: "stream_metadata \<Rightarrow> node_channels \<Rightarrow> nc_event \<Rightarrow> node_channels option" where
  "nc_exec md s (NcRegister r) = Some (s\<lparr>nodeRegistry := fst (Register (nodeRegistry s) r)\<rparr>)"
| "nc_exec md s (NcOpen ch) = (case nc_open s md of Some (c, t) \<Rightarrow> if c = ch then Some t else None | None \<Rightarrow> None)"
| "nc_exec md s (NcNotify i m) = (case nc_notify s i of Some (x, t) \<Rightarrow> if x = m then Some t else None | None \<Rightarrow> None)"
| "nc_exec md s (NcClient i m) = nc_client s i m"
| "nc_exec md s (NcClose i) = nc_close s i"
| "nc_exec md s (NcForward i ch m) =
     (case nc_forward s i of Some (c, x, t) \<Rightarrow> if c = ch \<and> x = m then Some t else None | None \<Rightarrow> None)"
| "nc_exec md s (NcDone i) = nc_done s i"
| "nc_exec md s (NcListen e) =
     (if listener_event e then map_option (\<lambda>b. s\<lparr>nodeBroker := b\<rparr>) (broker_exec (nodeBroker s) e) else None)"

interpretation ncx: step_executor nc_step "nc_exec md" for md
proof
  fix s e t
  assume "nc_exec md s e = Some t"
  then show "nc_step s e t"
    by (cases e) (auto intro: nc_step.intros brx.exec_step split: option.splits prod.splits if_splits)
qed

section \<open>The broker's part of a run\<close>

fun broker_events :: "nc_event \<Rightarrow> DeploymentConfiguration broker_event list" where
  "broker_events (NcOpen ch) = [EvRead ch]"
| "broker_events (NcNotify i m) = [EvWrite m]"
| "broker_events (NcClient i m) = [EvWrite m]"
| "broker_events (NcForward i ch m) = [EvRecv ch m]"
| "broker_events (NcListen e) = [e]"
| "broker_events e = []"

definition broker_trace :: "nc_event list \<Rightarrow> DeploymentConfiguration broker_event list" where
  "broker_trace tr = concat (map broker_events tr)"

fun client_messages :: "nc_event list \<Rightarrow> DeploymentConfiguration list" where
  "client_messages [] = []"
| "client_messages (NcClient i m # tr) = m # client_messages tr"
| "client_messages (e # tr) = client_messages tr"

text \<open>
  Every stream reads its own channel, belongs to a registered node and has no notification to write.
\<close>

definition nc_inv :: "node_channels \<Rightarrow> bool" where
  "nc_inv s \<longleftrightarrow> length (streams s) = length (chans (nodeBroker s)) \<and>
     (\<forall>i < length (streams s). chRead (streams s ! i) = i \<and> unwritten (streams s ! i) = [] \<and>
        streamHost (streams s ! i) \<in> Host ` set (nodes (nodeRegistry s)))"

lemma broker_trace_snoc [simp]: "broker_trace (tr @ [e]) = broker_trace tr @ broker_events e"
  by (simp add: broker_trace_def)

lemma client_messages_append [simp]: "client_messages (xs @ ys) = client_messages xs @ client_messages ys"
  by (induction xs rule: client_messages.induct) auto

lemma nc_open_Some:
  assumes "nc_open s md = Some (ch, t)"
  obtains b st where "Broker_Read (nodeBroker s) = Some (ch, b)" "t = s\<lparr>nodeBroker := b, streams := streams s @ [st]\<rparr>"
    "chRead st = ch" "unwritten st = []" "forwarded st = []" "streamHost st \<in> Host ` set (nodes (nodeRegistry s))"
proof -
  obtain h b where h: "OpenChannel_check (nodeRegistry s) md = Inr h" and b: "Broker_Read (nodeBroker s) = Some (ch, b)"
    using assms by (auto simp: nc_open_def split: sum.splits option.splits)
  from h obtain n i where "ValidateNodeID (nodeRegistry s) n = Inr i" "h = Host (nodes (nodeRegistry s) ! nat i)"
    by (auto simp: OpenChannel_check_def split: option.splits if_splits sum.splits)
  then have "h \<in> Host ` set (nodes (nodeRegistry s))"
    by (auto simp: ValidateNodeID_def split: sum.splits if_splits)
  with assms h b that show thesis by (auto simp: nc_open_def)
qed

lemma chans_length:
  assumes "broker_step b e b'" and "\<And>ch. e \<noteq> EvRead ch"
  shows "length (chans b') = length (chans b)"
  using assms by (cases rule: broker_step.cases) (auto simp: broker_ops)

lemma nc_inv_step: "nc_inv s \<Longrightarrow> nc_step s e t \<Longrightarrow> nc_inv t"
proof -
  assume inv: "nc_inv s" and "nc_step s e t"
  from this(2) show "nc_inv t"
  proof cases
    case (nc_opens md ch)
    from nc_opens(2) show ?thesis
      by (rule nc_open_Some) (use inv in \<open>auto simp: nc_inv_def Broker_Read_Some nth_append\<close>)
  next
    case (nc_listens e b)
    with inv chans_length [of "nodeBroker s" e b] show ?thesis
      by (cases e) (auto simp: nc_inv_def)
  next
    case (nc_forwards i ch m)
    with inv show ?thesis
      by (auto simp: nc_inv_def nc_forward_def chan_recv_Some nth_list_update split: if_splits option.splits)
  next
    case (nc_closes i)
    with inv show ?thesis
      by (auto simp: nc_inv_def nc_close_def Let_def nth_list_update split: if_splits)
  next
    case (nc_returns i)
    with inv show ?thesis
      by (auto simp: nc_inv_def nc_done_def nth_list_update split: if_splits)
  qed (use inv in \<open>auto simp: nc_inv_def nc_notify_def nc_client_def Broker_Write_Some Register_simp split: if_splits list.splits\<close>)
qed

interpretation nci: step_invariant nc_step nc_inv
  by unfold_locales (rule nc_inv_step)

lemma nc_inv_start [simp]: "nc_inv start_node_channels"
  by (simp add: nc_inv_def start_node_channels_def NewBroker_def)

lemma run_read: "Broker_Read b = Some (ch, b') \<Longrightarrow> run broker_step b [EvRead ch] b'"
  by (rule run_single) (rule broker_step.read)

lemma run_write: "Broker_Write b m = Some b' \<Longrightarrow> run broker_step b [EvWrite m] b'"
  by (rule run_single) (auto intro: broker_step.intros)

lemma run_recv: "chan_recv b ch = Some (m, b') \<Longrightarrow> run broker_step b [EvRecv ch m] b'"
  by (rule run_single) (rule broker_step.recv)

text \<open>What one step means for the broker, for the messages written and for those forwarded.\<close>

lemma nc_step_broker:
  assumes "nc_inv s" and "nc_step s e t"
  shows "run broker_step (nodeBroker s) (broker_events e) (nodeBroker t) \<and>
    written (broker_events e) = client_messages [e] \<and>
    (\<forall>i < length (streams s). forwarded (streams t ! i) = forwarded (streams s ! i) @ received i (broker_events e)) \<and>
    (\<forall>i. length (streams s) \<le> i \<and> i < length (streams t) \<longrightarrow> forwarded (streams t ! i) = [] \<and> received i (broker_events e) = [])"
  using assms(2)
proof cases
  case (nc_opens md ch)
  from nc_opens(2) show ?thesis
    by (rule nc_open_Some) (use nc_opens(1) in \<open>auto simp: nth_append intro: run_read\<close>)
next
  case (nc_listens e b)
  then show ?thesis by (cases e) (auto intro: run_single)
next
  case (nc_forwards i ch m)
  with assms(1) show ?thesis
    by (auto simp: nc_inv_def nc_forward_def nth_list_update intro: run_recv split: if_splits option.splits)
next
  case (nc_writes i m)
  then show ?thesis by (auto simp: nc_client_def intro: run_write split: if_splits)
next
  case (nc_notifies i m)
  with assms(1) show ?thesis by (auto simp: nc_inv_def nc_notify_def split: if_splits)
qed (auto simp: nc_close_def nc_done_def Let_def nth_list_update split: if_splits)

lemma nc_run_broker:
  "run nc_step start_node_channels tr s \<Longrightarrow>
     run broker_step NewBroker (broker_trace tr) (nodeBroker s) \<and> written (broker_trace tr) = client_messages tr \<and>
     (\<forall>i < length (streams s). forwarded (streams s ! i) = received i (broker_trace tr))"
proof (induction rule: run.induct)
  case (run_snoc tr s e t)
  have inv: "nc_inv s" using run_snoc.hyps(1) by (rule nci.run_inv) simp
  note step = nc_step_broker [OF inv run_snoc.hyps(2)]
  have br: "run broker_step NewBroker (broker_trace tr) (nodeBroker s)" using run_snoc.IH by simp
  have fresh: "received i (broker_trace tr) = []" if "length (streams s) \<le> i" for i
  proof -
    have "EvAccept i \<notin> set (broker_trace tr)"
      using run_accepted [OF br, of i] inv that by (auto simp: nc_inv_def)
    from run_idle [OF br this] show ?thesis by (simp add: channel_idle_def)
  qed
  have "forwarded (streams t ! i) = received i (broker_trace (tr @ [e]))" if "i < length (streams t)" for i
    using step run_snoc.IH fresh [of i] that by (cases "i < length (streams s)") auto
  with step run_snoc.IH run_trans [OF _ br] show ?case by auto
qed (simp add: start_node_channels_def broker_trace_def)

text \<open>A stream forwards messages of the clients, in their order.\<close>

lemma forwarded_subseq:
  assumes "run nc_step start_node_channels tr s" and "i < length (streams s)"
  shows "subseq (forwarded (streams s ! i)) (client_messages tr)"
proof -
  have inv: "nc_inv s" using assms(1) by (rule nci.run_inv) simp
  from nc_run_broker [OF assms(1)] assms(2)
  have br: "run broker_step NewBroker (broker_trace tr) (nodeBroker s)" and w: "written (broker_trace tr) = client_messages tr"
    and f: "forwarded (streams s ! i) = received i (broker_trace tr)" by auto
  have "subseq (received i (broker_trace tr) @ chans (nodeBroker s) ! i) (client_messages tr)"
    using run_delivered_written [OF br, of i] inv assms(2) w by (auto simp: nc_inv_def)
  then show ?thesis using f by (metis subseq_order.trans subseq_rev_drop_many subseq_order.refl)
qed

lemma client_messages_mem: "m \<in> set (client_messages tr) \<longleftrightarrow> (\<exists>i. NcClient i m \<in> set tr)"
  by (induction tr rule: client_messages.induct) auto

section \<open>Properties\<close>

text \<open>
  C8. What is forwarded on a node's stream are messages of the nodes in the order in which they were
  written, none twice and none made up; every stream belongs to a registered node; and a stream that
  does not fall more than its buffer behind gets every message that is relayed after its channel was
  accepted, its own included.
\<close>

theorem node_streams_deliver:
  assumes "run nc_step start_node_channels tr s" and "i < length (streams s)"
  shows "subseq (forwarded (streams s ! i)) (client_messages tr) \<and>
    streamHost (streams s ! i) \<in> Host ` set (nodes (nodeRegistry s)) \<and>
    (EvAccept i \<in> set (broker_trace tr) \<and> keeps_up i (broker_trace tr) \<longrightarrow>
       forwarded (streams s ! i) @ chans (nodeBroker s) ! i = relayed (since_accept i (broker_trace tr)))"
proof -
  have inv: "nc_inv s" using assms(1) by (rule nci.run_inv) simp
  from nc_run_broker [OF assms(1)] assms(2)
  have br: "run broker_step NewBroker (broker_trace tr) (nodeBroker s)" and f: "forwarded (streams s ! i) = received i (broker_trace tr)" by auto
  have "EvAccept i \<in> set (broker_trace tr) \<and> keeps_up i (broker_trace tr) \<longrightarrow>
      forwarded (streams s ! i) @ chans (nodeBroker s) ! i = relayed (since_accept i (broker_trace tr))"
    using run_delivered_exactly [OF br, of i] f by auto
  with forwarded_subseq [OF assms] show ?thesis using inv assms(2) by (auto simp: nc_inv_def)
qed

definition example_message :: DeploymentConfiguration where
  "example_message = \<lparr>Json = ''{}'', StateType = STATE_TYPE_ACTUAL\<rparr>"

definition example_session :: "DeploymentConfiguration \<Rightarrow> nc_event list" where
  "example_session m = [NcListen EvStart, NcRegister example_request, NcOpen 0, NcListen (EvAccept 0), NcClient 0 m,
     NcListen (EvRelay m), NcForward 0 0 m]"

lemma example_session_run:
  "\<exists>s. run nc_step start_node_channels (example_session m) s \<and> 0 < length (streams s) \<and> forwarded (streams s ! 0) = [m]"
proof -
  have v: "ValidateNodeID \<lparr>nodes = [\<lparr>Host = ''hpc-1'', Port = 8000\<rparr>]\<rparr> ''node-0'' = Inr 0"
    using example_registry_valid by (simp add: example_registry_def)
  obtain s where "exec_all (nc_exec (Some [''node-0''])) start_node_channels (example_session m) = Some s"
    "0 < length (streams s)" "forwarded (streams s ! 0) = [m]"
    by (simp add: example_session_def start_node_channels_def example_request_def nc_open_def nc_client_def nc_forward_def
        Register_simp NewNodeRegistryServer_def OpenChannel_check_def v broker_eval)
  then show ?thesis using ncx.exec_all_run by blast
qed

theorem node_streams_deliver_witness:
  "\<exists>s. run nc_step start_node_channels (example_session example_message) s \<and> 0 < length (streams s) \<and>
     forwarded (streams s ! 0) = [example_message] \<and> subseq (forwarded (streams s ! 0)) (client_messages (example_session example_message))"
proof -
  obtain s where s: "run nc_step start_node_channels (example_session example_message) s" "0 < length (streams s)" "forwarded (streams s ! 0) = [example_message]"
    using example_session_run by blast
  from node_streams_deliver [OF s(1,2)] s show ?thesis by auto
qed

end
