(* ===== verification/Mesh.thy ===== *)
theory Mesh
  imports Control_Plane_Process Orchestrator_Run Central_Node Docker_Round Node_Channel
begin

text \<open>
  The processes together, and what a node that registers with the control plane can rely on. The
  identifier that the registry returns is the one the orchestrator writes into the bootstrap message of its Envoy and the one
  under which the xDS server keeps the snapshot of the node; what a node reports is what the central node records; and what arrives on the
  stream of a node is what another node wrote, and what its engine then runs.
\<close>

section \<open>A control plane without services\<close>

definition snapshot_cached :: "('any, 'snap, string \<rightharpoonup> 'snap) xds_env \<Rightarrow> Config \<Rightarrow> (string \<rightharpoonup> 'snap) \<Rightarrow> string \<Rightarrow> bool" where
  "snapshot_cached env conf c nodeID \<longleftrightarrow>
     (\<exists>snap v ls. c nodeID = Some snap \<and> makeHTTPListener env conf = Inr ls \<and>
        NewSnapshot env v \<lparr>ClusterType = [], RouteType = makeRoutes [] nodeID, ListenerType = ls\<rparr> = Inr snap)"

definition without_services :: "('any, 'snap, string \<rightharpoonup> 'snap) xds_env \<Rightarrow> Config \<Rightarrow> (string \<rightharpoonup> 'snap) control_plane \<Rightarrow> bool" where
  "without_services env conf s \<longleftrightarrow>
     pendingUpdates s = 0 \<and> servicesLoop s = Waiting \<and> \<not> shared s \<and> \<not> crashed s \<and> nodesLoop s \<noteq> Stopped \<and> cp_inv s \<and>
     (\<forall>i < length (xnodes (xds s)). snapshot_cached env conf (cache (xds s)) (generateNodeID (int i)))"

lemma without_services_start: "without_services env conf (start_control_plane Map.empty)"
  using cp_inv_start [of Map.empty] by (simp add: without_services_def start_control_plane_def NewServer_def)

lemma without_services_step:
  assumes work: "snapshots_work env conf" and inv: "without_services env conf s" and step: "cp_step env conf s e t" and e: "announcements [e] = 0"
  shows "without_services env conf t"
proof -
  have t: "cp_inv t" using cpi.step_inv step inv by (auto simp: without_services_def)
  from step show ?thesis
  proof (cases rule: cp_step.cases)
    case (add_node ordC ordR)
    then obtain a where a: "nodesLoop s = Holding a" by (auto elim: cp_add_node_Some)
    let ?x = "(xds_view s)\<lparr>xnodes := xnodes (xds s) @ [a]\<rparr>"
    have "xservices (xds_view s) = Map.empty" using inv by (simp add: without_services_def xds_view_def)
    then have none: "offers (ordC i) = {}" "offers (ordR i) = {}" for i
      using add_node(3) offers_bundles by (auto simp: orders_of_def bundles_def)
    obtain ls where ls: "makeHTTPListener env conf = Inr ls" using work by (auto simp: snapshots_work_def)
    have "keeps_last_snapshot env" "\<And>v r. \<exists>snap. NewSnapshot env v r = Inr snap" using work by (auto simp: snapshots_work_def)
    from generateSnapshots_ok [of ordC ordR env conf ls _ ?x, OF none ls this(1) refl this(2)]
    obtain v c where g: "generateSnapshots env conf ordC ordR ?x = Ret (?x\<lparr>snapshotVersion := v, cache := c\<rparr>, None)"
      and c: "\<forall>i < length (xnodes ?x). snapshot_cached env conf c (generateNodeID (int i))"
      unfolding snapshot_cached_def using ls by blast
    with add_node(4) a have "t = s\<lparr>xds := ?x\<lparr>snapshotVersion := v, cache := c\<rparr>, nodesLoop := Waiting\<rparr>"
      by (simp add: cp_add_node_def Let_def)
    with c inv t show ?thesis by (simp add: without_services_def)
  next
    case (set_services ordC ordR)
    with inv show ?thesis by (auto simp: without_services_def elim: cp_set_services_Some)
  qed (use inv e t in \<open>auto simp: without_services_def cp_register_simp cp_recv_node_Some cp_recv_services_Some\<close>)
qed

lemma without_services_run:
  "run (cp_step env conf) s tr t \<Longrightarrow> snapshots_work env conf \<Longrightarrow> announcements tr = 0 \<Longrightarrow> without_services env conf s \<Longrightarrow> without_services env conf t"
  by (induction rule: run.induct) (auto intro: without_services_step)

lemma nodes_grow: "run (cp_step env conf) s tr t \<Longrightarrow> length (nodes (registry s)) \<le> length (nodes (registry t))"
proof (induction rule: run.induct)
  case (run_snoc tr t e u)
  from run_snoc.hyps(2) have "length (nodes (registry t)) \<le> length (nodes (registry u))"
    by (cases rule: cp_step.cases)
      (auto simp: cp_register_simp cp_recv_node_Some cp_announce_Some cp_recv_services_Some elim: cp_add_node_Some cp_set_services_Some)
  with run_snoc.IH show ?case by simp
qed simp

section \<open>Properties\<close>

text \<open>
  C10. The Envoy of a node finds its configuration: however registrations and the goroutine of the xDS server interleave, as long as no service
  has been announced, once nothing is under way the xDS server has a snapshot under the identifier that the bootstrap message of
  the node's Envoy carries, with the routes of this node and the listeners of the configuration.
\<close>

theorem envoy_finds_its_snapshot:
  assumes "snapshots_work env conf"
    and "run (cp_step env conf) (start_control_plane Map.empty) tr s" and "announcements tr = 0"
    and "Register (registry s) r = (reg, addr, resp)"
    and "run (cp_step env conf) (cp_register s r) tr' t" and "announcements tr' = 0"
    and "pendingNodes t = []" and "nodesLoop t = Waiting"
    and "EnvoyBootstrapConfigWithNodeID anypb c (Id resp) = Ret bootstrap"
  shows "\<exists>snap v ls. cache (xds t) (NodeId bootstrap) = Some snap \<and> makeHTTPListener env conf = Inr ls \<and>
    NewSnapshot env v \<lparr>ClusterType = [], RouteType = makeRoutes [] (Id resp), ListenerType = ls\<rparr> = Inr snap"
proof -
  let ?n = "length (nodes (registry s))"
  have s: "without_services env conf s" using without_services_run [OF assms(2,1,3) without_services_start] .
  have "cp_step env conf s (CpRegister r) (cp_register s r)" using s by (auto simp: without_services_def intro: cp_step.register)
  then have "without_services env conf (cp_register s r)" by (rule without_services_step [OF assms(1) s]) simp
  from without_services_run [OF assms(5,1,6) this] have t: "without_services env conf t" .
  then have "mset (nodes (registry t)) = mset (xnodes (xds t))"
    using assms(7,8) by (simp add: without_services_def cp_inv_def nodes_accounted_def held_def)
  then have "?n < length (xnodes (xds t))"
    using nodes_grow [OF assms(5)] mset_eq_length by (fastforce simp: cp_register_simp)
  with t have "snapshot_cached env conf (cache (xds t)) (generateNodeID (int ?n))" by (simp add: without_services_def)
  moreover have "Id resp = generateNodeID (int ?n)"
    using assms(4) by (auto simp: Register_simp generateNodeID_def strconv_Itoa_def)
  moreover have "NodeId bootstrap = Id resp"
    using assms(9) by (auto simp: EnvoyBootstrapConfigWithNodeID_def split: outcome.splits)
  ultimately show ?thesis by (auto simp: snapshot_cached_def)
qed

theorem envoy_finds_its_snapshot_witness:
  "\<exists>t snap. run (cp_step example_env (Default ''hpc-1'')) (cp_register (start_control_plane Map.empty) example_request)
       [CpRecvNode \<lparr>Host = ''hpc-1'', Port = 8000\<rparr>, CpAddNode] t \<and> cache (xds t) ''node-0'' = Some snap"
proof -
  let ?env = example_env and ?conf = "Default ''hpc-1''" and ?s = "start_control_plane Map.empty"
  let ?r = "cp_register ?s example_request" and ?a = "\<lparr>Host = ''hpc-1'', Port = 8000\<rparr>"
  have reg: "Register (registry ?s) example_request = (registry ?r, ?a, \<lparr>Id = ''node-0''\<rparr>)"
    by (simp add: Register_simp cp_register_simp start_control_plane_def NewNodeRegistryServer_def example_request_def itoa_nat.simps digit_char_def)
  obtain b where b: "EnvoyBootstrapConfigWithNodeID (anypb_New ?env) ?conf (Id \<lparr>Id = ''node-0''\<rparr>) = Ret b" "NodeId b = ''node-0''"
    by (simp add: EnvoyBootstrapConfigWithNodeID_def HTTP2ProtocolOptions_def example_env_def)
  let ?h = "?r\<lparr>pendingNodes := [], nodesLoop := Holding ?a\<rparr>"
  have "\<not> crashed ?h" "\<not> shared ?h" "nodesLoop ?h = Holding ?a" by (simp_all add: cp_register_simp start_control_plane_def)
  from cp_exec_add_node [OF example_snapshots_work this] obtain t where
    add: "cp_exec ?env ?conf [] ?h CpAddNode = Some t" and idle: "pendingNodes t = []" "nodesLoop t = Waiting" by auto
  have "cp_exec ?env ?conf [] ?r (CpRecvNode ?a) = Some ?h"
    by (simp add: cp_exec_def cp_recv_node_def cp_register_simp start_control_plane_def example_request_def)
  with add have "exec_all (cp_exec ?env ?conf []) ?r [CpRecvNode ?a, CpAddNode] = Some t" by simp
  note run = cpx.exec_all_run [OF this]
  from envoy_finds_its_snapshot [OF example_snapshots_work run_nil _ reg run _ idle b(1)] run b(2) show ?thesis by auto
qed

text \<open>
  C11. What a node reports is what the central node records: the text that a tick sends on the node channel, read by the goroutine of the actual states on the
  central node, sets the state of exactly this node to running with exactly the images of its managed containers that are up, forces no difference, and is
  written to the file of actual states, where only a transition under way takes precedence.
\<close>

theorem report_reaches_state_file:
  assumes "Containers m (runtime st) = Ret (Inr cs, w)" and "utf8_entries (report c cs)"
    and "ord_ok ord" and "config_utf8 ga" and "fst (DeploymentConfigFromJSON f) = Some prev"
    and "node = \<lparr>State = NodeStateRunning, Images = Some (map image_ref (running_images cs))\<rparr>"
  shows "\<exists>msg j. tick c m st = Ret (True, st\<lparr>runtime := w, nodeSent := nodeSent st @ [msg]\<rparr>) \<and>
    actual_recv ord (Inr f) msg ga = Ret (ga(NodeHostname c \<mapsto> node), 0, Some j) \<and>
    DeploymentConfigFromJSON j = (Some (merged_states prev (ga(NodeHostname c \<mapsto> node))), None)"
proof -
  have rep: "report c cs = [(NodeHostname c, node)]"
    by (simp add: report_def assms(6) keep_loop_eq ExtractImageList_map running_images_def)
  define j where "j = json_indent 0 (JObj [(NodeHostname c, json_of_NodeConfig node)])"
  have j: "DeploymentConfigFromJSON j = (Some [NodeHostname c \<mapsto> node], None)"
    unfolding j_def by (rule single_config_read) (use assms(2) rep in simp)
  let ?msg = "\<lparr>Json = j, StateType = STATE_TYPE_ACTUAL\<rparr>"
  have tick: "tick c m st = Ret (True, st\<lparr>runtime := w, nodeSent := nodeSent st @ [?msg]\<rparr>)"
    using assms(1) by (simp add: tick_def lift_app_def rep DeploymentConfig_JSON_def j_def send_config_def)
  have over: "take_over [NodeHostname c \<mapsto> node] ga = ga(NodeHostname c \<mapsto> node)"
    by (auto simp: take_over_def fun_eq_iff assms(6))
  have "range_of (ord 0 [NodeHostname c \<mapsto> node]) [NodeHostname c \<mapsto> node]" using assms(3) by (simp add: ord_ok_def)
  from range_of_single [OF this] have "ord 0 [NodeHostname c \<mapsto> node] = [(NodeHostname c, node)]" by simp
  then have "snd (receive_config (ord 0 [NodeHostname c \<mapsto> node]) ga) = 0"
    by (simp add: receive_config_diffs assms(6) go_data)
  moreover obtain j' where "actual_recv ord (Inr f) ?msg ga =
      Ret (ga(NodeHostname c \<mapsto> node), snd (receive_config (ord 0 [NodeHostname c \<mapsto> node]) ga), Some j')"
    "DeploymentConfigFromJSON j' = (Some (merged_states prev (ga(NodeHostname c \<mapsto> node))), None)"
    using actual_recv_merges [OF assms(3,4), of ?msg "Some [NodeHostname c \<mapsto> node]" "Inr f" prev] j assms(5) over by (auto simp: entries_of_def)
  ultimately show ?thesis using tick by auto
qed

theorem report_reaches_state_file_witness:
  "\<exists>msg j. tick (Default ''hpc-1'') app_docker \<lparr>runtime = None, announced = [], nodeSent = []\<rparr> =
       Ret (True, \<lparr>runtime = None, announced = [], nodeSent = [msg]\<rparr>) \<and>
     actual_recv by_name (Inr report_text) msg Map.empty = Ret ([''hpc-1'' \<mapsto> running_node], 0, Some j)"
proof -
  have l: "Containers app_docker (runtime \<lparr>runtime = None, announced = [], nodeSent = []\<rparr>) = Ret (Inr [], None)" by (simp add: app_list)
  have h: "NodeHostname (Default ''hpc-1'') = ''hpc-1''" by (simp add: Default_def)
  have u: "utf8_entries (report (Default ''hpc-1'') [])"
    by (simp add: utf8_entries_def report_def h image_list_def keep_loop_eq ExtractImageList_def go_data utf8_len_def byte_in_def)
  have e: "config_utf8 Map.empty" by (simp add: config_utf8_def)
  have p: "fst (DeploymentConfigFromJSON report_text) = Some [''hpc-1'' \<mapsto> running_node]" by (simp add: report_text_read)
  have n: "running_node = \<lparr>State = NodeStateRunning, Images = Some (map image_ref (running_images []))\<rparr>"
    by (simp add: running_node_def running_images_def)
  from report_reaches_state_file [OF l u by_name_ok e p n] h show ?thesis by auto
qed

section \<open>From the node channels to the engine\<close>

lemma receive_main_snoc:
  "receive_main parse o' (map RecvMsg (ms @ [m])) st =
     (case receive_main parse o' (map RecvMsg ms) st of
        Panic \<Rightarrow> Panic
      | Ret (True, st) \<Rightarrow> Ret (True, st)
      | Ret (False, st) \<Rightarrow> receive_main parse o' [RecvMsg m] st)"
  by (induction ms arbitrary: st) (auto split: prod.splits option.splits outcome.splits bool.splits)

text \<open>
  C12. A configuration travels from the node channel into the engine of a node: what the node received last was written by a node to its channel, unchanged. And once the node has processed it, with
  calls that all succeed, its engine runs exactly the images the configuration asks this node for, and Envoy, if the images asked for have different names, the managed containers that ran before it have images of different
  names (\<open>one_each\<close>), the engine finds no other running container for their images (\<open>separate\<close>), and no other version of a running Envoy is asked for.
\<close>

theorem received_configuration_is_deployed:
  assumes "run nc_step start_node_channels tr s" and "i < length (streams s)" and "forwarded (streams s ! i) = pre @ [msg]"
    and "DeploymentConfigFromJSON (Json msg) = (Some dc, None)" and "dc (NodeHostname c) = Some node"
    and "qualify_loop parse (DefaultContainerRegistryDomain c) (map ParseImageName (image_list node)) = Ret (Inr new)" and "distinct (map Name new)"
    and "engine_laws anc conts cl" and "summary_law conts cl" and "unreserved_names conts cl"
    and "receive_main parse (docker_app c untar cl) (map RecvMsg pre) st0 = Ret (False, st)"
    and "one_each (engine_of conts st)" and "separate anc (engine_of conts st)"
    and "\<forall>i \<in> ran (deployed (engine_of conts st)). is_envoy i \<longrightarrow> i \<in> set new \<or> Name i \<notin> Name ` set new"
    and "receive_main parse (docker_app c untar cl) (map RecvMsg (forwarded (streams s ! i))) st0 = Ret (False, st')"
    and "\<forall>e \<in> set (snd (runtime st')). call_ok e"
  shows "(\<exists>j. NcClient j msg \<in> set tr) \<and>
    ran (deployed (engine_of conts st')) = set new \<union> {i \<in> ran (deployed (engine_of conts st)). is_envoy i}"
proof -
  have "msg \<in> set (client_messages tr)"
    using list_emb_set [OF forwarded_subseq [OF assms(1,2)], of msg] assms(3) by auto
  moreover have "receive_main parse (docker_app c untar cl) [RecvMsg msg] st = Ret (False, st')"
    using assms(15) by (simp only: assms(3) receive_main_snoc assms(11)) simp
  then obtain err where run: "process parse (docker_app c untar cl) dc st = Ret (err, st')"
    using assms(4) by (auto simp: process_and_log_def entries_of_def split: outcome.splits)
  moreover have "err = None" by (rule docker_process_ok [where dc = dc, OF assms(5,6) run assms(16)])
  ultimately show ?thesis
    using docker_round [where dc = dc, OF assms(8-10,5-7,12-14) _ assms(16)] by (auto simp: client_messages_mem)
qed

theorem received_configuration_is_deployed_witness:
  "\<exists>m s st'. run nc_step start_node_channels (example_session m) s \<and>
     receive_main example_parser (docker_app (Default ''hpc-1'') plain_file rack_client) (map RecvMsg (forwarded (streams s ! 0)))
       (example_app (example_rack ''gcr.io/db:1'' ''gcr.io/old:1'')) = Ret (False, st') \<and>
     ran (deployed (rack_conts (fst (runtime st')))) = {app1}"
proof -
  let ?node = "\<lparr>State = NodeStateRunning, Images = Some [''gcr.io/app:1'']\<rparr>" and ?dc = "example_deployment ''gcr.io/app:1''"
  let ?st = "example_app (example_rack ''gcr.io/db:1'' ''gcr.io/old:1'')" and ?o = "docker_app (Default ''hpc-1'') plain_file rack_client"
  define m where "m = \<lparr>Json = json_indent 0 (JObj [(''hpc-1'', json_of_NodeConfig ?node)]), StateType = STATE_TYPE_DESIRED\<rparr>"
  have read: "DeploymentConfigFromJSON (Json m) = (Some ?dc, None)"
    unfolding m_def example_deployment_def DeploymentConfiguration.select_convs
    by (rule single_config_read) (simp add: utf8_entries_def image_list_def go_data utf8_len_def byte_in_def)
  obtain s where s: "run nc_step start_node_channels (example_session m) s" "0 < length (streams s)" "forwarded (streams s ! 0) = [] @ [m]"
    using example_session_run [of m] by auto
  obtain st' where run: "process example_parser ?o ?dc ?st = Ret (None, st')" and ok: "\<forall>e \<in> set (snd (runtime st')). call_ok e"
    using rack_replaced by blast
  have before: "receive_main example_parser ?o (map RecvMsg []) ?st = Ret (False, ?st)" by simp
  have after: "receive_main example_parser ?o (map RecvMsg (forwarded (streams s ! 0))) ?st = Ret (False, st')"
    using run by (simp add: s(3) read process_and_log_def entries_of_def)
  have "ran (deployed (rack_conts (fst (runtime st')))) = set [app1] \<union> {i \<in> ran [''a'' \<mapsto> old1]. is_envoy i}"
    using received_configuration_is_deployed [where dc = ?dc, OF s read rack_node rack_new _ rack_engine rack_summaries rack_names before rack_start after ok]
    unfolding rack_deployed by simp
  also have "\<dots> = {app1}" using example_images(4) by auto
  finally show ?thesis using s(1) after by blast
qed

end
