(* ===== verification/Status_Manager.thy ===== *)
theory Status_Manager
  imports Config_New Docker_Manager
begin

text \<open>
  The status manager, \<^verbatim>\<open>cmd/carisma-status-manager/app/app.go\<close>: a web server that shows the containers of a node and starts and stops them.
  A web socket has three goroutines: one sends the list of containers, one reads commands, one sends pings. What the socket
  answers is the input of their loops.
\<close>

section \<open>Model\<close>

definition ErrCloseSent :: go_error where "ErrCloseSent = ExternalError ''websocket: close sent''"

record message =
  Action :: string
  MsgID :: string

definition json_of_Container :: "Container \<Rightarrow> json" where
  "json_of_Container c =
     JObj [(''ID'', JStr (ID c)), (''FirstName'', JStr (FirstName c)), (''Image'', JStr (ImageName c)), (''Ports'', JStr (Ports c)),
           (''Status'', JStr (Status c))]"

text \<open>
  \<open>nilSlice\<close>: whether the manager returns a nil slice when there are no containers, as the Docker manager does and the debug
  manager does not; JSON writes it as \<^verbatim>\<open>null\<close>.
\<close>

definition status_text :: "bool \<Rightarrow> Container list \<Rightarrow> string" where
  "status_text nilSlice cs =
     json_indent 0 (if cs = [] \<and> nilSlice then JNull else JArr (map json_of_Container cs))"

text \<open>
  One sending: the error that ends the goroutine, if any, the text handed to the socket, if any, and the manager's state. \<open>writeErr\<close> is what
  the socket answers.
\<close>

definition sendContainerList :: "bool \<Rightarrow> 'w Manager \<Rightarrow> go_error option \<Rightarrow> 'w \<Rightarrow> (go_error option \<times> string option \<times> 'w) outcome" where
  "sendContainerList nilSlice m writeErr w =
     (case Containers m w of
        Panic \<Rightarrow> Panic
      | Ret (Inl err, w) \<Rightarrow> Ret (None, None, w)
      | Ret (Inr cs, w) \<Rightarrow>
          (let text = status_text nilSlice cs in
           case writeErr of
             Some err \<Rightarrow> if err = ErrCloseSent then Ret (None, Some text, w) else Ret (Some err, Some text, w)
           | None \<Rightarrow> Ret (None, Some text, w)))"

text \<open>The first sending and one per tick; whether the goroutine still runs.\<close>

fun sendStatus :: "bool \<Rightarrow> 'w Manager \<Rightarrow> go_error option list \<Rightarrow> 'w \<Rightarrow> (bool \<times> string list \<times> 'w) outcome" where
  "sendStatus nilSlice m [] w = Ret (True, [], w)"
| "sendStatus nilSlice m (writeErr # ticks) w =
     (case sendContainerList nilSlice m writeErr w of
        Panic \<Rightarrow> Panic
      | Ret (Some err, text, w) \<Rightarrow> Ret (False, (case text of None \<Rightarrow> [] | Some t \<Rightarrow> [t]), w)
      | Ret (None, text, w) \<Rightarrow>
          (case sendStatus nilSlice m ticks w of
             Panic \<Rightarrow> Panic
           | Ret (running, texts, w) \<Rightarrow> Ret (running, (case text of None \<Rightarrow> [] | Some t \<Rightarrow> [t]) @ texts, w)))"

text \<open>The pings: every error ends the goroutine.\<close>

fun sendPing :: "go_error option list \<Rightarrow> bool" where
  "sendPing [] = True"
| "sendPing (Some err # ticks) = False"
| "sendPing (None # ticks) = sendPing ticks"

definition decode_message :: "message decoder" where
  "decode_message =
     decode_struct [''Action'', ''ID''] (\<lambda>f j m.
       if f = ''Action'' then (let (s, e) = decode_string j (Action m) in (m\<lparr>Action := s\<rparr>, e))
       else (let (s, e) = decode_string j (MsgID m) in (m\<lparr>MsgID := s\<rparr>, e)))"

text \<open>
  \<^verbatim>\<open>strings.ToLower\<close> is only compared with two words of ASCII letters none of which is the lower case of another
  character than its capital, so lowering the letters of ASCII is enough.
\<close>

definition handle_message :: "'w Manager \<Rightarrow> string \<Rightarrow> 'w \<Rightarrow> 'w outcome" where
  "handle_message m msgContent w =
     (case json_Unmarshal decode_message msgContent \<lparr>Action = [], MsgID = []\<rparr> of
        (msg, Some err) \<Rightarrow> Ret w
      | (msg, None) \<Rightarrow>
          (if map to_lower (Action msg) = ''start''
           then (case StartContainer m (MsgID msg) w of Panic \<Rightarrow> Panic | Ret (err, w) \<Rightarrow> Ret w)
           else if map to_lower (Action msg) = ''stop''
           then (case StopContainer m (MsgID msg) w of Panic \<Rightarrow> Panic | Ret (err, w) \<Rightarrow> Ret w)
           else Ret w))"

fun readMessages :: "'w Manager \<Rightarrow> (go_error + string) list \<Rightarrow> 'w \<Rightarrow> (bool \<times> 'w) outcome" where
  "readMessages m [] w = Ret (True, w)"
| "readMessages m (Inl err # rs) w = Ret (False, w)"
| "readMessages m (Inr msgContent # rs) w =
     (case handle_message m msgContent w of Panic \<Rightarrow> Panic | Ret w \<Rightarrow> readMessages m rs w)"

text \<open>
  The index page: what is written to the response, the texts of errors included. A template that could not be parsed is nil, and executing it
  panics.
\<close>

definition handleIndex :: "(go_error \<Rightarrow> string) \<Rightarrow> go_error + 't \<Rightarrow> go_error + string \<Rightarrow> ('t \<Rightarrow> string \<Rightarrow> string \<times> go_error option) \<Rightarrow> string list outcome" where
  "handleIndex Error tmpl hostname execute =
     (case tmpl of
        Inl err \<Rightarrow> Panic
      | Inr t \<Rightarrow>
          (let e1 = (case hostname of Inl err \<Rightarrow> [Error err] | Inr _ \<Rightarrow> []);
               (page, err) = execute t (case hostname of Inl _ \<Rightarrow> [] | Inr h \<Rightarrow> h)
           in Ret (e1 @ [page] @ (case err of Some err \<Rightarrow> [Error err] | None \<Rightarrow> []))))"

text \<open>
  A connection: once the request is upgraded the three goroutines run beside each other on the socket and the manager. A step is one turn of one of their
  loops, with what the socket answers; the reader closes the socket when it ends.
\<close>

record 'w session =
  managed :: 'w
  shown :: "string list"
  statusRuns :: bool
  readRuns :: bool
  pingRuns :: bool
  wsClosed :: bool

datatype session_event = StatusTurn "go_error option" | ReadTurn "go_error + string" | PingTurn "go_error option"

definition handleWebSocket :: "go_error option \<Rightarrow> 'w \<Rightarrow> 'w session option" where
  "handleWebSocket upgradeErr w =
     (case upgradeErr of
        Some err \<Rightarrow> None
      | None \<Rightarrow> Some \<lparr>managed = w, shown = [], statusRuns = True, readRuns = True, pingRuns = True, wsClosed = False\<rparr>)"

fun session_step :: "bool \<Rightarrow> 'w Manager \<Rightarrow> 'w session \<Rightarrow> session_event \<Rightarrow> 'w session outcome" where
  "session_step nilSlice m s (StatusTurn writeErr) =
     (if \<not> statusRuns s then Ret s
      else case sendContainerList nilSlice m writeErr (managed s) of
             Panic \<Rightarrow> Panic
           | Ret (err, text, w) \<Rightarrow>
               Ret (s\<lparr>managed := w, shown := shown s @ (case text of None \<Rightarrow> [] | Some t \<Rightarrow> [t]), statusRuns := (err = None)\<rparr>))"
| "session_step nilSlice m s (ReadTurn r) =
     (if \<not> readRuns s then Ret s
      else case r of
             Inl err \<Rightarrow> Ret (s\<lparr>readRuns := False, wsClosed := True\<rparr>)
           | Inr msgContent \<Rightarrow>
               (case handle_message m msgContent (managed s) of Panic \<Rightarrow> Panic | Ret w \<Rightarrow> Ret (s\<lparr>managed := w\<rparr>)))"
| "session_step nilSlice m s (PingTurn err) = Ret (if pingRuns s then s\<lparr>pingRuns := (err = None)\<rparr> else s)"

fun session_run :: "bool \<Rightarrow> 'w Manager \<Rightarrow> 'w session \<Rightarrow> session_event list \<Rightarrow> 'w session outcome" where
  "session_run nilSlice m s [] = Ret s"
| "session_run nilSlice m s (e # es) =
     (case session_step nilSlice m s e of Panic \<Rightarrow> Panic | Ret s \<Rightarrow> session_run nilSlice m s es)"

text \<open>What \<^verbatim>\<open>Run\<close> does before it serves: it returns, ends the process or serves a manager at an address with its routes.\<close>

datatype manager_kind = DebugManager | DockerManager

datatype handler = Index | WebSocket | FileServer string

datatype route = HandleFunc string handler | PathPrefix string handler

datatype status_run = RunReturns | RunExits int | Serves manager_kind "route list" string

definition status_serve :: "manager_kind \<Rightarrow> go_error option \<Rightarrow> Config \<Rightarrow> status_run" where
  "status_serve kind subErr c =
     (case subErr of
        Some err \<Rightarrow> RunReturns
      | None \<Rightarrow>
          Serves kind [HandleFunc ''/'' Index, HandleFunc ''/ws'' WebSocket, PathPrefix ''/static/'' (FileServer ''static'')]
            ('':'' @ strconv_Itoa (StatusMgrPort c)))"

definition status_Run :: "new_result \<Rightarrow> go_error option \<Rightarrow> go_error option \<Rightarrow> status_run" where
  "status_Run config dockerErr subErr =
     (case config of
        ProcessExit code \<Rightarrow> RunExits code
      | NewError err \<Rightarrow> RunReturns
      | NewConfig c \<Rightarrow>
          (if EmulateContainerRuntime c then status_serve DebugManager subErr c
           else case dockerErr of
                  Some err \<Rightarrow> RunReturns
                | None \<Rightarrow> status_serve DockerManager subErr c))"

section \<open>Rules\<close>

text \<open>A manager that records what is started and stopped.\<close>

datatype command = StartCmd string | StopCmd string

definition logged :: "command \<Rightarrow> ('w \<Rightarrow> (go_error option \<times> 'w) outcome) \<Rightarrow> 'w \<times> command list \<Rightarrow> (go_error option \<times> 'w \<times> command list) outcome" where
  "logged cmd f wl = (case f (fst wl) of Panic \<Rightarrow> Panic | Ret (err, w) \<Rightarrow> Ret (err, w, snd wl @ [cmd]))"

definition logged_Manager :: "'w Manager \<Rightarrow> ('w \<times> command list) Manager" where
  "logged_Manager m =
     \<lparr>Containers = \<lambda>wl. (case Containers m (fst wl) of Panic \<Rightarrow> Panic | Ret (r, w) \<Rightarrow> Ret (r, w, snd wl)),
      StartContainer = \<lambda>cid. logged (StartCmd cid) (StartContainer m cid),
      StopContainer = \<lambda>cid. logged (StopCmd cid) (StopContainer m cid),
      PullImageAndCreateContainer = \<lambda>n args pb v wl.
        (case PullImageAndCreateContainer m n args pb v (fst wl) of Panic \<Rightarrow> Panic | Ret (r, w) \<Rightarrow> Ret (r, w, snd wl)),
      RemoveImageAndContainer = \<lambda>n v wl. (case RemoveImageAndContainer m n v (fst wl) of Panic \<Rightarrow> Panic | Ret (r, w) \<Rightarrow> Ret (r, w, snd wl)),
      Close = \<lambda>wl. (case Close m (fst wl) of Panic \<Rightarrow> Panic | Ret (err, w) \<Rightarrow> Ret (err, w, snd wl))\<rparr>"

text \<open>The command a message stands for.\<close>

definition command_of :: "string \<Rightarrow> command list" where
  "command_of msgContent =
     (case json_Unmarshal decode_message msgContent \<lparr>Action = [], MsgID = []\<rparr> of
        (msg, Some err) \<Rightarrow> []
      | (msg, None) \<Rightarrow>
          (if map to_lower (Action msg) = ''start'' then [StartCmd (MsgID msg)]
           else if map to_lower (Action msg) = ''stop'' then [StopCmd (MsgID msg)] else []))"

fun received :: "(go_error + string) list \<Rightarrow> string list" where
  "received (Inr s # rs) = s # received rs"
| "received rs = []"

lemma handle_message_logged:
  "handle_message (logged_Manager m) s (w, log) = Ret (w', log') \<Longrightarrow> log' = log @ command_of s"
  by (auto simp: handle_message_def command_of_def logged_Manager_def logged_def split: prod.splits option.splits if_splits outcome.splits)

lemma command_text:
  assumes "utf8_valid action" "utf8_valid cid" "field_of [''Action'', ''ID''] k1 = Some ''Action''" "field_of [''Action'', ''ID''] k2 = Some ''ID''"
    "utf8_valid k1" "utf8_valid k2"
  shows "command_of (json_indent 0 (JObj [(k1, JStr action), (k2, JStr cid)])) =
    (if map to_lower action = ''start'' then [StartCmd cid] else if map to_lower action = ''stop'' then [StopCmd cid] else [])"
proof -
  have "json_read (json_indent 0 (JObj [(k1, JStr action), (k2, JStr cid)])) = Some (JObj [(k1, JStr action), (k2, JStr cid)])"
    by (rule json_read_indent) (use assms in \<open>simp_all add: maxNestingDepth_def\<close>)
  then show ?thesis
    using assms(3,4) by (simp add: command_of_def json_Unmarshal_def decode_message_def decode_struct_def decode_string_def)
qed

text \<open>What the reader of a connection gets, whatever the other goroutines do in between.\<close>

fun reads_of :: "session_event list \<Rightarrow> (go_error + string) list" where
  "reads_of [] = []"
| "reads_of (ReadTurn r # es) = r # reads_of es"
| "reads_of (e # es) = reads_of es"

text \<open>Each goroutine of a connection behaves as its loop does on its own.\<close>

lemma session_reads_alone:
  "readRuns s \<Longrightarrow> session_run nilSlice m s (map ReadTurn rs) =
     (case readMessages m rs (managed s) of
        Panic \<Rightarrow> Panic
      | Ret (running, w) \<Rightarrow> Ret (s\<lparr>managed := w, readRuns := running, wsClosed := (wsClosed s \<or> \<not> running)\<rparr>))"
proof (induction rs arbitrary: s)
  case (Cons r rs)
  have stop: "\<not> readRuns s \<Longrightarrow> session_run nilSlice m s (map ReadTurn rs) = Ret s" for s :: "'a session" by (induction rs) auto
  show ?case
  proof (cases r)
    case (Inr msg)
    with Cons show ?thesis by (cases "handle_message m msg (managed s)") (auto split: outcome.splits)
  qed (use stop Cons.prems in simp)
qed simp

lemma session_status_alone:
  "statusRuns s \<Longrightarrow> session_run nilSlice m s (map StatusTurn ticks) =
     (case sendStatus nilSlice m ticks (managed s) of
        Panic \<Rightarrow> Panic
      | Ret (running, texts, w) \<Rightarrow> Ret (s\<lparr>managed := w, shown := shown s @ texts, statusRuns := running\<rparr>))"
proof (induction ticks arbitrary: s)
  case (Cons e ticks)
  have stop: "\<not> statusRuns s \<Longrightarrow> session_run nilSlice m s (map StatusTurn ticks) = Ret s" for s :: "'a session" by (induction ticks) auto
  show ?case
  proof (cases "sendContainerList nilSlice m e (managed s)")
    case (Ret r)
    obtain err out w where r: "r = (err, out, w)" by (cases r)
    with Ret Cons stop show ?thesis by (cases err) (auto split: outcome.splits)
  qed (use Cons.prems in simp)
qed simp

lemma session_pings_alone:
  "pingRuns s \<Longrightarrow> session_run nilSlice m s (map PingTurn ticks) = Ret (s\<lparr>pingRuns := sendPing ticks\<rparr>)"
proof (induction ticks arbitrary: s)
  case (Cons e ticks)
  have stop: "\<not> pingRuns s \<Longrightarrow> session_run nilSlice m s (map PingTurn ticks) = Ret s" for s :: "'a session" by (induction ticks) auto
  with Cons show ?case by (cases e) auto
qed simp

lemma Containers_keeps_log:
  "sendContainerList nilSlice (logged_Manager m) writeErr (w, log) = Ret (err, text, w', log') \<Longrightarrow> log' = log"
  by (auto simp: sendContainerList_def logged_Manager_def Let_def split: outcome.splits sum.splits option.splits if_splits prod.splits)

lemma session_logged:
  assumes "session_run nilSlice (logged_Manager m) s es = Ret s'"
  shows "snd (managed s') = snd (managed s) @ (if readRuns s then concat (map command_of (received (reads_of es))) else [])"
  using assms
proof (induction es arbitrary: s)
  case (Cons e es)
  then obtain s1 where s1: "session_step nilSlice (logged_Manager m) s e = Ret s1" "session_run nilSlice (logged_Manager m) s1 es = Ret s'"
    by (auto split: outcome.splits)
  obtain w log where w: "managed s = (w, log)" by (cases "managed s")
  have "snd (managed s1) @ (if readRuns s1 then concat (map command_of (received (reads_of es))) else []) =
      log @ (if readRuns s then concat (map command_of (received (reads_of (e # es)))) else [])"
    using s1(1) w handle_message_logged [of m _ w log] Containers_keeps_log [of nilSlice m _ w log]
    by (cases e) (fastforce split: if_splits outcome.splits sum.splits)+
  with Cons.IH [OF s1(2)] w show ?case by simp
qed simp

text \<open>The status text can be read again and lists the containers.\<close>

lemma status_text_read:
  assumes "\<forall>c \<in> set cs. list_all utf8_valid [ID c, FirstName c, ImageName c, Ports c, Status c]"
  shows "json_read (status_text nilSlice cs) = Some (if cs = [] \<and> nilSlice then JNull else JArr (map json_of_Container cs))"
proof -
  have "printable (json_of_Container c) \<and> depth (json_of_Container c) = 1" if "c \<in> set cs" for c
    using that assms by (auto simp: json_of_Container_def utf8_len_def byte_in_def)
  then show ?thesis
    unfolding status_text_def
    by (intro json_read_indent) (auto simp: list_all_iff maxNestingDepth_def)
qed

section \<open>Properties\<close>

text \<open>
  C21. On a connection the manager gets exactly the commands that were sent before the connection ended, in their order, however the goroutines interleave: for every
  message that can be decoded and whose action is start or stop in any spelling, one call with its identifier; anything else is
  ignored and does not end the connection.
\<close>

theorem status_commands_are_executed:
  assumes "handleWebSocket upgradeErr (w, []) = Some s" and "session_run nilSlice (logged_Manager m) s es = Ret s'"
  shows "snd (managed s') = concat (map command_of (received (reads_of es))) \<and>
    (\<forall>action cid. utf8_valid action \<and> utf8_valid cid \<longrightarrow>
       command_of (json_indent 0 (JObj [(''Action'', JStr action), (''ID'', JStr cid)])) =
       (if map to_lower action = ''start'' then [StartCmd cid] else if map to_lower action = ''stop'' then [StopCmd cid] else []))"
proof -
  have "snd (managed s) = []" "readRuns s" using assms(1) by (auto simp: handleWebSocket_def split: option.splits)
  with session_logged [OF assms(2)] command_text [of _ _ "''Action''" "''ID''"] show ?thesis
    by (simp add: field_of_def utf8_len_def byte_in_def)
qed

lemma example_no_panic:
  "\<exists>s'. session_run nilSlice (logged_Manager (docker_Manager plain_file app_client)) s es = Ret s'"
proof (induction es arbitrary: s)
  case (Cons e es)
  let ?m = "docker_Manager plain_file app_client"
  have ok: "StartContainer ?m cid w \<noteq> Panic" "StopContainer ?m cid w \<noteq> Panic" for cid w
    by (auto simp: docker_Manager_def docker_StartContainer_def docker_StopContainer_def split: prod.splits option.splits)
  have h: "\<exists>wl. handle_message (logged_Manager ?m) msg wl' = Ret wl" for msg wl'
    using ok by (cases "handle_message (logged_Manager ?m) msg wl'")
      (auto simp: handle_message_def logged_Manager_def logged_def split: prod.splits option.splits outcome.splits if_splits)
  have c: "\<exists>r wl. Containers (logged_Manager ?m) wl' = Ret (r, wl)" for wl'
    by (simp add: logged_Manager_def docker_Manager_def app_list)
  have "\<exists>s1. session_step nilSlice (logged_Manager ?m) s e = Ret s1"
  proof (cases e)
    case (StatusTurn writeErr)
    obtain r wl where "Containers (logged_Manager ?m) (managed s) = Ret (r, wl)" using c by blast
    with StatusTurn show ?thesis by (cases r) (auto simp: sendContainerList_def Let_def split: option.splits)
  next
    case (ReadTurn r)
    show ?thesis
    proof (cases r)
      case (Inr msg)
      obtain wl where "handle_message (logged_Manager ?m) msg (managed s) = Ret wl" using h by blast
      with ReadTurn Inr show ?thesis by simp
    qed (simp add: ReadTurn)
  qed simp
  with Cons.IH show ?case by auto
qed simp

theorem status_commands_are_executed_witness:
  "\<exists>s s'. handleWebSocket None (Some (''app:1'', True), []) = Some s \<and>
     session_run True (logged_Manager (docker_Manager plain_file app_client)) s
       [StatusTurn None, ReadTurn (Inr ''hello''), ReadTurn (Inr (json_indent 0 (JObj [(''Action'', JStr ''Stop''), (''ID'', JStr ''c1'')]))), PingTurn None,
        ReadTurn (Inl EOF)] = Ret s' \<and> snd (managed s') = [StopCmd ''c1'']"
proof -
  let ?stop = "json_indent 0 (JObj [(''Action'', JStr ''Stop''), (''ID'', JStr ''c1'')])"
  have a: "utf8_valid ''Stop''" "utf8_valid ''c1''" "map to_lower ''Stop'' = ''stop''"
    by (simp_all add: utf8_len_def byte_in_def to_lower_def char_of_def bit_0)
  obtain s where s: "handleWebSocket None (Some (''app:1'', True), [] :: command list) = Some s" by (simp add: handleWebSocket_def)
  obtain s' where s': "session_run True (logged_Manager (docker_Manager plain_file app_client)) s
      [StatusTurn None, ReadTurn (Inr ''hello''), ReadTurn (Inr ?stop), PingTurn None, ReadTurn (Inl EOF)] = Ret s'"
    using example_no_panic by blast
  have "command_of ''hello'' = []"
    by (simp add: command_of_def json_Unmarshal_def json_read_def lex.simps is_ws_def is_digit_def)
  with status_commands_are_executed [OF s s'] s s' a show ?thesis by (auto simp del: json_indent.simps session_run.simps)
qed

text \<open>
  C40. The goroutine that sends the status outlives its connection: writing after the closing handshake gives \<^verbatim>\<open>ErrCloseSent\<close>, which is
  taken for success, so it goes on listing the containers at every tick, however often, although reader and pings have ended.
\<close>

theorem status_goroutine_outlives_connection:
  assumes "\<And>w. \<exists>r w'. Containers m w = Ret (r, w')" and "statusRuns s"
    and "set es \<subseteq> {StatusTurn (Some ErrCloseSent), PingTurn (Some ErrCloseSent)}"
  shows "\<exists>s'. session_run nilSlice m s (ReadTurn (Inl err) # es) = Ret s' \<and>
    statusRuns s' \<and> \<not> readRuns s' \<and> (PingTurn (Some ErrCloseSent) \<in> set es \<longrightarrow> \<not> pingRuns s')"
proof -
  have "\<exists>s'. session_run nilSlice m s es = Ret s' \<and> statusRuns s' \<and> \<not> readRuns s' \<and>
      (PingTurn (Some ErrCloseSent) \<in> set es \<or> \<not> pingRuns s \<longrightarrow> \<not> pingRuns s')" if "statusRuns s" "\<not> readRuns s" for s
    using that assms(3)
  proof (induction es arbitrary: s)
    case (Cons e es)
    obtain r w where "Containers m (managed s) = Ret (r, w)" using assms(1) by blast
    then have "\<exists>s1. session_step nilSlice m s e = Ret s1 \<and> statusRuns s1 \<and> \<not> readRuns s1 \<and>
        (e = PingTurn (Some ErrCloseSent) \<or> \<not> pingRuns s \<longrightarrow> \<not> pingRuns s1)"
      using Cons.prems by (cases r) (auto simp: sendContainerList_def Let_def)
    then obtain s1 where s1: "session_step nilSlice m s e = Ret s1" "statusRuns s1" "\<not> readRuns s1"
      "e = PingTurn (Some ErrCloseSent) \<or> \<not> pingRuns s \<longrightarrow> \<not> pingRuns s1" by blast
    with Cons.IH [of s1] Cons.prems show ?case by auto
  qed simp
  from this [of "if readRuns s then s\<lparr>readRuns := False, wsClosed := True\<rparr> else s"] assms(2) show ?thesis by auto
qed

theorem status_goroutine_outlives_connection_witness:
  "\<exists>s s'. handleWebSocket None None = Some s \<and>
     session_run True (docker_Manager plain_file app_client) s
       [ReadTurn (Inl EOF), PingTurn (Some ErrCloseSent), StatusTurn (Some ErrCloseSent), StatusTurn (Some ErrCloseSent)] = Ret s' \<and>
     statusRuns s' \<and> \<not> pingRuns s'"
proof -
  have c: "\<exists>r w'. Containers (docker_Manager plain_file app_client) w = Ret (r, w')" for w
    by (simp add: docker_Manager_def app_list)
  obtain s where s: "handleWebSocket None None = Some (s :: slot session)" "statusRuns s" by (simp add: handleWebSocket_def)
  from status_goroutine_outlives_connection [OF c s(2), of "[PingTurn (Some ErrCloseSent), StatusTurn (Some ErrCloseSent), StatusTurn (Some ErrCloseSent)]" True EOF] s(1)
  show ?thesis by (auto simp del: session_run.simps)
qed

end
