(* ===== verification/Spec2Isabelle.thy ===== *)
theory Spec2Isabelle
  imports Mesh Status_Manager
begin

text \<open>
  The CARISMA service mesh: a control plane, with which the computers of a car (nodes) register
  themselves and the services they offer and which configures the Envoy proxy of every node through
  xDS, and an orchestrator on every node, which installs and removes containers to follow a
  deployment configuration.

  \<^bold>\<open>Parts and theories.\<close> Paths are relative to \<^verbatim>\<open>src/\<close>.

  \<^item> \<open>Go_Prelude\<close>: Go itself as the sources use it. Errors are values of \<open>go_error\<close>, a result that may fail is a
    sum, an operation that may panic is an \<open>outcome\<close>, \<^verbatim>\<open>int32\<close> and \<^verbatim>\<open>int\<close> wrap around, strings are byte strings.
    A loop over a map takes the sequence of entries it sees, and \<open>range_of\<close> says which sequences are
    possible; theorems quantify over all of them. The theory also holds the contracts of invariants and
    executors of step relations (\<open>step_invariant\<close>, \<open>step_executor\<close>), which the concurrent components interpret.
  \<^item> \<open>Channel_Broker\<close>: \<^verbatim>\<open>pkg/channel/broker.go\<close>. The broker with its channels and its listening goroutine is a step
    relation, one step per channel operation. Lemmas: order and completeness of delivery, writers are never blocked
    by a slow reader, the order of the listener map is irrelevant, and registration of a reader is not synchronous.
  \<^item> \<open>Json_Text\<close>, \<open>Json_Read\<close>, \<open>Json_Utf8\<close>: \<^verbatim>\<open>encoding/json\<close> as far as it is used. Writing with indentation and escapes, and reading by a
    lexer and a stack machine with the nesting limit of the package. Lemmas: what is written is read again, and every string that is
    read is valid UTF-8.
  \<^item> \<open>Deployment\<close>, \<open>Deployment_Json\<close>: \<^verbatim>\<open>pkg/config/deployment.go\<close>, writing and reading. Decoders keep what they could
    decode, as \<^verbatim>\<open>json.Unmarshal\<close> does. Lemmas: the round trip, and what malformed texts give.
  \<^item> \<open>Registry\<close>: \<^verbatim>\<open>pkg/registry\<close>. Registration and validation of node identifiers, the node channel, the service channel
    and the nested map of services. An operation on the services ends with a send on the unbuffered update channel; how many updates its receiver takes is a parameter, and a handler whose
    update is not taken is blocked. The contract \<open>service_directory\<close> is a set of entries with insertion and
    deletion that sends what it has become; the map of the sources implements it, and the behaviour of a whole stream follows from the contract.
  \<^item> \<open>Node_Channel\<close>: the streams of \<^verbatim>\<open>OpenChannel\<close> in \<^verbatim>\<open>pkg/registry/node_regisry.go\<close> over the broker, as a step relation. A run of it is a run
    of the broker, from which order and completeness of what the nodes receive follow.
  \<^item> \<open>Envoy_Types\<close>, \<open>Config\<close>, \<open>Command_Line\<close>, \<open>Config_New\<close>: the Envoy messages that are generated, \<^verbatim>\<open>pkg/config/config.go\<close> and \<^verbatim>\<open>envoy.go\<close>, and
    \<^verbatim>\<open>flag\<close> as far as it is used. Which of default, file and flag decides a value.
  \<^item> \<open>Xds_Server\<close>: \<^verbatim>\<open>cmd/carisma-control-plane/app/xds\<close>. Clusters, routes, listeners and snapshots. Making endpoints always fails, so
    \<^verbatim>\<open>makeClusters\<close> succeeds only without services, and the theorems follow that through to the snapshots.
  \<^item> \<open>Control_Plane\<close>: the handlers of the registries and the two goroutines that \<^verbatim>\<open>RegisterServer\<close> starts
    interleave; invariants say where the nodes are on their way, in which order they arrive, what the
    cached snapshots contain and who waits forever.
  \<^item> \<open>Control_Plane_Process\<close>: \<^verbatim>\<open>Run\<close> of \<^verbatim>\<open>cmd/carisma-control-plane/app/app.go\<close> around them, from the start over accepting connections to the signal that ends the process, with
    what it logs. A run of the process is a run of \<open>Control_Plane\<close>, so the invariants carry over; it can be reached exactly when it could listen.
  \<^item> \<open>Container_Image\<close>, \<open>Container_Manager\<close>: \<^verbatim>\<open>pkg/container\<close>. Image names and references, the interface of container
    managers as a record of operations, the debug manager with all its operations. The contract
    \<open>reliable_manager\<close> says what a client may rely on; the debug manager implements it.
  \<^item> \<open>Docker_Manager\<close>: \<^verbatim>\<open>docker_container_manager.go\<close> over a record of the operations of the Docker client. \<open>engine_laws\<close> says what a call of
    the client that succeeds has done; it never says that a call succeeds.
  \<^item> \<open>Orchestrator\<close>: \<^verbatim>\<open>cmd/carisma-orchestrator/app/orchestrator.go\<close> and \<^verbatim>\<open>envoy.go\<close>, for every manager. The calls of a
    round are characterised exactly; what a round does to the containers is proved from the contract.
  \<^item> \<open>Docker_Round\<close>: the orchestrator over the Docker manager. Rounds whose calls succeed converge to what is asked for; containers that are to be kept
    are safe from the comparison but not from a removal.
  \<^item> \<open>Deployment_State\<close>, \<open>Orchestrator_App\<close>, \<open>Orchestrator_Run\<close>: \<^verbatim>\<open>cmd/carisma-orchestrator/app/app.go\<close>. Merging of actual states; the handlers, goroutines and loops
    of the process; its start, run and end with the deferred calls. The contract \<open>closing_manager\<close> extends \<open>reliable_manager\<close> by closing.
  \<^item> \<open>Central_Node\<close>: the goroutines of the orchestrator on the central node, interleaved. A round is cut into its calls, which is proved to be
    the same as the whole round; the watcher, the receivers and the report take turns in every order. Two goroutines receive from one stream at once, which gRPC does not support: what either gets is
    left open. Lemmas: which messages are recorded, that announcements match the calls, and how a starting node can miss its configuration.
  \<^item> \<open>Discovery\<close>: \<^verbatim>\<open>pkg/udp\<close> and \<^verbatim>\<open>cmd/carisma-orchestrator/app/discovery.go\<close>. Broadcast messages, the search for the
    central node and the sending loop over a socket that is closed early.
  \<^item> \<open>File_Watcher\<close>: \<^verbatim>\<open>pkg/io/file_watcher.go\<close>. The handler sees exactly the changes of the file.
  \<^item> \<open>Status_Manager\<close>: \<^verbatim>\<open>cmd/carisma-status-manager/app/app.go\<close>. The three goroutines of a connection interleave; commands reach the manager in order; and
    the goroutine of the status survives its connection. Time is not modelled: a deadline that passes is an error of a read.
  \<^item> \<open>Logging\<close>: \<^verbatim>\<open>pkg/logging\<close>, \<^verbatim>\<open>pkg/version\<close> and \<^verbatim>\<open>cmd/carisma-version\<close>, what they compute.
  \<^item> \<open>Mesh\<close>: the processes together. The Envoy of a registered node finds its
    snapshot, the central node records what a node reports, and a configuration that a node writes to its channel is what the engine of another one runs after it has processed it.

  \<^bold>\<open>Interaction.\<close> The registries share one mutex with the xDS server and feed it over two channels; node channels
  exchange deployment configurations through the broker; the orchestrator receives them, works on its
  container manager and announces bundles on a service channel.

  \<^bold>\<open>Parameters.\<close> Code of other packages is an argument: the snapshot cache and the packing of messages (\<open>xds_env\<close>), the
  parser of image references (\<open>reference_parser\<close>), the printing of the bootstrap message, the gob codec, the Docker client and the reader of
  archives, the gRPC connection (\<open>connection\<close>), what sockets, web sockets and the file system answer. Random numbers and map
  orders of the debug manager are chosen by a \<open>debug_env\<close>. Every hypothesis about them is met by an
  example that is used in a witness.

  \<^bold>\<open>Bounds.\<close> There is no fuel: every loop is a structural recursion or has a termination proof; a loop that waits for
  input is a function of what arrives and says whether it still waits. The only
  bound is the number of fresh container identifiers in the contract of the debug manager, as only finitely many
  identifiers exist.

  \<^bold>\<open>Not modelled.\<close> The inside of gRPC and HTTP servers, of sockets, timers and the logging library, HTML templates and generated protocol code: they are
  other packages or pure input and output, and appear as parameters or as the inputs of the steps. Accessors that only hand out a field (the mutex and the channels of the xDS server) and the \<^verbatim>\<open>main\<close> functions have no definition of
  their own. What is logged is modelled for the control plane and left out elsewhere. The deferred calls at the end of an orchestrator are modelled after its main loop, not interleaved with the goroutines that still run then.
\<close>

end
